(* ===== verification/Hydra_Prelude.thy ===== *)
theory Hydra_Prelude
  imports Main "HOL-Library.Word"
begin

unbundle bit_operations_syntax

section \<open>Prelude: types, collections and shared lemmas\<close>

text \<open>
  What every component of the development shares: names for the machine types of the Go
  code, the collections of rewrite rules the component theories fill, Go string literals as
  byte lists, and the facts on words, little-endian byte sequences and lists that more than
  one component needs.

  A Go \<open>string\<close> and a Go \<open>[]byte\<close> are both byte sequences, so both are \<open>byte list\<close>.
\<close>

type_synonym byte = "8 word"
type_synonym u16 = "16 word"
type_synonym u32 = "32 word"
type_synonym gostring = "byte list"

named_theorems wire_simps \<open>byte-level facts of the wire encodings\<close>
named_theorems frame_simps \<open>what an operation leaves unchanged\<close>

definition str :: "string \<Rightarrow> gostring" where
  \<comment> \<open>a Go string literal with ASCII content\<close>
  "str s = map of_char s"

lemma str_simps [simp]:
  "str [] = []" "str (c # cs) = of_char c # str cs" "length (str cs) = length cs"
  by (simp_all add: str_def)

lemma str_append: "str (xs @ ys) = str xs @ str ys"
  by (simp add: str_def)

subsection \<open>Bits of words\<close>

lemma unat_lt2p_byte: "unat (c::byte) < 256"
  using unsigned_less [of c] by simp

lemma and_one_neq_zero_iff: "(c AND 1 \<noteq> (0::'a::len word)) \<longleftrightarrow> bit c 0"
proof -
  have "c AND 1 = of_bool (odd c)"
    by (rule and_one_eq [unfolded mod_2_eq_odd])
  then show ?thesis by (simp add: bit_0)
qed

lemma drop_bit_xor_word: "drop_bit n (a XOR b) = drop_bit n a XOR drop_bit n (b::'a::len word)"
  by (rule bit_word_eqI) (simp add: bit_simps)

lemma push_bit_xor_word: "push_bit n (a XOR b) = push_bit n a XOR push_bit n (b::'a::len word)"
  by (rule bit_word_eqI) (auto simp add: bit_simps)

lemma xor_cancel_left: "(a XOR b = a XOR c) = (b = (c::'a::len word))"
proof
  assume "a XOR b = a XOR c"
  then have "a XOR (a XOR b) = a XOR (a XOR c)" by simp
  then show "b = c" by (simp flip: xor.assoc)
qed simp

lemma xor_not_self: "c XOR NOT c = (- 1 :: 'a::len word)"
  by (rule bit_word_eqI) (simp add: bit_simps)

lemma unat_lt2p_u32: "unat (c::u32) < 2 ^ 32"
  using unsigned_less [of c] by simp

text \<open>The values of a hexadecimal digit and the positions in a byte.\<close>

lemma digit_values: "n < 16 \<Longrightarrow> n \<in> {0, 1, 2, 3, 4, 5, 6, 7, 8, 9, 10, 11, 12, 13, 14, 15 :: nat}"
  by simp arith

lemma bit_positions: "n < 8 \<Longrightarrow> n \<in> {0, 1, 2, 3, 4, 5, 6, 7 :: nat}"
  by simp arith

text \<open>Two bytes are equal when their eight bits are.\<close>

lemma byte_eqI:
  fixes a b :: byte
  assumes "bit a 0 = bit b 0" "bit a 1 = bit b 1" "bit a 2 = bit b 2" "bit a 3 = bit b 3"
    "bit a 4 = bit b 4" "bit a 5 = bit b 5" "bit a 6 = bit b 6" "bit a 7 = bit b 7"
  shows "a = b"
proof (rule bit_word_eqI)
  fix n
  assume "n < LENGTH(8)"
  then have "n \<in> {0, 1, 2, 3, 4, 5, 6, 7}" using bit_positions by simp
  then show "bit a n = bit b n" using assms by (elim insertE emptyE) simp_all
qed

lemma bit_byte_ge [simp]: "8 \<le> (numeral k :: nat) \<Longrightarrow> \<not> bit (b::byte) (numeral k)"
  by (auto dest: bit_imp_le_length)

text \<open>Iteration unfolded from the inside, so that each step meets an evaluated argument.\<close>

lemma funpow_numeral: "(f ^^ numeral k) x = (f ^^ pred_numeral k) (f x)"
  by (simp add: numeral_eq_Suc funpow_swap1)

subsection \<open>Little-endian byte sequences\<close>

text \<open>
  The word a little-endian byte sequence stands for. Bytes beyond the width of the result
  are cut off, as a Go shift would.
\<close>

primrec le_pack :: "byte list \<Rightarrow> 'w::len word" where
  "le_pack [] = 0"
| "le_pack (b # bs) = ucast b XOR push_bit 8 (le_pack bs)"

lemma bit_le_pack_ge: "8 * length bs \<le> n \<Longrightarrow> \<not> bit (le_pack bs :: 'w::len word) n"
proof (induction bs arbitrary: n)
  case Nil
  then show ?case by simp
next
  case (Cons b bs)
  then have "\<not> bit (le_pack bs :: 'w word) (n - 8)" by simp
  with Cons.prems show ?case by (auto simp add: bit_simps dest: bit_imp_le_length)
qed

lemma drop_push_bit_le_pack:
  assumes "8 * length bs + 8 \<le> LENGTH('w)"
  shows "drop_bit 8 (push_bit 8 (le_pack bs)) = (le_pack bs :: 'w::len word)"
proof (rule bit_word_eqI)
  fix n
  assume "n < LENGTH('w)"
  show "bit (drop_bit 8 (push_bit 8 (le_pack bs :: 'w word))) n = bit (le_pack bs :: 'w word) n"
  proof (cases "n + 8 < LENGTH('w)")
    case True
    then show ?thesis by (simp add: bit_simps)
  next
    case False
    with assms have "8 * length bs \<le> n" by simp
    then have "\<not> bit (le_pack bs :: 'w word) n" by (rule bit_le_pack_ge)
    with False show ?thesis by (simp add: bit_simps)
  qed
qed

lemma le_pack_Cons_inj:
  assumes "8 * length bs + 8 \<le> LENGTH('w)" and "8 * length cs + 8 \<le> LENGTH('w)"
    and eq: "(le_pack (b # bs) :: 'w::len word) = le_pack (c # cs)"
  shows "b = c \<and> (le_pack bs :: 'w word) = le_pack cs"
proof
  have low: "(ucast (le_pack (x # xs) :: 'w word) :: byte) = x"
    if "8 * length xs + 8 \<le> LENGTH('w)" for x :: byte and xs
    using that by (intro bit_word_eqI) (auto simp add: bit_simps)
  from low [OF assms(1), of b] low [OF assms(2), of c] eq show "b = c" by simp
  with eq have "push_bit 8 (le_pack bs) = (push_bit 8 (le_pack cs) :: 'w word)"
    by (simp add: xor_cancel_left)
  then have "drop_bit 8 (push_bit 8 (le_pack bs)) = (drop_bit 8 (push_bit 8 (le_pack cs)) :: 'w word)"
    by simp
  then show "(le_pack bs :: 'w word) = le_pack cs"
    using assms by (simp add: drop_push_bit_le_pack)
qed

lemma le_pack_inj:
  assumes "length bs = length cs" and "8 * length bs \<le> LENGTH('w)"
    and "(le_pack bs :: 'w::len word) = le_pack cs"
  shows "bs = cs"
  using assms
proof (induction bs cs rule: list_induct2)
  case (Cons b bs c cs)
  then show ?case
    using le_pack_Cons_inj [where 'w = 'w, of bs cs b c] by simp
qed simp

subsection \<open>Lists of two phases\<close>

text \<open>What a channel that keeps the order and may lose holds while its sender moves on.\<close>

definition phased :: "('a \<Rightarrow> bool) \<Rightarrow> ('a \<Rightarrow> bool) \<Rightarrow> 'a list \<Rightarrow> bool" where
  \<comment> \<open>first the old ones, then the current ones\<close>
  "phased P Q xs \<longleftrightarrow> (\<exists>ys zs. xs = ys @ zs \<and> list_all P ys \<and> list_all Q zs)"

lemma phased_all: "list_all P xs \<Longrightarrow> phased P Q xs" "list_all Q xs \<Longrightarrow> phased P Q xs"
  unfolding phased_def by (rule exI [of _ xs], simp, rule exI [of _ "[]"], simp)

lemma phased_snoc: "phased P Q xs \<Longrightarrow> Q x \<Longrightarrow> phased P Q (xs @ [x])"
  unfolding phased_def by (elim exE conjE, rule_tac x = ys in exI, rule_tac x = "zs @ [x]" in exI) simp

lemma phased_lose: "phased P Q (ps @ p # qs) \<Longrightarrow> phased P Q (ps @ qs)"
proof -
  assume "phased P Q (ps @ p # qs)"
  then obtain ys zs where s: "ps @ p # qs = ys @ zs" "list_all P ys" "list_all Q zs" unfolding phased_def by blast
  from s(1) consider us where "ys = ps @ us" "us @ zs = p # qs" | us where "ps = ys @ us" "us @ p # qs = zs"
    by (auto simp: append_eq_append_conv2)
  then show ?thesis
  proof cases
    case 1
    show ?thesis
    proof (cases us)
      case Nil
      with 1 s(2,3) show ?thesis unfolding phased_def by (intro exI [of _ ps] exI [of _ qs]) auto
    next
      case (Cons u us')
      with 1 s(2,3) show ?thesis unfolding phased_def by (intro exI [of _ "ps @ us'"] exI [of _ zs]) auto
    qed
  next
    case 2
    with s(2,3) show ?thesis unfolding phased_def by (intro exI [of _ ys] exI [of _ "us @ qs"]) auto
  qed
qed

lemma phased_Cons: "phased P Q (x # xs) \<Longrightarrow> P x \<and> phased P Q xs \<or> Q x \<and> list_all Q xs"
proof -
  assume "phased P Q (x # xs)"
  then obtain ys zs where s: "x # xs = ys @ zs" "list_all P ys" "list_all Q zs" unfolding phased_def by blast
  show ?thesis
  proof (cases ys)
    case Nil
    with s show ?thesis by auto
  next
    case (Cons y ys')
    with s show ?thesis unfolding phased_def by auto
  qed
qed

end
