(* ===== verification/Hydra_Crc.thy ===== *)
theory Hydra_Crc
  imports Hydra_Prelude
begin

unbundle bit_operations_syntax

section \<open>CRC-16 and CRC-32 (crc.go)\<close>

text \<open>
  The checksums of a frame body. \<open>crc.go\<close> generates the 256-entry table of the reflected
  CCITT polynomial at start-up and takes the reflected IEEE table from the standard library
  package \<open>hash/crc32\<close>, whose \<open>MakeTable\<close> runs the same eight shift steps per entry with
  the polynomial \<open>0xEDB88320\<close>. The table generation, the byte update and the loop over a
  buffer are defined once over the polynomial and instantiated at both widths.
\<close>

subsection \<open>The code\<close>

definition crc_bit :: "'w::len word \<Rightarrow> 'w word \<Rightarrow> 'w word" where
  \<comment> \<open>one shift step of the table generator\<close>
  "crc_bit poly c = (if c AND 1 \<noteq> 0 then drop_bit 1 c XOR poly else drop_bit 1 c)"

definition crc_table :: "'w::len word \<Rightarrow> 'w word list" where
  "crc_table poly = map (\<lambda>i. (crc_bit poly ^^ 8) (of_nat i)) [0..<256]"

definition crc_update :: "'w::len word list \<Rightarrow> 'w word \<Rightarrow> byte \<Rightarrow> 'w word" where
  "crc_update table crc b = table ! unat (ucast crc XOR b :: byte) XOR drop_bit 8 crc"

definition crc16Init :: u16 where [simp]: "crc16Init = 0xFFFF"
definition crc16Test :: u16 where [simp]: "crc16Test = 0xF0B8"
definition crc16Poly :: u16 where "crc16Poly = 0x8408"
definition crc32Init :: u32 where [simp]: "crc32Init = 0xFFFFFFFF"
definition crc32Test :: u32 where [simp]: "crc32Test = 0xDEBB20E3"
definition crc32Poly :: u32 where "crc32Poly = 0xEDB88320"

definition crc16Table :: "u16 list" where
  "crc16Table = crc_table crc16Poly"

definition crc32Table :: "u32 list" where
  "crc32Table = crc_table crc32Poly"

definition crc16Update :: "u16 \<Rightarrow> byte \<Rightarrow> u16" where
  "crc16Update crc b = crc_update crc16Table crc b"

definition crc32Update :: "u32 \<Rightarrow> byte \<Rightarrow> u32" where
  "crc32Update crc b = crc_update crc32Table crc b"

definition crc16Compute :: "byte list \<Rightarrow> u16" where
  "crc16Compute p = foldl crc16Update crc16Init p"

definition crc32Compute :: "byte list \<Rightarrow> u32" where
  "crc32Compute p = foldl crc32Update crc32Init p"

subsection \<open>The interface of a checksum register\<close>

text \<open>
  What the framing layer relies on: absorbing a byte is injective in the register, and a
  whole block of at most \<open>width\<close> bytes is injective in the block. From these two laws
  follows that a burst error no longer than the register is always visible in the checksum.
\<close>

locale checksum =
  fixes upd :: "'w::len word \<Rightarrow> byte \<Rightarrow> 'w word"
    and width :: nat
  assumes upd_inj: "upd c b = upd d b \<Longrightarrow> c = d"
    and block_inj: "length u = length v \<Longrightarrow> length u \<le> width \<Longrightarrow>
      foldl upd c u = foldl upd c v \<Longrightarrow> u = v"
begin

lemma foldl_inj: "foldl upd c s = foldl upd d s \<Longrightarrow> c = d"
  by (induction s arbitrary: c d) (auto dest: upd_inj)

lemma burst_detected:
  assumes "length u = length v" and "length u \<le> width" and "u \<noteq> v"
  shows "foldl upd c (p @ u @ s) \<noteq> foldl upd c (p @ v @ s)"
  using assms foldl_inj [of "foldl upd (foldl upd c p) u" s "foldl upd (foldl upd c p) v"]
    block_inj [of u v "foldl upd c p"] by auto

end

subsection \<open>Reflected table-driven CRCs are checksums\<close>

locale reflected_crc =
  fixes poly :: "'w::len word"
  assumes wide: "8 \<le> LENGTH('w)"
    and top: "bit poly (LENGTH('w) - 1)"
begin

lemma crc_bit_alt: "crc_bit poly c = drop_bit 1 c XOR (if bit c 0 then poly else 0)"
  by (simp add: crc_bit_def and_one_neq_zero_iff)

lemma crc_bit_xor: "crc_bit poly (a XOR b) = crc_bit poly a XOR crc_bit poly b"
  by (auto simp add: crc_bit_alt drop_bit_xor_word bit_xor_iff ac_simps)

lemma crc_bits_xor: "(crc_bit poly ^^ n) (a XOR b) = (crc_bit poly ^^ n) a XOR (crc_bit poly ^^ n) b"
  by (induction n) (simp_all add: crc_bit_xor)

lemma crc_bits_low_zero:
  "(\<And>i. i < n \<Longrightarrow> \<not> bit c i) \<Longrightarrow> (crc_bit poly ^^ n) c = drop_bit n c"
proof (induction n)
  case (Suc n)
  then have IH: "(crc_bit poly ^^ n) c = drop_bit n c" by simp
  have "crc_bit poly (drop_bit n c) = drop_bit 1 (drop_bit n c)"
    using Suc.prems [of n] by (simp add: crc_bit_alt bit_drop_bit_eq)
  with IH show ?case by simp
qed simp

lemma crc_bit_inj: "crc_bit poly a = crc_bit poly b \<Longrightarrow> a = b"
proof -
  assume eq: "crc_bit poly a = crc_bit poly b"
  have odd: "bit (crc_bit poly c) (LENGTH('w) - 1) = bit c 0" for c
    using top by (auto simp add: crc_bit_alt bit_simps dest: bit_imp_le_length)
  from eq odd have low: "bit a 0 = bit b 0" by metis
  with eq have "drop_bit 1 a = drop_bit 1 b"
    by (simp add: crc_bit_alt xor.commute [of _ poly] xor_cancel_left split: if_splits)
  show "a = b"
  proof (rule bit_word_eqI)
    fix n
    show "bit a n = bit b n"
    proof (cases n)
      case (Suc m)
      from \<open>drop_bit 1 a = drop_bit 1 b\<close> have "bit (drop_bit 1 a) m = bit (drop_bit 1 b) m"
        by (rule arg_cong)
      with Suc show ?thesis by (simp add: bit_drop_bit_eq)
    qed (simp add: low)
  qed
qed

lemma crc_bits_inj: "(crc_bit poly ^^ n) a = (crc_bit poly ^^ n) b \<Longrightarrow> a = b"
  by (induction n) (auto dest: crc_bit_inj)

text \<open>The table lookup equals eight shift steps on the register with the byte folded in.\<close>

lemma crc_table_nth: "(crc_table poly) ! unat b = (crc_bit poly ^^ 8) (ucast (b::byte))"
proof -
  have "unat b < 256" using unsigned_less [of b] by simp
  then show ?thesis by (simp add: crc_table_def)
qed

lemma update_bitwise: "crc_update (crc_table poly) c b = (crc_bit poly ^^ 8) (c XOR ucast b)"
proof -
  let ?high = "push_bit 8 (drop_bit 8 c)"
  have split: "c XOR ucast b = ucast (ucast c XOR b :: byte) XOR ?high"
    by (rule bit_word_eqI) (auto simp add: bit_simps wide)
  have "(crc_bit poly ^^ 8) ?high = drop_bit 8 ?high"
    by (rule crc_bits_low_zero) (simp add: bit_simps)
  moreover have "drop_bit 8 ?high = drop_bit 8 c"
    by (rule bit_word_eqI) (auto simp add: bit_simps dest: bit_imp_le_length)
  ultimately show ?thesis
    unfolding split crc_bits_xor crc_update_def crc_table_nth by simp
qed

lemma foldl_block:
  "8 * length bs \<le> LENGTH('w) \<Longrightarrow>
    foldl (crc_update (crc_table poly)) c bs = (crc_bit poly ^^ (8 * length bs)) (c XOR le_pack bs)"
proof (induction bs arbitrary: c)
  case (Cons b bs)
  have fits: "8 * length bs + 8 \<le> LENGTH('w)" using Cons.prems by simp
  have "(crc_bit poly ^^ 8) (push_bit 8 (le_pack bs)) = drop_bit 8 (push_bit 8 (le_pack bs))"
    by (rule crc_bits_low_zero) (simp add: bit_simps)
  also have "\<dots> = le_pack bs" by (rule drop_push_bit_le_pack [OF fits])
  finally have high: "(crc_bit poly ^^ 8) (push_bit 8 (le_pack bs)) = le_pack bs" .
  have "foldl (crc_update (crc_table poly)) c (b # bs)
      = (crc_bit poly ^^ (8 * length bs)) ((crc_bit poly ^^ 8) (c XOR ucast b) XOR le_pack bs)"
    using Cons.IH [of "crc_update (crc_table poly) c b"] fits by (simp add: update_bitwise [of c b])
  also have "(crc_bit poly ^^ 8) (c XOR ucast b) XOR le_pack bs
      = (crc_bit poly ^^ 8) (c XOR le_pack (b # bs))"
    by (simp add: crc_bits_xor high xor.assoc)
  finally show ?case
    using funpow_add [of "8 * length bs" 8 "crc_bit poly"] by (simp add: add.commute del: funpow.simps)
qed simp

sublocale checksum "crc_update (crc_table poly)" "LENGTH('w) div 8"
proof
  show "c = d" if "crc_update (crc_table poly) c b = crc_update (crc_table poly) d b" for c d b
    using crc_bits_inj [OF that [unfolded update_bitwise]]
    by (simp add: xor.commute [of _ "ucast b"] xor_cancel_left)
  show "u = v" if "length u = length v" "length u \<le> LENGTH('w) div 8"
    "foldl (crc_update (crc_table poly)) c u = foldl (crc_update (crc_table poly)) c v" for u v c
  proof -
    have fits: "8 * length u \<le> LENGTH('w)" using that(2) by simp
    from that(3) have "c XOR le_pack u = c XOR le_pack v"
      using fits that(1) by (auto simp add: foldl_block dest: crc_bits_inj)
    then show ?thesis
      using le_pack_inj [where 'w = 'w, OF that(1) fits] by (simp add: xor_cancel_left)
  qed
qed

text \<open>
  The residual: a trailer that spells the complement of the register leaves a value that
  does not depend on the data, and no other trailer does.
\<close>

lemma residual:
  assumes "8 * length t = LENGTH('w)"
  shows "foldl (crc_update (crc_table poly)) c t = (crc_bit poly ^^ LENGTH('w)) (- 1)
    \<longleftrightarrow> le_pack t = NOT c"
proof -
  have "foldl (crc_update (crc_table poly)) c t = (crc_bit poly ^^ LENGTH('w)) (c XOR le_pack t)"
    using foldl_block [of t c] assms by simp
  then show ?thesis
    using crc_bits_inj xor_not_self [of c] by (metis xor_cancel_left)
qed

end

interpretation crc16: reflected_crc crc16Poly
  by unfold_locales (simp_all add: crc16Poly_def bit_numeral_rec)

interpretation crc32: reflected_crc crc32Poly
  by unfold_locales (simp_all add: crc32Poly_def bit_numeral_rec)

subsection \<open>The two instances\<close>

lemmas crc16_update_bitwise = crc16.update_bitwise [folded crc16Table_def, folded crc16Update_def]
lemmas crc32_update_bitwise = crc32.update_bitwise [folded crc32Table_def, folded crc32Update_def]

lemmas crc_eval = crc16Compute_def crc32Compute_def crc16_update_bitwise crc32_update_bitwise
  crc_bit_def crc16Poly_def crc32Poly_def funpow_numeral

text \<open>The check value of the catalogue entry CRC-16/X-25, as in \<open>crc_test.go\<close>.\<close>

lemma check_string: "str ''123456789'' = [0x31, 0x32, 0x33, 0x34, 0x35, 0x36, 0x37, 0x38, 0x39]"
  by simp

lemma crc16_check_value: "NOT (crc16Compute (str ''123456789'')) = 0x906E"
  unfolding check_string by (simp add: crc_eval)

lemma crc32_check_value: "NOT (crc32Compute (str ''123456789'')) = 0xCBF43926"
  unfolding check_string by (simp add: crc_eval)

lemma crc16_foldl: "crc16Compute p = foldl (crc_update (crc_table crc16Poly)) crc16Init p"
  by (simp add: crc16Compute_def crc16Table_def crc16Update_def [abs_def])

lemma crc32_foldl: "crc32Compute p = foldl (crc_update (crc_table crc32Poly)) crc32Init p"
  by (simp add: crc32Compute_def crc32Table_def crc32Update_def [abs_def])

lemma crc16_all_ones: "(crc_bit crc16Poly ^^ 16) (- 1) = crc16Test"
proof -
  have "(- 1 :: u16) = 0xFFFF" by simp
  then show ?thesis
    by (simp only:) (simp add: crc_bit_def crc16Poly_def funpow_numeral)
qed

lemma crc32_all_ones: "(crc_bit crc32Poly ^^ 32) (- 1) = crc32Test"
proof -
  have "(- 1 :: u32) = 0xFFFFFFFF" by simp
  then show ?thesis
    by (simp only:) (simp add: crc_bit_def crc32Poly_def funpow_numeral)
qed

lemma crc16_residual:
  "length t = 2 \<Longrightarrow> crc16Compute (body @ t) = crc16Test \<longleftrightarrow> le_pack t = NOT (crc16Compute body)"
  using crc16.residual [of t "crc16Compute body"] crc16_all_ones by (simp add: crc16_foldl)

lemma crc32_residual:
  "length t = 4 \<Longrightarrow> crc32Compute (body @ t) = crc32Test \<longleftrightarrow> le_pack t = NOT (crc32Compute body)"
  using crc32.residual [of t "crc32Compute body"] crc32_all_ones by (simp add: crc32_foldl)

subsection \<open>The property\<close>

text \<open>
  Property C25. The table-driven updates equal the bitwise reference: eight shift-and-reduce
  steps with the reflected polynomials of X.25 and IEEE 802.3.
\<close>

theorem crc_tables_bitwise:
  "crc16Update crc b = (crc_bit crc16Poly ^^ 8) (crc XOR ucast b)
   \<and> crc32Update crc' b = (crc_bit crc32Poly ^^ 8) (crc' XOR ucast b)"
  by (simp add: crc16_update_bitwise crc32_update_bitwise)

end
