(* ===== verification/Hydra_Constants.thy ===== *)
theory Hydra_Constants
  imports Hydra_Prelude
begin

section \<open>Protocol constants (constants.go)\<close>

text \<open>
  The wire constants under the source's names. Byte constants and sizes unfold by the
  simplifier; the capability bits stay opaque (their definitions are the collection
  \<open>cap_defs\<close>), since the encoders and the reader only ask whether a bit is set.
  Durations are integers in nanoseconds, as \<open>time.Duration\<close> is.
\<close>

named_theorems cap_defs \<open>values of the capability bits\<close>

subsection \<open>Bytes of the frame layer\<close>

definition DLE :: byte where [simp]: "DLE = 0x18"
definition charXON :: byte where [simp]: "charXON = 0x11"
definition charXOF :: byte where [simp]: "charXOF = 0x13"
definition charCR :: byte where [simp]: "charCR = 0x0D"
definition charLF :: byte where [simp]: "charLF = 0x0A"
definition charAT :: byte where [simp]: "charAT = 0x40"
definition charBS :: byte where [simp]: "charBS = 0x08"

definition fmtEnd :: byte where [simp]: "fmtEnd = 0x61"
definition fmtBIN :: byte where [simp]: "fmtBIN = 0x62"
definition fmtHEX :: byte where [simp]: "fmtHEX = 0x63"
definition fmtASC :: byte where [simp]: "fmtASC = 0x64"
definition fmtUUE :: byte where [simp]: "fmtUUE = 0x65"

definition pktSTART :: byte where [simp]: "pktSTART = 0x41"
definition pktINIT :: byte where [simp]: "pktINIT = 0x42"
definition pktINITACK :: byte where [simp]: "pktINITACK = 0x43"
definition pktFINFO :: byte where [simp]: "pktFINFO = 0x44"
definition pktFINFOACK :: byte where [simp]: "pktFINFOACK = 0x45"
definition pktDATA :: byte where [simp]: "pktDATA = 0x46"
definition pktDATAACK :: byte where [simp]: "pktDATAACK = 0x47"
definition pktRPOS :: byte where [simp]: "pktRPOS = 0x48"
definition pktEOF :: byte where [simp]: "pktEOF = 0x49"
definition pktEOFACK :: byte where [simp]: "pktEOFACK = 0x4A"
definition pktEND :: byte where [simp]: "pktEND = 0x4B"
definition pktIDLE :: byte where [simp]: "pktIDLE = 0x4C"
definition pktDEVDATA :: byte where [simp]: "pktDEVDATA = 0x4D"
definition pktDEVDACK :: byte where [simp]: "pktDEVDACK = 0x4E"

subsection \<open>Capability bits\<close>

definition capXON :: u32 where [cap_defs]: "capXON = 1"
definition capTLN :: u32 where [cap_defs]: "capTLN = 2"
definition capCTL :: u32 where [cap_defs]: "capCTL = 4"
definition capHIC :: u32 where [cap_defs]: "capHIC = 8"
definition capHI8 :: u32 where [cap_defs]: "capHI8 = 16"
definition capBRK :: u32 where [cap_defs]: "capBRK = 32"
definition capASC :: u32 where [cap_defs]: "capASC = 64"
definition capUUE :: u32 where [cap_defs]: "capUUE = 128"
definition capC32 :: u32 where [cap_defs]: "capC32 = 256"
definition capDEV :: u32 where [cap_defs]: "capDEV = 512"
definition capFPT :: u32 where [cap_defs]: "capFPT = 1024"

definition capAssumed :: u32 where
  [cap_defs]: "capAssumed = capXON OR capTLN OR capCTL OR capHIC OR capHI8"

definition capUnion :: u32 where
  [cap_defs]: "capUnion = capASC OR capUUE OR capC32 OR capDEV"

definition capEscape :: u32 where
  [cap_defs]: "capEscape = capXON OR capTLN OR capCTL OR capHIC OR capHI8"

text \<open>The test \<open>opts & cap != 0\<close>.\<close>

definition has :: "u32 \<Rightarrow> u32 \<Rightarrow> bool" where
  "has opts c \<longleftrightarrow> opts AND c \<noteq> 0"

definition hydraRevstamp :: u32 where [simp]: "hydraRevstamp = 0x2b1aab00"

definition autostart :: gostring where "autostart = str ''hydra'' @ [charCR]"

subsection \<open>Sizes, counts, timers and sentinels\<close>

definition DataBufMax :: nat where [simp]: "DataBufMax = 2048"
definition dataOffsetPrefix :: nat where [simp]: "dataOffsetPrefix = 4"
definition maxPayloadSize :: nat where [simp]: "maxPayloadSize = DataBufMax + 8"
definition maxDecodedLen :: nat where [simp]: "maxDecodedLen = maxPayloadSize + 1 + 4"
definition maxEncodedLen :: nat where [simp]: "maxEncodedLen = 6183"
definition prefixMax :: nat where [simp]: "prefixMax = 31"

definition cancelCount :: nat where [simp]: "cancelCount = 8"
definition cancelPadCount :: nat where [simp]: "cancelPadCount = 10"
definition detectCancelCount :: nat where [simp]: "detectCancelCount = 5"
definition endInitialCount :: nat where [simp]: "endInitialCount = 2"
definition endResponseCount :: nat where [simp]: "endResponseCount = 3"

definition time_Second :: int where [simp]: "time_Second = 1000000000"
definition defaultBrainDead :: int where [simp]: "defaultBrainDead = 120 * time_Second"
definition defaultTimeout :: int where [simp]: "defaultTimeout = 10 * time_Second"
definition maxTimeout :: int where [simp]: "maxTimeout = 60 * time_Second"
definition defaultMaxRetries :: int where [simp]: "defaultMaxRetries = 10"
definition idleInterval :: int where [simp]: "idleInterval = 20 * time_Second"
definition startInterval :: int where [simp]: "startInterval = 5 * time_Second"

definition defaultGoodNeeded :: int where [simp]: "defaultGoodNeeded = 1024"
definition maxGoodNeeded :: int where [simp]: "maxGoodNeeded = 8192"
definition minBlockSize :: int where [simp]: "minBlockSize = 64"
definition rposMaxBlock :: int where [simp]: "rposMaxBlock = 1024"

definition ackHaveFile :: int where [simp]: "ackHaveFile = - 1"
definition ackDefer :: int where [simp]: "ackDefer = - 2"
definition offsetSkip :: int where [simp]: "offsetSkip = - 2"
definition SafeMaxOffset :: int where [simp]: "SafeMaxOffset = 0x7FFFFFFE"

end
