(* ===== verification/Hydra_Caps.thy ===== *)
theory Hydra_Caps
  imports Hydra_Constants
begin

unbundle bit_operations_syntax

section \<open>Capability codes (caps.go)\<close>

text \<open>
  The comma-separated capability list of the INIT packet and the bit set the session keeps.
  The Go code normalises each code with \<open>strings.ToUpper\<close> and \<open>strings.TrimSpace\<close>, which
  work on runes; the model decodes UTF-8 as \<open>unicode/utf8\<close> does (an invalid byte is the
  rune \<open>U+FFFD\<close>), applies the part of the case mapping that can produce ASCII (the ASCII
  letters, \<open>U+0131\<close> and \<open>U+017F\<close>), and trims the Unicode white space. Every other rune
  maps to a non-ASCII rune in Go and stays non-ASCII here, so the comparison with the ASCII
  codes has the same outcome.
\<close>

subsection \<open>Strings of the standard library\<close>

text \<open>\<open>strings.Split\<close> and \<open>strings.SplitSeq\<close> on a one-byte separator.\<close>

fun split_on :: "byte \<Rightarrow> gostring \<Rightarrow> gostring list" where
  "split_on s [] = [[]]"
| "split_on s (c # cs) =
     (if c = s then [] # split_on s cs
      else (case split_on s cs of [] \<Rightarrow> [[c]] | p # ps \<Rightarrow> (c # p) # ps))"

definition utf8_cont :: "byte \<Rightarrow> bool" where
  "utf8_cont b \<longleftrightarrow> 0x80 \<le> b \<and> b \<le> 0xBF"

text \<open>The multi-byte sequences: the rune and the number of continuation bytes.\<close>

fun utf8_multi :: "byte \<Rightarrow> byte list \<Rightarrow> (nat \<times> nat) option" where
  "utf8_multi b0 (b1 # bs) =
     (if 0xC2 \<le> b0 \<and> b0 \<le> 0xDF then
        (if utf8_cont b1 then Some ((unat b0 - 0xC0) * 64 + (unat b1 - 0x80), 1) else None)
      else if 0xE0 \<le> b0 \<and> b0 \<le> 0xEF then
        (case bs of
           b2 # _ \<Rightarrow>
             (if utf8_cont b1 \<and> utf8_cont b2 \<and> (b0 = 0xE0 \<longrightarrow> 0xA0 \<le> b1) \<and> (b0 = 0xED \<longrightarrow> b1 \<le> 0x9F)
              then Some ((unat b0 - 0xE0) * 4096 + (unat b1 - 0x80) * 64 + (unat b2 - 0x80), 2)
              else None)
         | _ \<Rightarrow> None)
      else if 0xF0 \<le> b0 \<and> b0 \<le> 0xF4 then
        (case bs of
           b2 # b3 # _ \<Rightarrow>
             (if utf8_cont b1 \<and> utf8_cont b2 \<and> utf8_cont b3
                \<and> (b0 = 0xF0 \<longrightarrow> 0x90 \<le> b1) \<and> (b0 = 0xF4 \<longrightarrow> b1 \<le> 0x8F)
              then Some ((unat b0 - 0xF0) * 262144 + (unat b1 - 0x80) * 4096
                         + (unat b2 - 0x80) * 64 + (unat b3 - 0x80), 3)
              else None)
         | _ \<Rightarrow> None)
      else None)"
| "utf8_multi b0 [] = None"

fun utf8_runes :: "byte list \<Rightarrow> nat list" where
  "utf8_runes [] = []"
| "utf8_runes (b # bs) =
     (if b < 0x80 then unat b # utf8_runes bs
      else (case utf8_multi b bs of
              Some (r, n) \<Rightarrow> r # utf8_runes (drop n bs)
            | None \<Rightarrow> 0xFFFD # utf8_runes bs))"

definition rune_upper :: "nat \<Rightarrow> nat" where
  "rune_upper r = (if 0x61 \<le> r \<and> r \<le> 0x7A then r - 0x20
     else if r = 0x131 then 0x49 else if r = 0x17F then 0x53 else r)"

definition rune_space :: "nat \<Rightarrow> bool" where
  "rune_space r \<longleftrightarrow> 9 \<le> r \<and> r \<le> 13 \<or> r = 0x20 \<or> r = 0x85 \<or> r = 0xA0 \<or> r = 0x1680
     \<or> 0x2000 \<le> r \<and> r \<le> 0x200A \<or> r = 0x2028 \<or> r = 0x2029 \<or> r = 0x202F \<or> r = 0x205F \<or> r = 0x3000"

definition trim_space :: "nat list \<Rightarrow> nat list" where
  "trim_space rs = rev (dropWhile rune_space (rev (dropWhile rune_space rs)))"

definition norm_code :: "gostring \<Rightarrow> nat list" where
  \<comment> \<open>\<open>strings.TrimSpace(strings.ToUpper(code))\<close>, as runes\<close>
  "norm_code code = trim_space (map rune_upper (utf8_runes code))"

subsection \<open>The code\<close>

definition capOrder :: "(u32 \<times> gostring) list" where
  "capOrder =
    [(capXON, str ''XON''), (capTLN, str ''TLN''), (capCTL, str ''CTL''), (capHIC, str ''HIC''),
     (capHI8, str ''HI8''), (capBRK, str ''BRK''), (capASC, str ''ASC''), (capUUE, str ''UUE''),
     (capC32, str ''C32''), (capDEV, str ''DEV''), (capFPT, str ''FPT'')]"

definition capDefaultSupported :: u32 where
  [cap_defs]: "capDefaultSupported = capXON OR capTLN OR capCTL OR capHIC OR capHI8
     OR capC32 OR capDEV OR capFPT"

definition cap_of_code :: "gostring \<Rightarrow> u32" where
  \<comment> \<open>the inner loop over \<open>capOrder\<close>: the first entry with that code, 0 if there is none\<close>
  "cap_of_code code =
     (case find (\<lambda>e. map unat (snd e) = norm_code code) capOrder of
        Some e \<Rightarrow> fst e | None \<Rightarrow> 0)"

definition parseCaps :: "gostring \<Rightarrow> u32" where
  "parseCaps list = foldl (\<lambda>caps code. caps OR cap_of_code code) 0 (split_on 0x2C list)"

definition capsString :: "u32 \<Rightarrow> gostring" where
  "capsString caps = foldl (\<lambda>b e.
      if caps AND fst e = 0 then b
      else (if length b > 0 then b @ [0x2C] else b) @ snd e) [] capOrder"

subsection \<open>Splitting and joining\<close>

fun join_on :: "byte \<Rightarrow> gostring list \<Rightarrow> gostring" where
  "join_on s [] = []"
| "join_on s [x] = x"
| "join_on s (x # y # ys) = x @ s # join_on s (y # ys)"

lemma split_on_noneD [simp]: "s \<notin> set x \<Longrightarrow> split_on s x = [x]"
  by (induction x) auto

lemma split_on_append_sep [simp]: "s \<notin> set x \<Longrightarrow> split_on s (x @ s # rest) = x # split_on s rest"
  by (induction x) auto

lemma split_on_nonempty: "split_on s x \<noteq> []"
  by (induction x) (auto split: list.splits)

lemma split_on_join_on:
  "xs \<noteq> [] \<Longrightarrow> \<forall>x \<in> set xs. s \<notin> set x \<Longrightarrow> split_on s (join_on s xs) = xs"
  by (induction s xs rule: join_on.induct) auto

subsection \<open>Parsing what the serialiser wrote\<close>

text \<open>The string builder loop writes the comma-separated join of the selected codes.\<close>

lemma caps_builder:
  assumes "\<forall>e \<in> set es. snd e \<noteq> []"
  shows "foldl (\<lambda>b e. if P e then b else (if length b > 0 then b @ [s] else b) @ snd e) b es =
    (let ks = map snd (filter (\<lambda>e. \<not> P e) es)
     in if ks = [] then b else if b = [] then join_on s ks else b @ s # join_on s ks)"
  using assms
proof (induction es arbitrary: b)
  case (Cons e es)
  then show ?case
    by (cases "map snd (filter (\<lambda>e. \<not> P e) es)") (auto simp: Let_def)
qed simp

lemma capsString_join:
  "capsString caps = join_on 0x2C (map snd (filter (\<lambda>e. caps AND fst e \<noteq> 0) capOrder))"
proof -
  have "\<forall>e \<in> set capOrder. snd e \<noteq> []" by (simp add: capOrder_def)
  from caps_builder [OF this, of "\<lambda>e. caps AND fst e = 0" "0x2C" "[]"] show ?thesis
    by (auto simp: capsString_def Let_def)
qed

lemma cap_of_code_order: "\<forall>e \<in> set capOrder. cap_of_code (snd e) = fst e"
  by (simp add: cap_of_code_def capOrder_def norm_code_def trim_space_def rune_upper_def rune_space_def)

lemma cap_of_code_empty: "cap_of_code [] = 0"
  by (simp add: cap_of_code_def capOrder_def norm_code_def trim_space_def)

lemma foldl_or_filter:
  assumes "\<forall>e \<in> set es. caps AND fst e = 0 \<or> caps AND fst e = fst e"
  shows "foldl (\<lambda>a e. a OR fst e) z (filter (\<lambda>e. caps AND fst e \<noteq> 0) es)
    = z OR (caps AND foldl (\<lambda>a e. a OR fst e) (0::u32) es)"
  using assms
proof (induction es rule: rev_induct)
  case (snoc e es)
  then show ?case by (auto simp: bit.conj_disj_distrib or.assoc)
qed simp

lemma and_single_bit: "(c::u32) AND push_bit k 1 = 0 \<or> c AND push_bit k 1 = push_bit k 1"
proof (cases "bit c k")
  case True
  then have "c AND push_bit k 1 = push_bit k 1"
    by (intro bit_word_eqI) (auto simp: bit_simps bit_1_iff)
  then show ?thesis ..
next
  case False
  then have "c AND push_bit k 1 = 0"
    by (intro bit_word_eqI) (auto simp: bit_simps bit_1_iff)
  then show ?thesis ..
qed

lemma capOrder_single_bits:
  "\<forall>e \<in> set capOrder. caps AND fst e = 0 \<or> caps AND fst e = fst e"
  using and_single_bit [of caps 0] and_single_bit [of caps 1] and_single_bit [of caps 2]
    and_single_bit [of caps 3] and_single_bit [of caps 4] and_single_bit [of caps 5]
    and_single_bit [of caps 6] and_single_bit [of caps 7] and_single_bit [of caps 8]
    and_single_bit [of caps 9] and_single_bit [of caps 10]
  by (simp add: capOrder_def cap_defs)

lemma parseCaps_join:
  assumes "\<forall>e \<in> set es. e \<in> set capOrder"
  shows "parseCaps (join_on 0x2C (map snd es)) = foldl (\<lambda>a e. a OR fst e) 0 es"
proof (cases "es = []")
  case True
  then show ?thesis by (simp add: parseCaps_def cap_of_code_empty)
next
  case False
  have "\<forall>e \<in> set capOrder. 0x2C \<notin> set (snd e)" by (simp add: capOrder_def)
  with assms have "\<forall>x \<in> set (map snd es). 0x2C \<notin> set x" by auto
  with False have "parseCaps (join_on 0x2C (map snd es)) =
      foldl (\<lambda>a code. a OR cap_of_code code) 0 (map snd es)"
    by (simp add: parseCaps_def split_on_join_on)
  also have "\<dots> = foldl (\<lambda>a e. a OR fst e) 0 es"
    using assms cap_of_code_order by (induction es rule: rev_induct) auto
  finally show ?thesis .
qed

lemma parse_caps_string: "parseCaps (capsString caps) = caps AND 0x7FF"
proof -
  have "foldl (\<lambda>a e. a OR fst e) (0::u32) capOrder = 0x7FF"
    by (simp add: capOrder_def cap_defs)
  then show ?thesis
    using foldl_or_filter [OF capOrder_single_bits, where z = 0 and caps = caps]
    by (simp add: capsString_join parseCaps_join)
qed

text \<open>
  Serialising any capability set in the canonical order and parsing the list
  gives the set back, restricted to the eleven capabilities that have a code.
\<close>

theorem parseCaps_capsString: "parseCaps (capsString caps) = caps AND 0x7FF"
  by (rule parse_caps_string)

end
