(* ===== verification/Hydra_Errors.thy ===== *)
theory Hydra_Errors
  imports Hydra_Prelude
begin

section \<open>Errors as values\<close>

text \<open>
  The sentinel errors of the package (\<open>hydra.go\<close> and the unexported ones beside the code
  that returns them), the errors of \<open>io\<close>, \<open>syscall\<close> and \<open>context\<close> the session inspects,
  the errors of user code (\<open>ErrOther\<close>), the run-time panic of a nil dereference
  (\<open>PanicNil\<close>) and a \<open>select\<close> that no channel can ever end (\<open>Blocked\<close>), outcomes the
  session theories prove unreachable, and wrapping with \<open>%w\<close>. \<open>errors_is\<close> is
  \<open>errors.Is\<close>: it follows the chain of wrapped errors.
\<close>

datatype err =
    ErrSkip | ErrDefer | ErrTransportNotClosable | ErrFileTooLarge | ErrBrainDead
  | ErrSessionAborted | ErrPeerCancel | ErrMaxRetries | ErrHandlerContract
  | ErrDevUnsupported | ErrIncompatible | ErrResumeOutOfRange | ErrSenderSkip
  | ErrRunActive | ErrSessionClosed | ErrDevBusy
  | errHexEncoding | errUueEncoding | errBadPayload | errBadInit | errBadFinfo | errInboxOverflow
  | IoEOF | IoUnexpectedEOF | IoClosedPipe | IoShortWrite | SysEPIPE | SysECONNRESET
  | CtxCanceled | CtxDeadlineExceeded
  | PanicNil | Blocked
  | ErrOther nat
  | ErrWrap err

fun errors_is :: "err \<Rightarrow> err \<Rightarrow> bool" where
  "errors_is (ErrWrap e) target \<longleftrightarrow> ErrWrap e = target \<or> errors_is e target"
| "errors_is e target \<longleftrightarrow> e = target"

lemma errors_is_refl [simp]: "errors_is e e"
  by (cases e) simp_all

subsection \<open>Results\<close>

text \<open>A Go function that returns \<open>(value, error)\<close> yields \<open>Inl\<close> the error or \<open>Inr\<close> the value.\<close>

type_synonym 'a result = "err + 'a"

definition ok :: "'a result \<Rightarrow> bool" where
  "ok r \<longleftrightarrow> (\<exists>x. r = Inr x)"

lemma ok_simps [simp]: "ok (Inr x)" "\<not> ok (Inl e)"
  by (simp_all add: ok_def)

end
