(* ===== verification/Hydra_Encoding.thy ===== *)
theory Hydra_Encoding
  imports Hydra_Constants Hydra_Errors
begin

unbundle bit_operations_syntax

section \<open>The four body encodings (encoding.go)\<close>

text \<open>
  A frame body is \<open>payload @ [type] @ crc\<close> passed through one of four encodings. The
  definitions follow \<open>encoding.go\<close>; a slice that is appended to is the list it holds. The
  lemmas split every encoder into the units it emits and prove that the decoder takes the
  units back to the body. DLE unescaping belongs to the reader and is treated there.
\<close>

subsection \<open>BIN: DLE escaping\<close>

record binEscaper =
  esc_opts :: u32
  esc_lastc :: byte

definition esc_reset :: "u32 \<Rightarrow> binEscaper" where
  "esc_reset opts = \<lparr>esc_opts = opts, esc_lastc = 0\<rparr>"

definition esc_mask :: "u32 \<Rightarrow> byte \<Rightarrow> byte" where
  \<comment> \<open>the comparison copy of a byte, 7-bit masked under HIC\<close>
  "esc_mask opts c = (if has opts capHIC then c AND 0x7F else c)"

definition esc_needed :: "u32 \<Rightarrow> byte \<Rightarrow> byte \<Rightarrow> bool" where
  "esc_needed opts lastc n \<longleftrightarrow> n = DLE
     \<or> has opts capXON \<and> (n = charXON \<or> n = charXOF)
     \<or> has opts capTLN \<and> n = charCR \<and> lastc = charAT
     \<or> has opts capCTL \<and> (n < 32 \<or> n = 127)"

definition esc_put :: "binEscaper \<Rightarrow> byte list \<Rightarrow> byte \<Rightarrow> byte list \<times> binEscaper" where
  "esc_put e out c =
     (let n = esc_mask (esc_opts e) c;
          escape = esc_needed (esc_opts e) (esc_lastc e) n
      in (if escape then out @ [DLE, c XOR 0x40] else out @ [c], e\<lparr>esc_lastc := n\<rparr>))"

definition esc_putAll :: "binEscaper \<Rightarrow> byte list \<Rightarrow> byte list \<Rightarrow> byte list \<times> binEscaper" where
  "esc_putAll e out body = foldl (\<lambda>(out, e) c. esc_put e out c) (out, e) body"

subsection \<open>HEX\<close>

definition hexdigit :: "gostring" where
  "hexdigit = str ''0123456789abcdef''"

definition backslash :: byte where [simp]: "backslash = 0x5C"

definition hex_wire :: "byte \<Rightarrow> byte list" where
  \<comment> \<open>the four cases of the loop body\<close>
  "hex_wire c =
     (if 0x80 \<le> c then [backslash, hexdigit ! unat (drop_bit 4 c), hexdigit ! unat (c AND 0x0F)]
      else if c < 32 \<or> c = 127 then [DLE, c XOR 0x40]
      else if c = backslash then [backslash, backslash]
      else [c])"

definition hexEncodeBody :: "byte list \<Rightarrow> byte list \<Rightarrow> byte list" where
  "hexEncodeBody out body = foldl (\<lambda>out c. out @ hex_wire c) out body"

definition hexNibble :: "byte \<Rightarrow> byte option" where
  "hexNibble c =
     (if 0x30 \<le> c \<and> c \<le> 0x39 then Some (c - 0x30)
      else if 0x61 \<le> c \<and> c \<le> 0x66 then Some (c - 0x61 + 10)
      else None)"

text \<open>
  \<open>hexDecodeBody\<close> decodes in place: \<open>out\<close> starts as \<open>body[:0:len(body)]\<close>, so every append
  writes into the buffer the loop still reads. The model keeps the buffer, the read index
  \<open>i\<close> and the length \<open>k\<close> of \<open>out\<close>; appending at \<open>k\<close> overwrites \<open>buf ! k\<close>.
\<close>

function hexDecode_loop :: "byte list \<Rightarrow> nat \<Rightarrow> nat \<Rightarrow> byte list result" where
  "hexDecode_loop buf i k =
     (if i < length buf then
        let c = buf ! i in
        if c \<noteq> backslash then hexDecode_loop (buf[k := c]) (i + 1) (k + 1)
        else if i + 1 \<ge> length buf then Inl errHexEncoding
        else if buf ! (i + 1) = backslash then
          hexDecode_loop (buf[k := backslash]) (i + 2) (k + 1)
        else if i + 2 \<ge> length buf then Inl errHexEncoding
        else (case (hexNibble (buf ! (i + 1)), hexNibble (buf ! (i + 2))) of
                (Some hi, Some lo) \<Rightarrow>
                  hexDecode_loop (buf[k := push_bit 4 hi OR lo]) (i + 3) (k + 1)
              | _ \<Rightarrow> Inl errHexEncoding)
      else Inr (take k buf))"
  by pat_completeness auto
termination
  by (relation "measure (\<lambda>(buf, i, k). length buf - i)") auto

declare hexDecode_loop.simps [simp del]

definition hexDecodeBody :: "byte list \<Rightarrow> byte list result" where
  "hexDecodeBody body = hexDecode_loop body 0 0"

subsection \<open>ASC: seven bits in eight\<close>

fun asc_step :: "u32 \<times> nat \<times> byte list \<times> binEscaper \<Rightarrow> byte \<Rightarrow> u32 \<times> nat \<times> byte list \<times> binEscaper" where
  "asc_step (acc, n, out, esc) b =
     (let acc = acc OR push_bit n (ucast b);
          (out, esc) = esc_put esc out (ucast (acc AND 0x7F));
          acc = drop_bit 7 acc;
          n = n + 1
      in if n \<ge> 7 then
           (let (out, esc) = esc_put esc out (ucast (acc AND 0x7F)) in (0, 0, out, esc))
         else (acc, n, out, esc))"

definition ascEncodeBody :: "byte list \<Rightarrow> byte list \<Rightarrow> binEscaper \<Rightarrow> byte list \<times> binEscaper" where
  "ascEncodeBody out body esc =
     (let (acc, n, out, esc) = foldl asc_step (0, 0, out, esc) body
      in if n > 0 then esc_put esc out (ucast (acc AND 0x7F)) else (out, esc))"

fun ascDecode_step :: "u32 \<times> nat \<times> byte list \<Rightarrow> byte \<Rightarrow> u32 \<times> nat \<times> byte list" where
  "ascDecode_step (acc, n, out) p =
     (let acc = acc OR push_bit n (ucast (p AND 0x7F)); n = n + 7
      in if n \<ge> 8 then (drop_bit 8 acc, n - 8, out @ [ucast acc]) else (acc, n, out))"

definition ascDecodeBody :: "byte list \<Rightarrow> byte list" where
  "ascDecodeBody body = (case foldl ascDecode_step (0, 0, []) body of (acc, n, out) \<Rightarrow> out)"

subsection \<open>UUE\<close>

definition uueBase :: byte where [simp]: "uueBase = 0x21"

definition uueChar :: "byte \<Rightarrow> byte" where
  "uueChar c = (c AND 0x3F) + uueBase"

fun uueEncodeBody :: "byte list \<Rightarrow> byte list \<Rightarrow> byte list" where
  "uueEncodeBody out (b0 # b1 # b2 # body) =
     uueEncodeBody (out @ [uueChar (drop_bit 2 b0),
                           uueChar (push_bit 4 b0 OR drop_bit 4 b1),
                           uueChar (push_bit 2 b1 OR drop_bit 6 b2),
                           uueChar b2]) body"
| "uueEncodeBody out [b0, b1] =
     out @ [uueChar (drop_bit 2 b0), uueChar (push_bit 4 b0 OR drop_bit 4 b1), uueChar (push_bit 2 b1)]"
| "uueEncodeBody out [b0] = out @ [uueChar (drop_bit 2 b0), uueChar (push_bit 4 b0)]"
| "uueEncodeBody out [] = out"

definition uue_dec :: "byte \<Rightarrow> byte option" where
  "uue_dec c = (if c < 0x21 \<or> c > 0x60 then None else Some ((c - uueBase) AND 0x3F))"

fun uueDecode_loop :: "byte list \<Rightarrow> byte list \<Rightarrow> byte list result" where
  "uueDecode_loop out (c0 # c1 # c2 # c3 # body) =
     (case (uue_dec c0, uue_dec c1, uue_dec c2, uue_dec c3) of
        (Some c0, Some c1, Some c2, Some c3) \<Rightarrow>
          uueDecode_loop (out @ [push_bit 2 c0 OR drop_bit 4 c1,
                                 push_bit 4 c1 OR drop_bit 2 c2,
                                 push_bit 6 c2 OR c3]) body
      | _ \<Rightarrow> Inl errUueEncoding)"
| "uueDecode_loop out [c0, c1, c2] =
     (case (uue_dec c0, uue_dec c1, uue_dec c2) of
        (Some c0, Some c1, Some c2) \<Rightarrow>
          Inr (out @ [push_bit 2 c0 OR drop_bit 4 c1, push_bit 4 c1 OR drop_bit 2 c2])
      | _ \<Rightarrow> Inl errUueEncoding)"
| "uueDecode_loop out [c0, c1] =
     (case (uue_dec c0, uue_dec c1) of
        (Some c0, Some c1) \<Rightarrow> Inr (out @ [push_bit 2 c0 OR drop_bit 4 c1])
      | _ \<Rightarrow> Inl errUueEncoding)"
| "uueDecode_loop out [c0] = Inr out"
| "uueDecode_loop out [] = Inr out"

definition uueDecodeBody :: "byte list \<Rightarrow> byte list result" where
  "uueDecodeBody body = uueDecode_loop [] body"

subsection \<open>What the BIN escaper emits\<close>

fun esc_wire :: "u32 \<Rightarrow> byte \<Rightarrow> byte list \<Rightarrow> byte list" where
  "esc_wire opts l [] = []"
| "esc_wire opts l (c # cs) =
     (if esc_needed opts l (esc_mask opts c) then [DLE, c XOR 0x40] else [c])
     @ esc_wire opts (esc_mask opts c) cs"

lemma esc_putAll_wire:
  "fst (esc_putAll e out body) = out @ esc_wire (esc_opts e) (esc_lastc e) body"
proof (induction body arbitrary: e out)
  case Nil
  then show ?case by (simp add: esc_putAll_def)
next
  case (Cons c body)
  have "esc_putAll e out (c # body) = esc_putAll (snd (esc_put e out c)) (fst (esc_put e out c)) body"
    by (simp add: esc_putAll_def split_beta)
  then show ?case by (simp add: Cons.IH) (simp add: esc_put_def Let_def)
qed

subsection \<open>HEX round trip\<close>

text \<open>The abstract decoder, on lists, and the bytes it sees for one encoded byte.\<close>

fun hex_decode :: "byte list \<Rightarrow> byte list result" where
  "hex_decode [] = Inr []"
| "hex_decode (c # cs) =
     (if c \<noteq> backslash then map_sum id (Cons c) (hex_decode cs)
      else (case cs of
          [] \<Rightarrow> Inl errHexEncoding
        | d # ds \<Rightarrow>
            if d = backslash then map_sum id (Cons backslash) (hex_decode ds)
            else (case ds of
                [] \<Rightarrow> Inl errHexEncoding
              | e # es \<Rightarrow> (case (hexNibble d, hexNibble e) of
                    (Some hi, Some lo) \<Rightarrow> map_sum id (Cons (push_bit 4 hi OR lo)) (hex_decode es)
                  | _ \<Rightarrow> Inl errHexEncoding))))"

definition hex_unit :: "byte \<Rightarrow> byte list" where
  "hex_unit c =
     (if 0x80 \<le> c then [backslash, hexdigit ! unat (drop_bit 4 c), hexdigit ! unat (c AND 0x0F)]
      else if c = backslash then [backslash, backslash] else [c])"

lemma hexDecode_loop_spec:
  "k \<le> i \<Longrightarrow> hexDecode_loop buf i k = map_sum id (append (take k buf)) (hex_decode (drop i buf))"
proof (induction buf i k rule: hexDecode_loop.induct)
  case (1 buf i k)
  have upd: "take (Suc k) (buf[k := c]) = take k buf @ [c]" if "i < length buf" for c
    using that "1.prems" by (simp add: take_Suc_conv_app_nth)
  have drp: "drop j (buf[k := c]) = drop j buf" if "i < j" for c j
    using that "1.prems" by simp
  show ?case
  proof (cases "i < length buf")
    case False
    then show ?thesis by (subst hexDecode_loop.simps) simp
  next
    case True
    note d1 = Cons_nth_drop_Suc [OF True, symmetric]
    consider (plain) "buf ! i \<noteq> backslash" | (end1) "buf ! i = backslash" "length buf \<le> i + 1"
      | (dbl) "buf ! i = backslash" "i + 1 < length buf" "buf ! (i + 1) = backslash"
      | (end2) "buf ! i = backslash" "i + 1 < length buf" "buf ! (i + 1) \<noteq> backslash" "length buf \<le> i + 2"
      | (nib) "buf ! i = backslash" "buf ! (i + 1) \<noteq> backslash" "i + 2 < length buf"
      by linarith
    then show ?thesis
    proof cases
      case plain
      with True "1.IH"(1) "1.prems" show ?thesis
        by (subst hexDecode_loop.simps)
          (simp add: d1 drp upd sum.map_comp comp_def id_def del: backslash_def)
    next
      case end1
      with True show ?thesis
        by (subst hexDecode_loop.simps) (simp add: d1 del: backslash_def)
    next
      case dbl
      from dbl(2) have d2: "drop (Suc i) buf = buf ! Suc i # drop (Suc (Suc i)) buf"
        by (simp add: Cons_nth_drop_Suc)
      from dbl True "1.IH"(2) "1.prems" show ?thesis
        by (subst hexDecode_loop.simps)
          (simp add: d1 d2 drp upd sum.map_comp comp_def id_def del: backslash_def)
    next
      case end2
      from end2(2) have d2: "drop (Suc i) buf = buf ! Suc i # drop (Suc (Suc i)) buf"
        by (simp add: Cons_nth_drop_Suc)
      from end2 True show ?thesis
        by (subst hexDecode_loop.simps) (simp add: d1 d2 del: backslash_def)
    next
      case nib
      from nib(3) have d2: "drop (Suc i) buf = buf ! Suc i # buf ! Suc (Suc i) # drop (Suc (Suc (Suc i))) buf"
        by (simp add: Cons_nth_drop_Suc)
      from nib True "1.IH"(3) "1.prems" show ?thesis
        by (subst hexDecode_loop.simps)
          (simp add: d1 d2 drp upd sum.map_comp comp_def id_def eval_nat_numeral del: backslash_def
            split: option.splits)
    qed
  qed
qed

lemma hexDecodeBody_eq: "hexDecodeBody body = hex_decode body"
proof -
  have "map_sum id (append []) r = r" for r :: "byte list result" by (cases r) simp_all
  then show ?thesis by (simp add: hexDecodeBody_def hexDecode_loop_spec)
qed

lemma hexNibble_digit:
  assumes "n < 16"
  shows "hexNibble (hexdigit ! n) = Some (of_nat n)"
proof -
  have "n \<in> {0, 1, 2, 3, 4, 5, 6, 7, 8, 9, 10, 11, 12, 13, 14, 15}"
    using assms by (rule digit_values)
  then show ?thesis by (elim insertE emptyE) (simp_all add: hexdigit_def hexNibble_def)
qed

lemma low_nibble_mask: "(0x0F::byte) = mask 4"
  by (simp add: mask_eq_exp_minus_1)

lemma nibble_bounds: "unat (drop_bit 4 (c::byte)) < 16" "unat (c AND 0x0F) < 16"
proof -
  have "unat (drop_bit 4 c) = unat c div 16"
    by (simp add: drop_bit_eq_div unat_div)
  then show "unat (drop_bit 4 c) < 16" using unat_lt2p_byte [of c] by simp
  have "c AND 0x0F \<le> 0x0F" by (rule word_and_le1)
  then show "unat (c AND 0x0F) < 16" by (simp add: word_le_nat_alt)
qed

lemma nibbles_join: "push_bit 4 (drop_bit 4 c) OR (c AND 0x0F) = (c::byte)"
  unfolding low_nibble_mask by (rule bit_word_eqI) (auto simp: bit_simps)

lemma hexdigit_not_backslash: "n < 16 \<Longrightarrow> hexdigit ! n \<noteq> backslash"
  using hexNibble_digit [of n] by (auto simp: hexNibble_def)

lemma hex_decode_unit: "hex_decode (hex_unit c @ bs) = map_sum id (Cons c) (hex_decode bs)"
  using hexNibble_digit [OF nibble_bounds(1) [of c]] hexNibble_digit [OF nibble_bounds(2) [of c]]
    hexdigit_not_backslash [OF nibble_bounds(1) [of c]] nibbles_join [of c]
  by (auto simp: hex_unit_def)

lemma hex_decode_units: "hex_decode (concat (map hex_unit body)) = Inr body"
  by (induction body) (simp_all add: hex_decode_unit)

lemma hexEncodeBody_wire: "hexEncodeBody out body = out @ concat (map hex_wire body)"
  unfolding hexEncodeBody_def by (induction body arbitrary: out) simp_all

lemma length_hex_unit: "length (hex_unit c) \<le> 3"
  by (simp add: hex_unit_def)

subsection \<open>ASC round trip\<close>

text \<open>The seven-bit units the encoder feeds to the escaper.\<close>

fun asc_units :: "u32 \<Rightarrow> nat \<Rightarrow> byte list \<Rightarrow> byte list" where
  "asc_units acc n [] = (if n > 0 then [ucast (acc AND 0x7F)] else [])"
| "asc_units acc n (b # bs) =
     (let acc' = acc OR push_bit n (ucast b)
      in ucast (acc' AND 0x7F) #
         (if n + 1 \<ge> 7 then ucast (drop_bit 7 acc' AND 0x7F) # asc_units 0 0 bs
          else asc_units (drop_bit 7 acc') (n + 1) bs))"

lemma esc_putAll_simps [simp]:
  "esc_putAll e out [] = (out, e)"
  "esc_putAll e out (c # cs) = (case esc_put e out c of (out', e') \<Rightarrow> esc_putAll e' out' cs)"
  by (simp_all add: esc_putAll_def split_beta)

definition asc_finish :: "u32 \<times> nat \<times> byte list \<times> binEscaper \<Rightarrow> byte list \<times> binEscaper" where
  "asc_finish s = (case s of (acc, n, out, esc) \<Rightarrow>
     if n > 0 then esc_put esc out (ucast (acc AND 0x7F)) else (out, esc))"

lemma asc_fold_units:
  "asc_finish (foldl asc_step (acc, n, out, esc) body) = esc_putAll esc out (asc_units acc n body)"
proof (induction body arbitrary: acc n out esc)
  case Nil
  then show ?case by (simp add: asc_finish_def split_beta)
next
  case (Cons b body)
  obtain o1 e1 where p1: "esc_put esc out (ucast ((acc OR push_bit n (ucast b)) AND 0x7F)) = (o1, e1)"
    by fastforce
  obtain o2 e2 where p2: "esc_put e1 o1 (ucast (drop_bit 7 (acc OR push_bit n (ucast b)) AND 0x7F)) = (o2, e2)"
    by fastforce
  show ?case
    by (simp add: Let_def p1 p2 Cons.IH del: drop_bit_or)
qed

lemma ascEncodeBody_units: "ascEncodeBody out body esc = esc_putAll esc out (asc_units 0 0 body)"
  using asc_fold_units [of 0 0 out esc body] by (simp add: ascEncodeBody_def asc_finish_def)

lemma seven_bits: "(0x7F::u32) = mask 7" "(0x7F::byte) = mask 7"
  by (simp_all add: mask_eq_exp_minus_1)

lemma asc_unit_low7: "ucast (ucast (a AND 0x7F) AND (0x7F::byte)) = ((a::u32) AND 0x7F)"
  unfolding seven_bits by (rule bit_word_eqI) (auto simp: bit_simps)

text \<open>
  The decoder lags the encoder by one byte: with \<open>n\<close> bits carried by the encoder (\<open>E\<close>),
  the decoder holds the other \<open>8 - n\<close> bits (\<open>D\<close>) of the same pending byte.
\<close>

definition asc_pending :: "nat \<Rightarrow> u32 \<Rightarrow> u32 \<Rightarrow> byte" where
  "asc_pending n D E = ucast (D OR push_bit (8 - n) E)"

definition asc_sync :: "nat \<Rightarrow> u32 \<Rightarrow> u32 \<Rightarrow> bool" where
  "asc_sync n D E \<longleftrightarrow> (\<forall>i \<ge> 8 - n. \<not> bit D i) \<and> (\<forall>i \<ge> n. \<not> bit E i)"

definition asc_acc :: "u32 \<Rightarrow> nat \<Rightarrow> u32 \<Rightarrow> u32" where
  "asc_acc D m A = D OR push_bit m (A AND 0x7F)"

lemma asc_step_emit:
  fixes D E :: u32 and b :: byte
  assumes "1 \<le> n" "n \<le> 7" and sync: "asc_sync n D E"
  shows "ucast (asc_acc D (8 - n) (E OR push_bit n (ucast b))) = asc_pending n D E"
    and "n < 7 \<Longrightarrow> asc_sync (n + 1) (drop_bit 8 (asc_acc D (8 - n) (E OR push_bit n (ucast b))))
           (drop_bit 7 (E OR push_bit n (ucast b)))"
    and "n < 7 \<Longrightarrow> asc_pending (n + 1) (drop_bit 8 (asc_acc D (8 - n) (E OR push_bit n (ucast b))))
           (drop_bit 7 (E OR push_bit n (ucast b))) = b"
proof -
  have noD: "\<not> bit D i" if "8 - n \<le> i" for i using sync that by (simp add: asc_sync_def)
  have noE: "\<not> bit E i" if "n \<le> i" for i using sync that by (simp add: asc_sync_def)
  show "ucast (asc_acc D (8 - n) (E OR push_bit n (ucast b))) = asc_pending n D E"
    unfolding asc_acc_def asc_pending_def seven_bits using assms(1,2) noE
    by (intro bit_word_eqI) (auto simp: bit_simps)
  show "asc_sync (n + 1) (drop_bit 8 (asc_acc D (8 - n) (E OR push_bit n (ucast b))))
      (drop_bit 7 (E OR push_bit n (ucast b)))" if "n < 7"
    unfolding asc_acc_def asc_sync_def seven_bits using assms(1) that noD noE
    by (auto simp: bit_simps dest: bit_imp_le_length)
  show "asc_pending (n + 1) (drop_bit 8 (asc_acc D (8 - n) (E OR push_bit n (ucast b))))
      (drop_bit 7 (E OR push_bit n (ucast b))) = b" if "n < 7"
    unfolding asc_acc_def asc_pending_def seven_bits using assms(1) that noD noE
    by (intro bit_word_eqI) (auto simp: bit_simps dest: bit_imp_le_length)
qed

lemma asc_last:
  assumes "asc_sync n D E" and "n \<le> 7" and "7 \<le> n"
  shows "drop_bit 8 (asc_acc D (8 - n) E) = 0"
    and "ucast (asc_acc D (8 - n) E) = asc_pending n D E"
  using assms unfolding asc_acc_def asc_sync_def asc_pending_def seven_bits
  by (auto simp: bit_simps simp del: push_bit_Suc intro!: bit_word_eqI)

lemma asc_first:
  fixes b :: byte
  assumes "n = 1"
  shows "asc_sync n (asc_acc 0 0 (0 OR push_bit 0 (ucast b))) (drop_bit 7 (0 OR push_bit 0 (ucast b)))"
    and "asc_pending n (asc_acc 0 0 (0 OR push_bit 0 (ucast b))) (drop_bit 7 (0 OR push_bit 0 (ucast b))) = b"
proof -
  show "asc_sync n (asc_acc 0 0 (0 OR push_bit 0 (ucast b))) (drop_bit 7 (0 OR push_bit 0 (ucast b)))"
    using assms unfolding asc_sync_def asc_acc_def seven_bits
    by (auto simp: bit_simps dest: bit_imp_le_length)
  show "asc_pending n (asc_acc 0 0 (0 OR push_bit 0 (ucast b))) (drop_bit 7 (0 OR push_bit 0 (ucast b))) = b"
  proof (rule bit_word_eqI)
    fix i
    assume "i < LENGTH(8)"
    then have "i < 7 \<or> i = 7" by auto
    then show "bit (asc_pending n (asc_acc 0 0 (0 OR push_bit 0 (ucast b)))
        (drop_bit 7 (0 OR push_bit 0 (ucast b)))) i = bit b i"
      using assms unfolding asc_pending_def asc_acc_def seven_bits by (auto simp: bit_simps)
  qed
qed

lemma ascDecode_step_unit:
  "ascDecode_step (D, m, out) (ucast (a AND 0x7F)) =
     (if m \<ge> 1 then (drop_bit 8 (asc_acc D m a), m - 1, out @ [ucast (asc_acc D m a)])
      else (asc_acc D m a, m + 7, out))"
  by (simp only: ascDecode_step.simps asc_unit_low7 Let_def asc_acc_def) auto

declare ascDecode_step.simps [simp del] push_bit_or [simp del] drop_bit_or [simp del]

lemma asc_decode_units:
  assumes "n = 0 \<and> m = 0 \<and> D = 0 \<and> E = 0 \<or> 1 \<le> n \<and> n \<le> 6 \<and> m = 8 - n \<and> asc_sync n D E"
  shows "snd (snd (foldl ascDecode_step (D, m, out) (asc_units E n bs)))
    = out @ (if n = 0 then [] else [asc_pending n D E]) @ bs"
  using assms
proof (induction bs arbitrary: D m E n out)
  case Nil
  then show ?case
    using asc_step_emit(1) [of n D E 0] by (auto simp: ascDecode_step_unit)
next
  case (Cons b bs)
  define A where "A = E OR push_bit n (ucast b)"
  consider "n = 0" | "1 \<le> n" "n \<le> 5" | "n = 6" using Cons.prems by linarith
  then show ?case
  proof cases
    case 1
    with Cons.prems have zero: "m = 0" "D = 0" "E = 0" by auto
    have "snd (snd (foldl ascDecode_step (asc_acc 0 0 A, 7, out) (asc_units (drop_bit 7 A) 1 bs)))
        = out @ b # bs"
      using asc_first [of 1 b] zero 1 by (subst Cons.IH) (auto simp: A_def)
    moreover have "A = ucast b" using 1 zero by (simp add: A_def)
    ultimately show ?thesis
      using 1 zero by (simp add: ascDecode_step_unit Let_def)
  next
    case 2
    with Cons.prems have sync: "asc_sync n D E" and m: "m = 8 - n" by auto
    note emit = asc_step_emit [of n D E b, OF _ _ sync, folded A_def]
    have "snd (snd (foldl ascDecode_step (drop_bit 8 (asc_acc D m A), m - 1, out @ [asc_pending n D E])
        (asc_units (drop_bit 7 A) (n + 1) bs))) = (out @ [asc_pending n D E]) @ b # bs"
      using 2 emit(2,3) m by (subst Cons.IH) auto
    moreover have "Suc 0 \<le> 8 - n" using 2 by linarith
    ultimately show ?thesis
      using 2 m emit(1) by (simp add: ascDecode_step_unit Let_def flip: A_def)
  next
    case 3
    with Cons.prems have sync: "asc_sync n D E" and m: "m = 8 - n" by auto
    note emit = asc_step_emit [of n D E b, OF _ _ sync, folded A_def]
    let ?D = "drop_bit 8 (asc_acc D m A)"
    from 3 m emit(2) have sync': "asc_sync 7 ?D (drop_bit 7 A)" by simp
    have "snd (snd (foldl ascDecode_step (0, 0, out @ [asc_pending n D E, b]) (asc_units 0 0 bs)))
        = (out @ [asc_pending n D E, b]) @ bs"
      by (subst Cons.IH) auto
    moreover have "A = E OR push_bit 6 (ucast b)" using 3 by (simp add: A_def)
    note A6 = this [symmetric]
    ultimately show ?thesis
      using 3 m emit(1,3) asc_last [OF sync'] by (simp add: ascDecode_step_unit Let_def A6)
  qed
qed

lemma ascDecodeBody_units: "ascDecodeBody (asc_units 0 0 body) = body"
  using asc_decode_units [of 0 0 0 0 "[]" body] by (simp add: ascDecodeBody_def split_beta)

lemma length_asc_units: "length (asc_units acc n bs) \<le> 2 * length bs + 1"
proof (induction bs arbitrary: acc n)
  case (Cons b bs)
  show ?case
    using Cons.IH [of 0 0] Cons.IH [of "drop_bit 7 (acc OR push_bit n (ucast b))" "n + 1"]
    by (simp add: Let_def)
qed simp

lemma asc_unit_less: "ucast (a AND 0x7F :: u32) < (0x80::byte)"
proof -
    have "(ucast (a AND 0x7F) :: byte) AND 0x7F = ucast (a AND 0x7F)"
      unfolding seven_bits by (rule bit_word_eqI) (auto simp: bit_simps)
    then have "(ucast (a AND 0x7F) :: byte) \<le> 0x7F"
      using word_and_le1 [of "ucast (a AND 0x7F) :: byte" "0x7F"] by simp
    then show ?thesis by (simp add: word_le_nat_alt word_less_nat_alt)
qed

lemma asc_units_low7: "u \<in> set (asc_units acc n bs) \<Longrightarrow> u < 0x80"
  by (induction bs arbitrary: acc n) (auto simp: Let_def asc_unit_less split: if_splits)

subsection \<open>UUE round trip\<close>

lemma uue_dec_char: "uue_dec (uueChar c) = Some (c AND 0x3F)"
proof -
  have le: "c AND 0x3F \<le> 0x3F" by (rule word_and_le1)
  then have "unat (c AND 0x3F) \<le> 63" by (simp add: word_le_nat_alt)
  then have "unat ((c AND 0x3F) + 0x21) = unat (c AND 0x3F) + 33"
    by (simp add: unat_plus_simple [THEN iffD1] unat_word_ariths)
  with \<open>unat (c AND 0x3F) \<le> 63\<close> have "\<not> uueChar c < 0x21" "\<not> uueChar c > 0x60"
    by (simp_all add: uueChar_def word_less_nat_alt)
  then show ?thesis by (simp add: uue_dec_def uueChar_def)
qed

lemma six_bits: "(0x3F::byte) = mask 6"
  by (simp add: mask_eq_exp_minus_1)

lemma uue_group:
  fixes b0 b1 b2 :: byte
  shows "push_bit 2 (drop_bit 2 b0 AND 0x3F) OR drop_bit 4 ((push_bit 4 b0 OR drop_bit 4 b1) AND 0x3F) = b0"
    and "push_bit 4 ((push_bit 4 b0 OR drop_bit 4 b1) AND 0x3F)
      OR drop_bit 2 ((push_bit 2 b1 OR drop_bit 6 b2) AND 0x3F) = b1"
    and "push_bit 6 ((push_bit 2 b1 OR drop_bit 6 b2) AND 0x3F) OR (b2 AND 0x3F) = b2"
  unfolding six_bits by (rule byte_eqI; simp add: bit_simps)+

lemma uue_tail:
  fixes b0 b1 :: byte
  shows "push_bit 2 (drop_bit 2 b0 AND 0x3F) OR drop_bit 4 (push_bit 4 b0 AND 0x3F) = b0"
    and "push_bit 4 ((push_bit 4 b0 OR drop_bit 4 b1) AND 0x3F) OR drop_bit 2 (push_bit 2 b1 AND 0x3F) = b1"
  unfolding six_bits by (rule byte_eqI; simp add: bit_simps)+

fun uue_units :: "byte list \<Rightarrow> byte list" where
  "uue_units (b0 # b1 # b2 # body) =
     uueChar (drop_bit 2 b0) # uueChar (push_bit 4 b0 OR drop_bit 4 b1)
     # uueChar (push_bit 2 b1 OR drop_bit 6 b2) # uueChar b2 # uue_units body"
| "uue_units [b0, b1] =
     [uueChar (drop_bit 2 b0), uueChar (push_bit 4 b0 OR drop_bit 4 b1), uueChar (push_bit 2 b1)]"
| "uue_units [b0] = [uueChar (drop_bit 2 b0), uueChar (push_bit 4 b0)]"
| "uue_units [] = []"

lemma uueEncodeBody_units: "uueEncodeBody out body = out @ uue_units body"
  by (induction out body rule: uueEncodeBody.induct) simp_all

lemma uueDecode_units: "uueDecode_loop out (uue_units body) = Inr (out @ body)"
  by (induction body arbitrary: out rule: uue_units.induct)
    (simp_all add: uue_dec_char uue_group uue_tail del: push_bit_and drop_bit_and)

lemma uueDecodeBody_units: "uueDecodeBody (uue_units body) = Inr body"
  by (simp add: uueDecodeBody_def uueDecode_units)

lemma length_uue_units: "length (uue_units body) \<le> 2 * length body"
  by (induction body rule: uue_units.induct) simp_all

lemma uueChar_range: "0x21 \<le> uueChar c \<and> uueChar c \<le> 0x60"
  using uue_dec_char [of c] by (auto simp: uue_dec_def not_less split: if_splits)

lemma uue_units_range: "u \<in> set (uue_units body) \<Longrightarrow> 0x21 \<le> u \<and> u \<le> 0x60"
  by (induction body rule: uue_units.induct) (use uueChar_range in auto)

subsection \<open>The properties\<close>

text \<open>
  Property C26. The in-place HEX decoder, which writes its output over the slice it is still
  reading, computes what a decoder into a fresh list computes, errors included: the write
  index never overtakes the read index.
\<close>

theorem hexDecode_in_place: "hexDecodeBody body = hex_decode body"
  by (rule hexDecodeBody_eq)

text \<open>
  UUE round trip: decoding what the encoder appended gives the body back, for
  bodies of any length modulo three.
\<close>

theorem uue_roundtrip: "uueDecodeBody (uueEncodeBody [] body) = Inr body"
  by (simp add: uueEncodeBody_units uueDecodeBody_units)

end
