(* ===== verification/Hydra_Packet.thy ===== *)
theory Hydra_Packet
  imports Hydra_Caps Hydra_Encoding
begin

unbundle bit_operations_syntax

section \<open>Packet payloads (packet.go)\<close>

text \<open>
  Marshalling and parsing of the packet payloads. \<open>int32\<close>, \<open>int64\<close> and \<open>int\<close> values are
  HOL integers, and each conversion of the code is written out: \<open>uint32(v)\<close> is
  \<open>word_of_int\<close>, \<open>int32(w)\<close> is \<open>sint\<close>, \<open>int(w)\<close> is \<open>uint\<close>. The indexing of
  \<open>readLE32\<close> panics in Go when the slice is too short; every caller checks the length first,
  as the definitions here do.
\<close>

record packet =
  pkt_typ :: byte
  pkt_payload :: "byte list"

definition le32 :: "byte list \<Rightarrow> u32 \<Rightarrow> byte list" where
  "le32 out v = out @ [ucast v, ucast (drop_bit 8 v), ucast (drop_bit 16 v), ucast (drop_bit 24 v)]"

definition readLE32 :: "byte list \<Rightarrow> nat \<Rightarrow> u32" where
  "readLE32 p off = ucast (p ! off) OR push_bit 8 (ucast (p ! (off + 1)))
     OR push_bit 16 (ucast (p ! (off + 2))) OR push_bit 24 (ucast (p ! (off + 3)))"

subsection \<open>Offsets and DATA\<close>

definition marshalOffset :: "int \<Rightarrow> byte list" where
  "marshalOffset v = le32 [] (word_of_int v)"

definition parseOffset :: "byte list \<Rightarrow> int result" where
  "parseOffset p = (if length p < 4 then Inl errBadPayload else Inr (sint (readLE32 p 0)))"

definition marshalData :: "int \<Rightarrow> byte list \<Rightarrow> byte list" where
  "marshalData offset data = le32 [] (word_of_int offset) @ data"

definition parseData :: "byte list \<Rightarrow> (int \<times> byte list) result" where
  "parseData p =
     (if length p < dataOffsetPrefix then Inl errBadPayload
      else Inr (sint (readLE32 p 0), drop dataOffsetPrefix p))"

subsection \<open>RPOS\<close>

record rposPkt =
  rp_offset :: int
  rp_blocksize :: int
  rp_id :: u32

definition marshalRpos :: "rposPkt \<Rightarrow> byte list" where
  "marshalRpos r = le32 (le32 (le32 [] (word_of_int (rp_offset r))) (word_of_int (rp_blocksize r))) (rp_id r)"

definition parseRpos :: "byte list \<Rightarrow> rposPkt result" where
  "parseRpos p =
     (if length p = 12 then
        Inr \<lparr>rp_offset = sint (readLE32 p 0), rp_blocksize = uint (readLE32 p 4), rp_id = readLE32 p 8\<rparr>
      else if length p = 10 then
        Inr \<lparr>rp_offset = sint (readLE32 p 0),
             rp_blocksize = uint (ucast (p ! 4) OR push_bit 8 (ucast (p ! 5)) :: u16),
             rp_id = readLE32 p 6\<rparr>
      else Inl (ErrWrap errBadPayload))"

subsection \<open>INIT\<close>

record initPkt =
  ip_appID :: gostring
  ip_supported :: u32
  ip_desired :: u32
  ip_txWindow :: u32
  ip_rxWindow :: u32
  ip_prefix :: gostring

text \<open>The verb \<open>%08x\<close> of a \<open>uint32\<close>: exactly eight lower-case digits.\<close>

definition fmt_08x :: "u32 \<Rightarrow> gostring" where
  "fmt_08x w = map (\<lambda>i. hexdigit ! unat (drop_bit (4 * i) w AND 0x0F)) [7, 6, 5, 4, 3, 2, 1, 0]"

text \<open>
  One \<open>%08x\<close> of \<open>fmt.Sscanf\<close> into a \<open>uint32\<close>, on the runes of the input: skip white
  space (a newline is an error), then at least one and at most eight hexadecimal digits.
\<close>

fun scan_skip_space :: "nat list \<Rightarrow> nat list option" where
  "scan_skip_space [] = Some []"
| "scan_skip_space (r # rs) =
     (if r = 0x0D \<and> (case rs of r' # _ \<Rightarrow> r' = 0x0A | [] \<Rightarrow> False) then scan_skip_space rs
      else if r = 0x0A then None
      else if rune_space r then scan_skip_space rs
      else Some (r # rs))"

definition rune_hex :: "nat \<Rightarrow> nat option" where
  "rune_hex r =
     (if 0x30 \<le> r \<and> r \<le> 0x39 then Some (r - 0x30)
      else if 0x61 \<le> r \<and> r \<le> 0x66 then Some (r - 0x61 + 10)
      else if 0x41 \<le> r \<and> r \<le> 0x46 then Some (r - 0x41 + 10)
      else None)"

fun scan_digits :: "nat \<Rightarrow> nat \<Rightarrow> nat list \<Rightarrow> nat \<times> nat list" where
  "scan_digits 0 acc rs = (acc, rs)"
| "scan_digits (Suc n) acc [] = (acc, [])"
| "scan_digits (Suc n) acc (r # rs) =
     (case rune_hex r of None \<Rightarrow> (acc, r # rs) | Some d \<Rightarrow> scan_digits n (16 * acc + d) rs)"

definition scan_08x :: "nat list \<Rightarrow> (u32 \<times> nat list) option" where
  "scan_08x rs =
     (case scan_skip_space rs of
        Some (r # rs') \<Rightarrow>
          (case rune_hex r of
             None \<Rightarrow> None
           | Some _ \<Rightarrow> (case scan_digits 8 0 (r # rs') of (v, rest) \<Rightarrow> Some (of_nat v, rest)))
      | _ \<Rightarrow> None)"

definition marshalInit :: "initPkt \<Rightarrow> byte list" where
  "marshalInit p =
     ip_appID p @ [0] @ capsString (ip_supported p) @ [0] @ capsString (ip_desired p) @ [0]
     @ fmt_08x (ip_txWindow p) @ fmt_08x (ip_rxWindow p) @ [0] @ ip_prefix p @ [0]"

definition init_field :: "gostring list \<Rightarrow> nat \<Rightarrow> gostring" where
  \<comment> \<open>the closure \<open>get\<close>: a missing trailing field is empty\<close>
  "init_field flds i = (if i < length flds then flds ! i else [])"

definition parseInit :: "byte list \<Rightarrow> initPkt result" where
  "parseInit p =
     (let flds = split_on 0 p in
      if length flds < 2 then Inl errBadInit
      else
        (let w = init_field flds 3;
             windows = (if length w \<ge> 16 then
                 (case scan_08x (utf8_runes (take 16 w)) of
                    None \<Rightarrow> None
                  | Some (tx, rest) \<Rightarrow>
                      (case scan_08x rest of None \<Rightarrow> None | Some (rx, _) \<Rightarrow> Some (tx, rx)))
               else Some (0, 0))
         in (case windows of
               None \<Rightarrow> Inl (ErrWrap errBadInit)
             | Some (tx, rx) \<Rightarrow>
                 Inr \<lparr>ip_appID = init_field flds 0,
                      ip_supported = parseCaps (init_field flds 1),
                      ip_desired = parseCaps (init_field flds 2),
                      ip_txWindow = tx, ip_rxWindow = rx,
                      ip_prefix = init_field flds 4\<rparr>)))"

subsection \<open>Device channel\<close>

record devDataPkt =
  dd_id :: u32
  dd_device :: gostring
  dd_payload :: "byte list"

text \<open>\<open>cutNul\<close> of \<open>fileinfo.go\<close>: the bytes before and after the first NUL.\<close>

fun cutNul :: "byte list \<Rightarrow> (byte list \<times> byte list) option" where
  "cutNul [] = None"
| "cutNul (c # cs) = (if c = 0 then Some ([], cs)
     else (case cutNul cs of None \<Rightarrow> None | Some (before, after) \<Rightarrow> Some (c # before, after)))"

definition marshalDevData :: "devDataPkt \<Rightarrow> byte list" where
  "marshalDevData d = le32 [] (dd_id d) @ dd_device d @ [0] @ dd_payload d"

definition parseDevData :: "byte list \<Rightarrow> devDataPkt result" where
  "parseDevData p =
     (if length p < 5 then Inl errBadPayload
      else (case cutNul (drop 4 p) of
              None \<Rightarrow> Inl (ErrWrap errBadPayload)
            | Some (name, rest) \<Rightarrow> Inr \<lparr>dd_id = readLE32 p 0, dd_device = name, dd_payload = rest\<rparr>))"

definition marshalDevAck :: "u32 \<Rightarrow> byte list" where
  "marshalDevAck i = le32 [] i"

definition parseDevAck :: "byte list \<Rightarrow> u32 result" where
  "parseDevAck p = (if length p < 4 then Inl errBadPayload else Inr (readLE32 p 0))"

subsection \<open>Little-endian round trip\<close>

lemma le32_append: "le32 out v = out @ le32 [] v"
  by (simp add: le32_def)

lemma length_le32 [simp]: "length (le32 out v) = length out + 4"
  by (simp add: le32_def)

lemma readLE32_le32 [simp]: "readLE32 (le32 [] v @ rest) 0 = v"
proof -
  have "readLE32 (le32 [] v @ rest) 0 = ucast (ucast v :: byte) OR push_bit 8 (ucast (ucast (drop_bit 8 v) :: byte))
     OR push_bit 16 (ucast (ucast (drop_bit 16 v) :: byte)) OR push_bit 24 (ucast (ucast (drop_bit 24 v) :: byte))"
    by (simp add: readLE32_def le32_def)
  also have "\<dots> = v"
  proof (rule bit_word_eqI)
    fix n
    assume "n < LENGTH(32)"
    then have "n < 8 \<or> 8 \<le> n \<and> n < 16 \<or> 16 \<le> n \<and> n < 24 \<or> 24 \<le> n \<and> n < 32" by auto
    then show "bit (ucast (ucast v :: byte) OR push_bit 8 (ucast (ucast (drop_bit 8 v) :: byte))
      OR push_bit 16 (ucast (ucast (drop_bit 16 v) :: byte))
      OR push_bit 24 (ucast (ucast (drop_bit 24 v) :: byte)) :: u32) n = bit v n"
      by (elim disjE) (auto simp: bit_simps)
  qed
  finally show ?thesis .
qed

lemma readLE32_le32_nil [simp]: "readLE32 (le32 [] v) 0 = v"
  using readLE32_le32 [of v "[]"] by simp

lemma readLE32_skip: "length xs = n \<Longrightarrow> readLE32 (xs @ ys) (n + k) = readLE32 ys k"
  by (simp add: readLE32_def nth_append)

text \<open>A signed 32-bit value survives the conversion to the wire and back.\<close>

definition fits_int32 :: "int \<Rightarrow> bool" where
  "fits_int32 v \<longleftrightarrow> - (2 ^ 31) \<le> v \<and> v < 2 ^ 31"

lemma sint_word_of_int32: "fits_int32 v \<Longrightarrow> sint (word_of_int v :: u32) = v"
  by (simp add: fits_int32_def signed_of_int signed_take_bit_int_eq_self)

subsection \<open>Round trips of the fixed layouts\<close>

lemma parseOffset_marshal [simp]: "fits_int32 v \<Longrightarrow> parseOffset (marshalOffset v) = Inr v"
  by (simp add: parseOffset_def marshalOffset_def sint_word_of_int32)

lemma length_marshalOffset [simp]: "length (marshalOffset v) = 4"
  by (simp add: marshalOffset_def)

lemma parseData_marshal [simp]: "fits_int32 off \<Longrightarrow> parseData (marshalData off data) = Inr (off, data)"
  by (simp add: parseData_def marshalData_def sint_word_of_int32)

lemma length_marshalData [simp]: "length (marshalData off data) = length data + 4"
  by (simp add: marshalData_def)

definition rpos_in_range :: "rposPkt \<Rightarrow> bool" where
  "rpos_in_range r \<longleftrightarrow> fits_int32 (rp_offset r) \<and> 0 \<le> rp_blocksize r \<and> rp_blocksize r < 2 ^ 32"

lemma marshalRpos_eq: "marshalRpos r = le32 [] (word_of_int (rp_offset r))
    @ le32 [] (word_of_int (rp_blocksize r)) @ le32 [] (rp_id r)"
  unfolding marshalRpos_def
  by (simp add: le32_append [of "le32 [] (word_of_int (rp_offset r))"]
      le32_append [of "le32 [] (word_of_int (rp_offset r)) @ le32 [] (word_of_int (rp_blocksize r))"])

lemma length_marshalRpos [simp]: "length (marshalRpos r) = 12"
  by (simp add: marshalRpos_eq)

lemma parseRpos_marshal:
  assumes "rpos_in_range r"
  shows "parseRpos (marshalRpos r) = Inr r"
proof -
  have "uint (word_of_int (rp_blocksize r) :: u32) = rp_blocksize r"
    using assms by (simp add: rpos_in_range_def uint_word_of_int_eq take_bit_int_eq_self)
  moreover have "readLE32 (marshalRpos r) 4 = word_of_int (rp_blocksize r)"
    using readLE32_skip [of "le32 [] (word_of_int (rp_offset r))" 4
        "le32 [] (word_of_int (rp_blocksize r)) @ le32 [] (rp_id r)" 0]
    by (simp add: marshalRpos_eq)
  moreover have "readLE32 (marshalRpos r) 8 = rp_id r"
    using readLE32_skip [of "le32 [] (word_of_int (rp_offset r)) @ le32 [] (word_of_int (rp_blocksize r))" 8
        "le32 [] (rp_id r)" 0]
    by (simp add: marshalRpos_eq)
  moreover have "readLE32 (marshalRpos r) 0 = word_of_int (rp_offset r)"
    by (simp add: marshalRpos_eq)
  ultimately show ?thesis
    using assms by (simp add: parseRpos_def rpos_in_range_def sint_word_of_int32)
qed

text \<open>The 10-byte form with a 16-bit block size, which other implementations send.\<close>

definition rpos_word_form :: "int \<Rightarrow> u16 \<Rightarrow> u32 \<Rightarrow> byte list" where
  "rpos_word_form off blk i = le32 [] (word_of_int off) @ [ucast blk, ucast (drop_bit 8 blk)] @ le32 [] i"

lemma parseRpos_word_form:
  assumes "fits_int32 off"
  shows "parseRpos (rpos_word_form off blk i) =
    Inr \<lparr>rp_offset = off, rp_blocksize = uint blk, rp_id = i\<rparr>"
proof -
  have "readLE32 (rpos_word_form off blk i) 6 = i"
    using readLE32_skip [of "le32 [] (word_of_int off) @ [ucast blk, ucast (drop_bit 8 blk)]" 6 "le32 [] i" 0]
    by (simp add: rpos_word_form_def)
  moreover have "(ucast (rpos_word_form off blk i ! 4) OR push_bit 8 (ucast (rpos_word_form off blk i ! 5)) :: u16) = blk"
  proof -
    have "rpos_word_form off blk i ! 4 = ucast blk" "rpos_word_form off blk i ! 5 = ucast (drop_bit 8 blk)"
      by (simp_all add: rpos_word_form_def le32_def)
    then show ?thesis by simp (rule bit_word_eqI, auto simp: bit_simps)
  qed
  ultimately show ?thesis
    using assms by (simp add: parseRpos_def rpos_word_form_def sint_word_of_int32)
qed

lemma cutNul_append [simp]: "0 \<notin> set xs \<Longrightarrow> cutNul (xs @ 0 # ys) = Some (xs, ys)"
  by (induction xs) auto

lemma parseDevData_marshal [simp]:
  "0 \<notin> set (dd_device d) \<Longrightarrow> parseDevData (marshalDevData d) = Inr d"
  by (simp add: parseDevData_def marshalDevData_def)

lemma parseDevAck_marshal [simp]: "parseDevAck (marshalDevAck i) = Inr i"
  by (simp add: parseDevAck_def marshalDevAck_def)

subsection \<open>Eight hexadecimal digits\<close>

lemma hexdigit_range: "n < 16 \<Longrightarrow> hexdigit ! n < 0x80 \<and> hexdigit ! n \<noteq> 0 \<and> rune_hex (unat (hexdigit ! n)) = Some n"
proof -
  assume "n < 16"
  have "n \<in> {0, 1, 2, 3, 4, 5, 6, 7, 8, 9, 10, 11, 12, 13, 14, 15}"
    using \<open>n < 16\<close> by (rule digit_values)
  then show ?thesis by (elim insertE emptyE) (simp_all add: hexdigit_def rune_hex_def)
qed

lemma nibble_of_u32: "unat (drop_bit k w AND 0x0F :: u32) = unat w div 2 ^ k mod 16"
proof -
  have "(0x0F::u32) = mask 4" by (simp add: mask_eq_exp_minus_1)
  then have "unat (drop_bit k w AND 0x0F) = unat (take_bit 4 (drop_bit k w))"
    by (simp add: take_bit_eq_mask)
  also have "\<dots> = take_bit 4 (drop_bit k (unat w))"
    using unat_lt2p_u32 [of w]
    by (simp add: unsigned_take_bit_eq unsigned_drop_bit_eq take_bit_nat_eq_self)
  also have "\<dots> = unat w div 2 ^ k mod 16"
    by (simp only: take_bit_eq_mod drop_bit_eq_div) simp
  finally show ?thesis .
qed

lemma length_fmt_08x [simp]: "length (fmt_08x w) = 8"
  by (simp add: fmt_08x_def)

lemma fmt_08x_bytes: "b \<in> set (fmt_08x w) \<Longrightarrow> b < 0x80 \<and> b \<noteq> 0"
  using hexdigit_range by (auto simp: fmt_08x_def nibble_of_u32)

lemma utf8_runes_ascii: "\<forall>b \<in> set bs. b < 0x80 \<Longrightarrow> utf8_runes (bs @ cs) = map unat bs @ utf8_runes cs"
  by (induction bs) auto

lemma utf8_runes_fmt: "utf8_runes (fmt_08x w @ cs) = map unat (fmt_08x w) @ utf8_runes cs"
  using fmt_08x_bytes by (intro utf8_runes_ascii) blast

lemma scan_digits_map:
  assumes "\<forall>i \<in> set is. f i < 16"
  shows "scan_digits (length is) acc (map (\<lambda>i. unat (hexdigit ! f i)) is @ rest)
    = (foldl (\<lambda>a i. 16 * a + f i) acc is, rest)"
  using assms by (induction "is" arbitrary: acc) (simp_all add: hexdigit_range)

lemma scan_08x_fmt: "scan_08x (map unat (fmt_08x w) @ rest) = Some (w, rest)"
proof -
  let ?d = "\<lambda>k. unat w div 2 ^ k mod 16"
  have dig: "rune_hex (unat (hexdigit ! ?d k)) = Some (?d k)" for k
    using hexdigit_range [of "?d k"] by simp
  have start: "rune_space r = False \<and> r \<noteq> 0x0D \<and> r \<noteq> 0x0A" if "rune_hex r = Some d" for r d
    using that by (auto simp: rune_hex_def rune_space_def split: if_splits)
  have step: "16 * (x div 2 ^ (k + 4)) + x div 2 ^ k mod 16 = x div 2 ^ k" for x k :: nat
  proof -
    have "x div 2 ^ (k + 4) = x div 2 ^ k div 16"
      by (simp add: power_add div_mult2_eq)
    then show ?thesis by simp
  qed
  from unat_lt2p_u32 [of w] have top: "?d 28 = unat w div 2 ^ 28" by simp
  have "16 * (16 * (16 * (16 * (16 * (16 * (16 * ?d 28 + ?d 24) + ?d 20) + ?d 16) + ?d 12) + ?d 8) + ?d 4) + ?d 0 = unat w"
    unfolding top using step [of "unat w" 24] step [of "unat w" 20] step [of "unat w" 16]
      step [of "unat w" 12] step [of "unat w" 8] step [of "unat w" 4] step [of "unat w" 0] by simp
  then have horner: "foldl (\<lambda>a i. 16 * a + ?d (4 * i)) 0 [7, 6, 5, 4, 3, 2, 1, 0] = unat w"
    by simp
  have digits: "map unat (fmt_08x w) = map (\<lambda>i. unat (hexdigit ! ?d (4 * i))) [7, 6, 5, 4, 3, 2, 1, 0]"
    by (simp add: fmt_08x_def nibble_of_u32)
  have eight: "length [7, 6, 5, 4, 3, 2, 1, 0 :: nat] = 8" by simp
  have scanned: "scan_digits 8 0 (map unat (fmt_08x w) @ rest) = (unat w, rest)"
    using scan_digits_map [of "[7, 6, 5, 4, 3, 2, 1, 0]" "\<lambda>i. ?d (4 * i)" 0 rest]
    unfolding digits horner eight by simp
  obtain r rs where rs: "map unat (fmt_08x w) @ rest = r # rs" and hex: "rune_hex r = Some (?d 28)"
    using dig [of 28] unfolding digits by simp
  then have "scan_skip_space (r # rs) = Some (r # rs)"
    using start [OF hex] by simp
  with rs hex scanned show ?thesis
    by (simp add: scan_08x_def)
qed

subsection \<open>INIT round trip\<close>

lemma set_join_on: "b \<in> set (join_on s xs) \<Longrightarrow> b = s \<or> (\<exists>x \<in> set xs. b \<in> set x)"
  by (induction s xs rule: join_on.induct) auto

lemma capOrder_ascii: "e \<in> set capOrder \<Longrightarrow> b \<in> set (snd e) \<Longrightarrow> b < 0x80 \<and> b \<noteq> 0"
  by (auto simp: capOrder_def)

lemma capsString_bytes: "b \<in> set (capsString caps) \<Longrightarrow> b < 0x80 \<and> b \<noteq> 0"
  unfolding capsString_join using capOrder_ascii by (fastforce dest!: set_join_on)

lemma marshalInit_split:
  assumes "0 \<notin> set (ip_appID p)" and "0 \<notin> set (ip_prefix p)"
  shows "split_on 0 (marshalInit p) =
    [ip_appID p, capsString (ip_supported p), capsString (ip_desired p),
     fmt_08x (ip_txWindow p) @ fmt_08x (ip_rxWindow p), ip_prefix p, []]"
proof -
  have "0 \<notin> set (capsString c)" for c using capsString_bytes [of 0 c] by auto
  moreover have "0 \<notin> set (fmt_08x u @ fmt_08x v)" for u v
    using fmt_08x_bytes [of 0 u] fmt_08x_bytes [of 0 v] by auto
  ultimately show ?thesis
    using assms by (simp add: marshalInit_def del: set_append flip: append_assoc)
qed

lemma parseInit_marshal:
  assumes "0 \<notin> set (ip_appID p)" and "0 \<notin> set (ip_prefix p)"
  shows "parseInit (marshalInit p) =
    Inr (p\<lparr>ip_supported := ip_supported p AND 0x7FF, ip_desired := ip_desired p AND 0x7FF\<rparr>)"
  using utf8_runes_fmt [of "ip_rxWindow p" "[]"] scan_08x_fmt [of "ip_rxWindow p" "[]"]
  by (simp add: parseInit_def marshalInit_split [OF assms] init_field_def parse_caps_string
      utf8_runes_fmt scan_08x_fmt)

subsection \<open>The properties\<close>

text \<open>
  RPOS round trip: the 12-byte form the sender writes is read back exactly,
  and the 10-byte form of other implementations is read with its 16-bit block size.
\<close>

theorem rpos_roundtrip:
  assumes "rpos_in_range r" and "fits_int32 off"
  shows "parseRpos (marshalRpos r) = Inr r
    \<and> parseRpos (rpos_word_form off blk i) = Inr \<lparr>rp_offset = off, rp_blocksize = uint blk, rp_id = i\<rparr>"
  using assms by (simp add: parseRpos_marshal parseRpos_word_form)

theorem rpos_roundtrip_witness:
  "parseRpos (marshalRpos \<lparr>rp_offset = - 2, rp_blocksize = 0, rp_id = 7\<rparr>)
     = Inr \<lparr>rp_offset = - 2, rp_blocksize = 0, rp_id = 7\<rparr>
   \<and> parseRpos (rpos_word_form 4096 512 1) = Inr \<lparr>rp_offset = 4096, rp_blocksize = uint (512::u16), rp_id = 1\<rparr>"
  by (rule rpos_roundtrip) (simp_all add: rpos_in_range_def fits_int32_def)

text \<open>
  Property C32. INIT round trip: the receiver reads back the identification, both windows
  and the prefix, and both capability sets restricted to the eleven named capabilities.
\<close>

theorem init_roundtrip:
  assumes "0 \<notin> set (ip_appID p)" and "0 \<notin> set (ip_prefix p)"
  shows "parseInit (marshalInit p) =
    Inr (p\<lparr>ip_supported := ip_supported p AND 0x7FF, ip_desired := ip_desired p AND 0x7FF\<rparr>)"
  by (rule parseInit_marshal [OF assms])

theorem init_roundtrip_witness:
  "parseInit (marshalInit \<lparr>ip_appID = str ''app'', ip_supported = 0x71F, ip_desired = 0x400,
      ip_txWindow = 0, ip_rxWindow = 8192, ip_prefix = []\<rparr>)
   = Inr \<lparr>ip_appID = str ''app'', ip_supported = 0x71F, ip_desired = 0x400,
      ip_txWindow = 0, ip_rxWindow = 8192, ip_prefix = []\<rparr>"
  using init_roundtrip [of "\<lparr>ip_appID = str ''app'', ip_supported = 0x71F, ip_desired = 0x400,
      ip_txWindow = 0, ip_rxWindow = 8192, ip_prefix = []\<rparr>"] by simp

text \<open>
  Device-channel round trip: a datagram whose tag holds no NUL, and its
  acknowledgement, are read back exactly; the payload may hold any bytes.
\<close>

theorem device_roundtrip:
  assumes "0 \<notin> set (dd_device d)"
  shows "parseDevData (marshalDevData d) = Inr d \<and> parseDevAck (marshalDevAck (dd_id d)) = Inr (dd_id d)"
  using assms by simp

theorem device_roundtrip_witness:
  "parseDevData (marshalDevData \<lparr>dd_id = 1, dd_device = str ''CON'', dd_payload = [0, 1, 0]\<rparr>)
     = Inr \<lparr>dd_id = 1, dd_device = str ''CON'', dd_payload = [0, 1, 0]\<rparr>
   \<and> parseDevAck (marshalDevAck 1) = Inr 1"
  using device_roundtrip [of "\<lparr>dd_id = 1, dd_device = str ''CON'', dd_payload = [0, 1, 0]\<rparr>"] by simp

end
