(* ===== verification/Hydra_Writer.thy ===== *)
theory Hydra_Writer
  imports Hydra_Crc Hydra_Packet
begin

unbundle bit_operations_syntax

section \<open>The transmit half of the wire format (writer.go)\<close>

text \<open>
  \<open>writePacket\<close> builds one frame in a buffer and hands it to the transport in a single write
  under the writer's mutex, so a frame is a byte list here and its transmission is one
  event of the session model (theory \<open>Hydra_Batch\<close>). The escaper is reset at the start of
  every frame, so no escaper state crosses frames.
\<close>

definition selectFormat :: "byte \<Rightarrow> u32 \<Rightarrow> byte" where
  "selectFormat t opts =
     (if t = pktSTART \<or> t = pktINIT \<or> t = pktINITACK \<or> t = pktEND \<or> t = pktIDLE then fmtHEX
      else if has opts capHI8 then
        (if has opts capCTL \<and> has opts capUUE then fmtUUE
         else if has opts capASC then fmtASC
         else fmtHEX)
      else fmtBIN)"

definition crc_bytes :: "byte \<Rightarrow> u32 \<Rightarrow> byte list \<Rightarrow> byte list" where
  \<comment> \<open>the complement of the running checksum, low byte first\<close>
  "crc_bytes format opts body =
     (if format \<noteq> fmtHEX \<and> has opts capC32 then
        (let crc = NOT (crc32Compute body)
         in [ucast crc, ucast (drop_bit 8 crc), ucast (drop_bit 16 crc), ucast (drop_bit 24 crc)])
      else
        (let crc = NOT (crc16Compute body) in [ucast crc, ucast (drop_bit 8 crc)]))"

definition frame_body :: "byte \<Rightarrow> byte list \<Rightarrow> u32 \<Rightarrow> byte list" where
  "frame_body t p opts = (p @ [t]) @ crc_bytes (selectFormat t opts) opts (p @ [t])"

definition wire_prefix :: "gostring \<Rightarrow> byte list" where
  \<comment> \<open>the prefix string: 221 and 222 are skipped, 223 stands for NUL\<close>
  "wire_prefix prefix = concat (map (\<lambda>c. if c = 221 \<or> c = 222 then [] else if c = 223 then [0] else [c]) prefix)"

definition encode_body :: "byte \<Rightarrow> u32 \<Rightarrow> byte list \<Rightarrow> byte list \<Rightarrow> byte list" where
  "encode_body format opts out body =
     (if format = fmtBIN then fst (esc_putAll (esc_reset opts) out body)
      else if format = fmtHEX then hexEncodeBody out body
      else if format = fmtASC then fst (ascEncodeBody out body (esc_reset opts))
      else if format = fmtUUE then uueEncodeBody out body
      else out)"

definition writePacket :: "byte \<Rightarrow> byte list \<Rightarrow> u32 \<Rightarrow> gostring \<Rightarrow> byte list" where
  "writePacket t p opts prefix =
     (let format = selectFormat t opts;
          out = wire_prefix prefix @ [DLE, format];
          out = encode_body format opts out (frame_body t p opts);
          out = out @ [DLE, fmtEnd]
      in if t \<noteq> pktDATA \<and> format \<noteq> fmtBIN then out @ [charCR, charLF] else out)"

definition writeCancel :: "byte list" where
  "writeCancel = replicate cancelCount DLE @ replicate cancelPadCount charBS"

subsection \<open>The parts of a frame\<close>

lemma selectFormat_cases: "selectFormat t opts \<in> {fmtBIN, fmtHEX, fmtASC, fmtUUE}"
  by (simp add: selectFormat_def)

lemma selectFormat_BIN: "selectFormat t opts = fmtBIN \<Longrightarrow> \<not> has opts capHI8"
  by (auto simp: selectFormat_def split: if_splits)

definition coded :: "byte \<Rightarrow> u32 \<Rightarrow> byte list \<Rightarrow> byte list" where
  \<comment> \<open>the encoded body by itself\<close>
  "coded format opts body =
     (if format = fmtBIN then esc_wire opts 0 body
      else if format = fmtHEX then concat (map hex_wire body)
      else if format = fmtASC then esc_wire opts 0 (asc_units 0 0 body)
      else if format = fmtUUE then uue_units body
      else [])"

lemma encode_body_coded: "encode_body format opts out body = out @ coded format opts body"
  by (simp add: encode_body_def coded_def esc_putAll_wire esc_reset_def hexEncodeBody_wire
      ascEncodeBody_units uueEncodeBody_units)

definition frame_trailer :: "byte \<Rightarrow> u32 \<Rightarrow> byte list" where
  "frame_trailer t opts =
     (if t \<noteq> pktDATA \<and> selectFormat t opts \<noteq> fmtBIN then [charCR, charLF] else [])"

lemma writePacket_parts:
  "writePacket t p opts prefix =
     wire_prefix prefix @ [DLE, selectFormat t opts]
     @ coded (selectFormat t opts) opts (frame_body t p opts) @ [DLE, fmtEnd] @ frame_trailer t opts"
  by (simp add: writePacket_def encode_body_coded frame_trailer_def Let_def)

subsection \<open>The checksum of a written body\<close>

text \<open>The magic-value test of the receiver accepts every body the writer builds.\<close>

lemma le_pack_bytes16: "le_pack [ucast c, ucast (drop_bit 8 c)] = (c::u16)"
proof (rule bit_word_eqI)
  fix n
  assume "n < LENGTH(16)"
  then have "n < 8 \<or> 8 \<le> n \<and> n < 16" by auto
  then show "bit (le_pack [ucast c, ucast (drop_bit 8 c)] :: u16) n = bit c n"
    by (elim disjE) (auto simp: bit_simps)
qed

lemma le_pack_bytes32:
  "le_pack [ucast c, ucast (drop_bit 8 c), ucast (drop_bit 16 c), ucast (drop_bit 24 c)] = (c::u32)"
proof (rule bit_word_eqI)
  fix n
  assume "n < LENGTH(32)"
  then have "n < 8 \<or> 8 \<le> n \<and> n < 16 \<or> 16 \<le> n \<and> n < 24 \<or> 24 \<le> n \<and> n < 32" by auto
  then show "bit (le_pack [ucast c, ucast (drop_bit 8 c), ucast (drop_bit 16 c), ucast (drop_bit 24 c)] :: u32) n
    = bit c n"
    by (elim disjE) (auto simp: bit_simps)
qed

definition crc_len :: "byte \<Rightarrow> u32 \<Rightarrow> nat" where
  "crc_len format opts = (if format \<noteq> fmtHEX \<and> has opts capC32 then 4 else 2)"

lemma length_crc_bytes: "length (crc_bytes format opts body) = crc_len format opts"
  by (simp add: crc_bytes_def crc_len_def Let_def)

definition crc_good :: "byte \<Rightarrow> u32 \<Rightarrow> byte list \<Rightarrow> bool" where
  \<comment> \<open>the residual test of the receiver\<close>
  "crc_good format opts decoded =
     (if format \<noteq> fmtHEX \<and> has opts capC32 then crc32Compute decoded = crc32Test
      else crc16Compute decoded = crc16Test)"

lemma crc_good_iff:
  assumes "length t = crc_len format opts"
  shows "crc_good format opts (body @ t) \<longleftrightarrow> t = crc_bytes format opts body"
proof (cases "format \<noteq> fmtHEX \<and> has opts capC32")
  case True
  let ?c = "NOT (crc32Compute body)"
  let ?t = "[ucast ?c, ucast (drop_bit 8 ?c), ucast (drop_bit 16 ?c), ucast (drop_bit 24 ?c)]"
  from True assms have len: "length t = 4" by (simp add: crc_len_def)
  then have "crc32Compute (body @ t) = crc32Test \<longleftrightarrow> le_pack t = (le_pack ?t :: u32)"
    unfolding le_pack_bytes32 by (rule crc32_residual)
  also have "\<dots> \<longleftrightarrow> t = ?t"
    using le_pack_inj [where 'w = 32, of t ?t] len by auto
  finally show ?thesis using True by (simp add: crc_good_def crc_bytes_def Let_def)
next
  case False
  let ?c = "NOT (crc16Compute body)"
  let ?t = "[ucast ?c, ucast (drop_bit 8 ?c)]"
  from False assms have len: "length t = 2" by (simp add: crc_len_def)
  then have "crc16Compute (body @ t) = crc16Test \<longleftrightarrow> le_pack t = (le_pack ?t :: u16)"
    unfolding le_pack_bytes16 by (rule crc16_residual)
  also have "\<dots> \<longleftrightarrow> t = ?t"
    using le_pack_inj [where 'w = 16, of t ?t] len by auto
  finally show ?thesis using False by (auto simp: crc_good_def crc_bytes_def Let_def)
qed

lemma crc_good_frame_body: "crc_good (selectFormat t opts) opts (frame_body t p opts)"
  unfolding frame_body_def using crc_good_iff length_crc_bytes by blast

lemma length_frame_body: "length (frame_body t p opts) = length p + 1 + crc_len (selectFormat t opts) opts"
  by (simp add: frame_body_def length_crc_bytes)

lemma crc_len_le: "crc_len format opts \<le> 4"
  by (simp add: crc_len_def)

end
