(* ===== verification/Hydra_Reader.thy ===== *)
theory Hydra_Reader
  imports Hydra_Writer
begin

unbundle bit_operations_syntax

section \<open>The receive half of the wire format (reader.go)\<close>

text \<open>
  The per-byte state machine of \<open>readPacket\<close>. The reader goroutine loads the active option
  set from an atomic before every byte, and \<open>finishPacket\<close> loads it again, so an input item
  carries the byte and the two values the loads return. \<open>readPacket\<close> consumes items until a
  packet, the cancel sequence or the end of the input, where the transport's error is
  returned.
\<close>

record reader =
  rd_dles :: nat
  rd_format :: byte
  rd_inPacket :: bool
  rd_overflow :: bool
  rd_body :: "byte list"
  rd_garbage :: nat

definition newTransportReader :: reader where
  "newTransportReader = \<lparr>rd_dles = 0, rd_format = 0, rd_inPacket = False, rd_overflow = False,
     rd_body = [], rd_garbage = 0\<rparr>"

record rx_item =
  ri_byte :: byte
  ri_opts :: u32
  ri_finOpts :: u32

datatype rd_out = Quiet | Pkt packet | PeerCancel

definition rd_collect :: "byte \<Rightarrow> reader \<Rightarrow> reader" where
  "rd_collect c r =
     (if \<not> rd_inPacket r \<or> rd_overflow r then r
      else if length (rd_body r) \<ge> maxEncodedLen then r\<lparr>rd_overflow := True\<rparr>
      else r\<lparr>rd_body := rd_body r @ [c]\<rparr>)"

definition decode_body :: "byte \<Rightarrow> byte list \<Rightarrow> byte list result" where
  \<comment> \<open>the format switch of \<open>finishPacket\<close>; an unset format leaves \<open>decoded\<close> nil\<close>
  "decode_body format body =
     (if format = fmtBIN then Inr body
      else if format = fmtHEX then hexDecodeBody body
      else if format = fmtASC then Inr (ascDecodeBody body)
      else if format = fmtUUE then uueDecodeBody body
      else Inr [])"

definition check_body :: "byte \<Rightarrow> u32 \<Rightarrow> byte list \<Rightarrow> packet option" where
  \<comment> \<open>length, runt and checksum tests, and the split into type and payload\<close>
  "check_body format opts decoded =
     (let use32 = (format \<noteq> fmtHEX \<and> has opts capC32);
          crcLen = (if use32 then 4 else 2)
      in if length decoded < crcLen + 1 then None
         else if (if use32 then crc32Compute decoded \<noteq> crc32Test else crc16Compute decoded \<noteq> crc16Test)
         then None
         else (let bodyEnd = length decoded - crcLen
               in Some \<lparr>pkt_typ = decoded ! (bodyEnd - 1), pkt_payload = take (bodyEnd - 1) decoded\<rparr>))"

definition finishPacket :: "u32 \<Rightarrow> reader \<Rightarrow> reader \<times> packet option" where
  "finishPacket opts r =
     (if \<not> rd_inPacket r then (r\<lparr>rd_garbage := rd_garbage r + 1\<rparr>, None)
      else
        let overflow = rd_overflow r;
            r' = r\<lparr>rd_inPacket := False, rd_overflow := False\<rparr>
        in if overflow then (r', None)
           else (case decode_body (rd_format r) (rd_body r) of
               Inl _ \<Rightarrow> (r', None)
             | Inr decoded \<Rightarrow>
                 if length decoded > maxDecodedLen then (r', None)
                 else (r', check_body (rd_format r) opts decoded)))"

definition rd_strip :: "u32 \<Rightarrow> byte \<Rightarrow> byte" where
  "rd_strip opts c = (if has opts capHI8 then c AND 0x7F else c)"

definition rd_eaten :: "u32 \<Rightarrow> byte \<Rightarrow> bool" where
  \<comment> \<open>the inbound noise filter\<close>
  "rd_eaten opts n \<longleftrightarrow> n \<noteq> DLE \<and>
     (has opts capXON \<and> (n = charXON \<or> n = charXOF) \<or> has opts capCTL \<and> (n < 32 \<or> n = 127))"

definition rd_step :: "rx_item \<Rightarrow> reader \<Rightarrow> reader \<times> rd_out" where
  "rd_step x r =
     (let opts = ri_opts x;
          c = rd_strip opts (ri_byte x);
          n = esc_mask opts c
      in if rd_eaten opts n then (r, Quiet)
         else if rd_dles r > 0 \<or> c = DLE then
           (if c = DLE then
              (let r = r\<lparr>rd_dles := rd_dles r + 1\<rparr>
               in if rd_dles r \<ge> detectCancelCount then (r\<lparr>rd_dles := 0\<rparr>, PeerCancel) else (r, Quiet))
            else if c = fmtBIN \<or> c = fmtHEX \<or> c = fmtASC \<or> c = fmtUUE then
              (r\<lparr>rd_format := c, rd_body := [], rd_inPacket := True, rd_overflow := False, rd_dles := 0\<rparr>, Quiet)
            else if c = fmtEnd then
              (case finishPacket (ri_finOpts x) r of
                 (r', Some pkt) \<Rightarrow> (r', Pkt pkt) | (r', None) \<Rightarrow> (r', Quiet))
            else ((rd_collect (c XOR 0x40) r)\<lparr>rd_dles := 0\<rparr>, Quiet))
         else if rd_inPacket r then (rd_collect c r, Quiet)
         else (r\<lparr>rd_garbage := rd_garbage r + 1\<rparr>, Quiet))"

fun readPacket :: "err \<Rightarrow> rx_item list \<Rightarrow> reader \<Rightarrow> reader \<times> rx_item list \<times> packet result" where
  "readPacket e [] r = (r, [], Inl e)"
| "readPacket e (x # xs) r =
     (case rd_step x r of
        (r', Quiet) \<Rightarrow> readPacket e xs r'
      | (r', Pkt p) \<Rightarrow> (r', xs, Inr p)
      | (r', PeerCancel) \<Rightarrow> (r', xs, Inl ErrPeerCancel))"

subsection \<open>Feeding a byte sequence under one option set\<close>

definition feed :: "u32 \<Rightarrow> byte list \<Rightarrow> rx_item list" where
  "feed opts bs = map (\<lambda>b. \<lparr>ri_byte = b, ri_opts = opts, ri_finOpts = opts\<rparr>) bs"

lemma feed_simps [simp]:
  "feed opts [] = []"
  "feed opts (b # bs) = \<lparr>ri_byte = b, ri_opts = opts, ri_finOpts = opts\<rparr> # feed opts bs"
  "feed opts (bs @ cs) = feed opts bs @ feed opts cs"
  "length (feed opts bs) = length bs"
  by (simp_all add: feed_def)

text \<open>A stretch of input during which the reader stays quiet.\<close>

fun quiet_run :: "rx_item list \<Rightarrow> reader \<Rightarrow> reader option" where
  "quiet_run [] r = Some r"
| "quiet_run (x # xs) r = (case rd_step x r of (r', Quiet) \<Rightarrow> quiet_run xs r' | _ \<Rightarrow> None)"

lemma quiet_run_append:
  "quiet_run (xs @ ys) r = (case quiet_run xs r of None \<Rightarrow> None | Some r' \<Rightarrow> quiet_run ys r')"
  by (induction xs arbitrary: r) (auto split: rd_out.splits prod.splits)

lemma readPacket_quiet: "quiet_run xs r = Some r' \<Longrightarrow> readPacket e (xs @ ys) r = readPacket e ys r'"
  by (induction xs arbitrary: r) (auto split: rd_out.splits prod.splits)

subsection \<open>Bytes that pass the inbound filter\<close>

lemma take_bit_eq_self_byte: "k < 8 \<Longrightarrow> take_bit k c = c \<longleftrightarrow> unat (c::byte) < 2 ^ k"
  by (simp add: word_unat_eq_iff unsigned_take_bit_eq take_bit_nat_eq_self_iff)

lemma less_80_iff: "c < 0x80 \<longleftrightarrow> \<not> bit (c::byte) 7"
proof -
  have "(c < 0x80) = (take_bit 7 c = c)" by (simp add: take_bit_eq_self_byte word_less_nat_alt)
  also have "\<dots> \<longleftrightarrow> \<not> bit c 7"
  proof
    assume "take_bit 7 c = c"
    then have "bit (take_bit 7 c) 7 = bit c 7" by simp
    then show "\<not> bit c 7" by (simp add: bit_simps)
  next
    assume "\<not> bit c 7"
    then show "take_bit 7 c = c" by (intro byte_eqI) (simp_all add: bit_simps)
  qed
  finally show ?thesis by simp
qed

lemma strip_low [simp]: "c < 0x80 \<Longrightarrow> c AND 0x7F = (c::byte)"
  unfolding less_80_iff seven_bits by (rule byte_eqI) (simp_all add: bit_simps)

lemma xor_40_low: "n < 32 \<Longrightarrow> unat (n XOR 0x40 :: byte) = unat n + 64"
proof -
  assume "n < 32"
  then have "take_bit 5 n = n" by (simp add: take_bit_eq_self_byte word_less_nat_alt)
  then have hi: "bit n k \<Longrightarrow> k < 5" for k by (metis bit_take_bit_iff)
  have "n AND 0x40 = 0"
    using hi [of 6] by (intro byte_eqI) (auto simp: bit_simps)
  then have "n XOR 0x40 = n + 0x40"
    by (metis disjunctive_xor_eq_or disjunctive_add_eq_or)
  with \<open>n < 32\<close> show ?thesis
    by (simp add: word_less_nat_alt unat_word_ariths)
qed

lemma esc_mask_xor_40: "esc_mask opts (c XOR 0x40) = esc_mask opts c XOR 0x40"
  unfolding esc_mask_def seven_bits by (auto intro!: byte_eqI simp: bit_simps)

lemma esc_mask_low [simp]: "c < 0x80 \<Longrightarrow> esc_mask opts c = c"
  by (simp add: esc_mask_def)

lemma xor_40_range: "n < 32 \<or> n = 127 \<Longrightarrow> 0x3F \<le> (n XOR 0x40 :: byte) \<and> n XOR 0x40 \<le> 0x5F"
  using xor_40_low [of n] by (auto simp: word_le_nat_alt word_less_nat_alt)

definition frame_special :: "byte \<Rightarrow> bool" where
  \<comment> \<open>the bytes with a meaning of their own after a DLE\<close>
  "frame_special d \<longleftrightarrow> d \<in> {DLE, fmtEnd, fmtBIN, fmtHEX, fmtASC, fmtUUE}"

definition passes :: "u32 \<Rightarrow> byte \<Rightarrow> bool" where
  "passes opts c \<longleftrightarrow> (has opts capHI8 \<longrightarrow> c < 0x80) \<and> \<not> rd_eaten opts (esc_mask opts c)"

lemma passes_strip [simp]: "passes opts c \<Longrightarrow> rd_strip opts c = c"
  by (auto simp: passes_def rd_strip_def)

lemma passes_printable: "0x20 \<le> c \<Longrightarrow> c < 0x7F \<Longrightarrow> passes opts c"
  by (auto simp: passes_def rd_eaten_def word_le_nat_alt word_less_nat_alt)

lemma passes_plain:
  assumes "\<not> esc_needed opts l (esc_mask opts c)" and "has opts capHI8 \<Longrightarrow> c < 0x80"
  shows "passes opts c \<and> c \<noteq> DLE"
  using assms by (auto simp: passes_def rd_eaten_def esc_needed_def)

lemma passes_escaped:
  assumes "esc_needed opts l (esc_mask opts c)" and "has opts capHI8 \<Longrightarrow> c < 0x80"
  shows "passes opts (c XOR 0x40) \<and> \<not> frame_special (c XOR 0x40)"
proof -
  let ?n = "esc_mask opts c"
  from assms(1) have "?n < 32 \<or> ?n = 127" by (auto simp: esc_needed_def)
  then have rng: "0x3F \<le> esc_mask opts (c XOR 0x40) \<and> esc_mask opts (c XOR 0x40) \<le> 0x5F"
    unfolding esc_mask_xor_40 by (rule xor_40_range)
  then have "\<not> rd_eaten opts (esc_mask opts (c XOR 0x40))"
    by (auto simp: rd_eaten_def word_le_nat_alt word_less_nat_alt)
  moreover have "\<not> frame_special (c XOR 0x40)"
    using rng by (auto simp: frame_special_def word_le_nat_alt)
  moreover have "has opts capHI8 \<Longrightarrow> c XOR 0x40 < 0x80"
    using assms(2) by (simp add: less_80_iff bit_simps)
  ultimately show ?thesis by (simp add: passes_def)
qed

lemma rd_eaten_DLE [simp]: "\<not> rd_eaten opts 0x18"
  by (simp add: rd_eaten_def)

lemma rd_eaten_fmtEnd [simp]: "\<not> rd_eaten opts 0x61"
  by (simp add: rd_eaten_def)

lemma passes_DLE: "passes opts DLE"
  by (auto simp: passes_def rd_eaten_def)

lemma passes_special: "frame_special c \<Longrightarrow> passes opts c"
  using passes_DLE passes_printable by (auto simp: frame_special_def)

subsection \<open>Collecting a body\<close>

text \<open>
  A unit is what one collected byte looks like on the wire: the byte itself, or DLE and the
  byte with bit 6 flipped.
\<close>

definition unit_ok :: "u32 \<Rightarrow> byte list \<times> byte \<Rightarrow> bool" where
  "unit_ok opts u \<longleftrightarrow>
     (fst u = [snd u] \<and> passes opts (snd u) \<and> snd u \<noteq> DLE)
     \<or> (fst u = [DLE, snd u XOR 0x40] \<and> passes opts (snd u XOR 0x40) \<and> \<not> frame_special (snd u XOR 0x40))"

definition collecting :: "byte \<Rightarrow> byte list \<Rightarrow> reader \<Rightarrow> bool" where
  "collecting format body r \<longleftrightarrow> rd_inPacket r \<and> \<not> rd_overflow r \<and> rd_dles r = 0
     \<and> rd_format r = format \<and> rd_body r = body"

lemma collect_unit:
  assumes "unit_ok opts u" and "collecting format body r" and "length body < maxEncodedLen"
  shows "\<exists>r'. quiet_run (feed opts (fst u)) r = Some r' \<and> collecting format (body @ [snd u]) r'"
proof -
  from assms(1) consider (plain) "fst u = [snd u]" "passes opts (snd u)" "snd u \<noteq> DLE"
    | (esc) "fst u = [DLE, snd u XOR 0x40]" "passes opts (snd u XOR 0x40)" "\<not> frame_special (snd u XOR 0x40)"
    by (auto simp: unit_ok_def)
  then show ?thesis
  proof cases
    case plain
    then show ?thesis
      using assms(2,3)
      by (simp add: rd_step_def Let_def passes_def [THEN iffD1, THEN conjunct2] collecting_def rd_collect_def
          del: DLE_def)
  next
    case esc
    have twice: "(c XOR 0x40) XOR 0x40 = c" for c :: byte by (simp add: xor.assoc)
    from esc show ?thesis
      using assms(2,3) passes_DLE [of opts]
      by (auto simp: rd_step_def Let_def passes_def [THEN iffD1, THEN conjunct2] collecting_def rd_collect_def
          frame_special_def twice)
  qed
qed

lemma collect_units:
  assumes "\<forall>u \<in> set us. unit_ok opts u" and "collecting format body r"
    and "length body + length us \<le> maxEncodedLen"
  shows "\<exists>r'. quiet_run (feed opts (concat (map fst us))) r = Some r' \<and> collecting format (body @ map snd us) r'"
  using assms
proof (induction us arbitrary: body r)
  case (Cons u us)
  then obtain r1 where r1: "quiet_run (feed opts (fst u)) r = Some r1" "collecting format (body @ [snd u]) r1"
    using collect_unit [of opts u format body r] by auto
  with Cons obtain r2 where "quiet_run (feed opts (concat (map fst us))) r1 = Some r2"
    "collecting format (body @ snd u # map snd us) r2"
    using Cons.IH [of "body @ [snd u]" r1] by auto
  with r1 show ?case by (simp add: quiet_run_append)
qed simp

subsection \<open>The units of the four encodings\<close>

definition plain_units :: "byte list \<Rightarrow> (byte list \<times> byte) list" where
  "plain_units ys = map (\<lambda>y. ([y], y)) ys"

lemma plain_units_simps [simp]:
  "concat (map fst (plain_units ys)) = ys" "map snd (plain_units ys) = ys"
  by (induction ys) (simp_all add: plain_units_def)

lemma plain_units_ok:
  "\<forall>y \<in> set ys. 0x20 \<le> y \<and> y < 0x7F \<Longrightarrow> \<forall>u \<in> set (plain_units ys). unit_ok opts u"
  by (auto simp: plain_units_def unit_ok_def passes_printable word_le_nat_alt)

fun bin_units :: "u32 \<Rightarrow> byte \<Rightarrow> byte list \<Rightarrow> (byte list \<times> byte) list" where
  "bin_units opts l [] = []"
| "bin_units opts l (c # cs) =
     (if esc_needed opts l (esc_mask opts c) then [DLE, c XOR 0x40] else [c], c)
     # bin_units opts (esc_mask opts c) cs"

lemma bin_units_wire: "concat (map fst (bin_units opts l body)) = esc_wire opts l body"
  by (induction opts l body rule: bin_units.induct) simp_all

lemma bin_units_snd [simp]: "map snd (bin_units opts l body) = body"
  by (induction opts l body rule: bin_units.induct) simp_all

lemma bin_units_ok:
  "(\<And>c. has opts capHI8 \<Longrightarrow> c \<in> set body \<Longrightarrow> c < 0x80) \<Longrightarrow> \<forall>u \<in> set (bin_units opts l body). unit_ok opts u"
proof (induction opts l body rule: bin_units.induct)
  case (2 opts l c cs)
  then show ?case
    using passes_plain [of opts l c] passes_escaped [of opts l c] by (auto simp: unit_ok_def)
qed simp

definition hex_units :: "byte \<Rightarrow> (byte list \<times> byte) list" where
  "hex_units c =
     (if c < 0x80 \<and> (c < 32 \<or> c = 127) then [([DLE, c XOR 0x40], c)] else plain_units (hex_unit c))"

lemma hex_units_wire: "concat (map fst (hex_units c)) = hex_wire c"
  by (auto simp: hex_units_def hex_wire_def hex_unit_def not_less)

lemma hex_units_snd: "map snd (hex_units c) = hex_unit c"
  by (auto simp: hex_units_def hex_unit_def)

lemma hexdigit_printable: "n < 16 \<Longrightarrow> 0x30 \<le> hexdigit ! n \<and> hexdigit ! n \<le> 0x66"
  using hexNibble_digit [of n] by (auto simp: hexNibble_def word_le_nat_alt split: if_splits)

lemma hex_units_ok: "\<forall>u \<in> set (hex_units c). unit_ok opts u"
proof (cases "c < 0x80 \<and> (c < 32 \<or> c = 127)")
  case True
  then have rng: "0x3F \<le> c XOR 0x40 \<and> c XOR 0x40 \<le> 0x5F" using xor_40_range [of c] by blast
  then have "passes opts (c XOR 0x40)" "\<not> frame_special (c XOR 0x40)"
    by (auto intro!: passes_printable simp: frame_special_def word_le_nat_alt word_less_nat_alt)
  with True show ?thesis by (simp add: hex_units_def unit_ok_def)
next
  case False
  have "\<forall>y \<in> set (hex_unit c). 0x20 \<le> y \<and> y < 0x7F"
  proof (cases "c < 0x80")
    case True
    with False have "32 \<le> unat c" "unat c \<noteq> 127"
      by (auto simp: not_less word_le_nat_alt word_unat_eq_iff)
    with True show ?thesis
      by (auto simp: hex_unit_def word_le_nat_alt word_less_nat_alt)
  next
    case hi: False
    then show ?thesis
      using hexdigit_printable [OF nibble_bounds(1) [of c]] hexdigit_printable [OF nibble_bounds(2) [of c]]
      by (auto simp: hex_unit_def word_le_nat_alt word_less_nat_alt)
  qed
  moreover have "hex_units c = plain_units (hex_unit c)"
    using False by (auto simp: hex_units_def)
  ultimately show ?thesis by (simp add: plain_units_ok)
qed

text \<open>
  Every encoded body is a sequence of units the receiver collects, their content decodes to
  the body, and it fits the receiver's limit. The receiver's options are the sender's, or
  the format is HEX, whose rules no option changes.
\<close>

definition rx_compatible :: "byte \<Rightarrow> u32 \<Rightarrow> u32 \<Rightarrow> bool" where
  "rx_compatible t txo rxo \<longleftrightarrow> rxo = txo \<or> selectFormat t txo = fmtHEX"

lemma coded_units:
  assumes "rx_compatible t txo rxo" and "length body \<le> maxDecodedLen"
  shows "\<exists>us. coded (selectFormat t txo) txo body = concat (map fst us)
    \<and> (\<forall>u \<in> set us. unit_ok rxo u) \<and> length us \<le> maxEncodedLen
    \<and> decode_body (selectFormat t txo) (map snd us) = Inr body"
proof -
  let ?f = "selectFormat t txo"
  consider (bin) "?f = fmtBIN" | (hex) "?f = fmtHEX" | (asc) "?f = fmtASC" | (uue) "?f = fmtUUE"
    using selectFormat_cases [of t txo] by auto
  then show ?thesis
  proof cases
    case bin
    with assms(1) have "rxo = txo" by (simp add: rx_compatible_def)
    moreover have "\<forall>u \<in> set (bin_units txo 0 body). unit_ok txo u"
      using selectFormat_BIN [OF bin] by (intro bin_units_ok) simp
    moreover have "length (bin_units txo 0 body) = length body"
      by (metis bin_units_snd length_map)
    ultimately show ?thesis
      using bin assms(2)
      by (intro exI [of _ "bin_units txo 0 body"]) (simp add: coded_def bin_units_wire decode_body_def)
  next
    case hex
    let ?us = "concat (map hex_units body)"
    have wire: "concat (map fst ?us) = concat (map hex_wire body)"
      by (induction body) (simp_all add: hex_units_wire)
    have content: "map snd ?us = concat (map hex_unit body)"
      by (induction body) (simp_all add: hex_units_snd)
    have "length (concat (map hex_unit body)) \<le> 3 * length body"
    proof (induction body)
      case (Cons c body)
      then show ?case using length_hex_unit [of c] by simp
    qed simp
    then have "length ?us \<le> 3 * length body" by (metis content length_map)
    moreover have "\<forall>u \<in> set ?us. unit_ok rxo u" using hex_units_ok by auto
    ultimately show ?thesis
      using hex assms(2)
      by (intro exI [of _ ?us]) (simp add: coded_def wire content decode_body_def hexDecodeBody_eq hex_decode_units)
  next
    case asc
    with assms(1) have "rxo = txo" by (simp add: rx_compatible_def)
    let ?us = "bin_units txo 0 (asc_units 0 0 body)"
    have "\<forall>u \<in> set ?us. unit_ok txo u" by (rule bin_units_ok) (rule asc_units_low7)
    moreover have "length ?us \<le> maxEncodedLen"
    proof -
      have "length ?us = length (asc_units 0 0 body)" by (metis bin_units_snd length_map)
      then show ?thesis using length_asc_units [of 0 0 body] assms(2) by simp
    qed
    ultimately show ?thesis
      using asc \<open>rxo = txo\<close>
      by (intro exI [of _ ?us]) (simp add: coded_def bin_units_wire decode_body_def ascDecodeBody_units)
  next
    case uue
    have "\<forall>y \<in> set (uue_units body). 0x20 \<le> y \<and> y < 0x7F"
      using uue_units_range by (fastforce simp: word_le_nat_alt word_less_nat_alt)
    then have "\<forall>u \<in> set (plain_units (uue_units body)). unit_ok rxo u" by (rule plain_units_ok)
    then show ?thesis
      using uue assms(2) length_uue_units [of body]
      by (intro exI [of _ "plain_units (uue_units body)"])
        (simp add: coded_def decode_body_def uueDecodeBody_units, simp add: plain_units_def)
  qed
qed

subsection \<open>Reading a written frame\<close>

text \<open>
  The states between frames: at most one DLE counted, and a packet in progress only if none
  is. Bytes other than DLE keep the reader there without output.
\<close>

definition rd_quiet :: "reader \<Rightarrow> bool" where
  "rd_quiet r \<longleftrightarrow> rd_dles r \<le> 1 \<and> (rd_inPacket r \<longrightarrow> rd_dles r = 0)"

lemma rd_quiet_new [simp]: "rd_quiet newTransportReader"
  by (simp add: rd_quiet_def newTransportReader_def)

lemma rd_collect_flags [simp]:
  "rd_dles (rd_collect c r) = rd_dles r" "rd_inPacket (rd_collect c r) = rd_inPacket r"
  by (simp_all add: rd_collect_def)

lemma rd_quiet_step:
  assumes "rd_quiet r" and "rd_strip (ri_opts x) (ri_byte x) \<noteq> DLE"
  shows "\<exists>r'. rd_step x r = (r', Quiet) \<and> rd_quiet r'"
  using assms by (auto simp: rd_step_def Let_def rd_quiet_def finishPacket_def)

lemma rd_quiet_run:
  assumes "rd_quiet r" and "\<forall>x \<in> set xs. rd_strip (ri_opts x) (ri_byte x) \<noteq> DLE"
  shows "\<exists>r'. quiet_run xs r = Some r' \<and> rd_quiet r'"
  using assms
proof (induction xs arbitrary: r)
  case (Cons x xs)
  then show ?case using rd_quiet_step [of r x] by auto
qed simp

definition harmless :: "gostring \<Rightarrow> bool" where
  \<comment> \<open>a prefix without DLE or its high-bit twin\<close>
  "harmless prefix \<longleftrightarrow> (\<forall>b \<in> set prefix. b AND 0x7F \<noteq> DLE)"

lemma strip_not_DLE: "b AND 0x7F \<noteq> DLE \<Longrightarrow> rd_strip opts b \<noteq> DLE"
  by (auto simp: rd_strip_def)

lemma harmless_run:
  assumes "rd_quiet r" and "harmless prefix"
  shows "\<exists>r'. quiet_run (feed opts (wire_prefix prefix)) r = Some r' \<and> rd_quiet r'"
proof (rule rd_quiet_run [OF assms(1)])
  have "\<forall>b \<in> set (wire_prefix prefix). b AND 0x7F \<noteq> DLE"
    using assms(2) by (auto simp: wire_prefix_def harmless_def split: if_splits)
  then show "\<forall>x \<in> set (feed opts (wire_prefix prefix)). rd_strip (ri_opts x) (ri_byte x) \<noteq> DLE"
    using strip_not_DLE by (auto simp: feed_def)
qed

lemma trailer_run:
  assumes "rd_quiet r"
  shows "\<exists>r'. quiet_run (feed opts (frame_trailer t txo)) r = Some r' \<and> rd_quiet r'"
  by (rule rd_quiet_run [OF assms]) (auto simp: feed_def frame_trailer_def rd_strip_def)

lemma frame_start_run:
  assumes "rd_quiet r" and "format \<in> {fmtBIN, fmtHEX, fmtASC, fmtUUE}"
  shows "\<exists>r'. quiet_run (feed opts [DLE, format]) r = Some r' \<and> collecting format [] r'"
proof -
  have "frame_special format" using assms(2) by (auto simp: frame_special_def)
  then have "passes opts format" by (rule passes_special)
  with assms passes_DLE [of opts] show ?thesis
    by (auto simp: rd_step_def Let_def collecting_def rd_quiet_def passes_def [THEN iffD1, THEN conjunct2])
qed

lemma check_body_frame:
  assumes "rx_compatible t txo rxo"
  shows "check_body (selectFormat t txo) rxo (frame_body t p txo) = Some \<lparr>pkt_typ = t, pkt_payload = p\<rparr>"
proof -
  let ?f = "selectFormat t txo"
  have same: "(?f \<noteq> fmtHEX \<and> has rxo capC32) = (?f \<noteq> fmtHEX \<and> has txo capC32)"
    using assms by (auto simp: rx_compatible_def)
  have good: "crc_good ?f txo (frame_body t p txo)" by (rule crc_good_frame_body)
  have len: "length (frame_body t p txo) - crc_len ?f txo = Suc (length p)"
    "\<not> length (frame_body t p txo) < crc_len ?f txo + 1"
    by (simp_all add: length_frame_body)
  have parts: "frame_body t p txo ! length p = t" "take (length p) (frame_body t p txo) = p"
    by (simp_all add: frame_body_def nth_append)
  show ?thesis
    using good len parts unfolding check_body_def Let_def same
    by (auto simp: crc_good_def crc_len_def split: if_splits)
qed

lemma frame_end_run:
  assumes "collecting format body r" and "decode_body format body = Inr decoded"
    and "length decoded \<le> maxDecodedLen" and "check_body format opts decoded = Some pkt"
  shows "\<exists>r'. readPacket e (feed opts [DLE, fmtEnd] @ rest) r = (r', rest, Inr pkt) \<and> rd_quiet r'"
proof -
  have "passes opts fmtEnd" by (rule passes_special) (simp add: frame_special_def)
  with assms passes_DLE [of opts] show ?thesis
    by (simp add: rd_step_def Let_def collecting_def rd_quiet_def finishPacket_def
        passes_def [THEN iffD1, THEN conjunct2])
qed

lemma read_written_frame:
  assumes "rd_quiet r" and "harmless prefix" and "length p \<le> maxPayloadSize"
    and "rx_compatible t txo rxo"
  shows "\<exists>r'. readPacket e (feed rxo (writePacket t p txo prefix) @ rest) r
      = (r', feed rxo (frame_trailer t txo) @ rest, Inr \<lparr>pkt_typ = t, pkt_payload = p\<rparr>) \<and> rd_quiet r'"
proof -
  let ?f = "selectFormat t txo" and ?body = "frame_body t p txo"
  let ?tail = "feed rxo [DLE, fmtEnd] @ feed rxo (frame_trailer t txo) @ rest"
  have body: "length ?body \<le> maxDecodedLen"
    using assms(3) crc_len_le [of ?f txo] by (simp add: length_frame_body)
  obtain us where us: "coded ?f txo ?body = concat (map fst us)" "\<forall>u \<in> set us. unit_ok rxo u"
    "length us \<le> maxEncodedLen" "decode_body ?f (map snd us) = Inr ?body"
    using coded_units [OF assms(4) body] by blast
  obtain r1 where r1: "quiet_run (feed rxo (wire_prefix prefix)) r = Some r1" "rd_quiet r1"
    using harmless_run [OF assms(1,2)] by blast
  obtain r2 where r2: "quiet_run (feed rxo [DLE, ?f]) r1 = Some r2" "collecting ?f [] r2"
    using frame_start_run [OF r1(2) selectFormat_cases] by blast
  obtain r3 where r3: "quiet_run (feed rxo (concat (map fst us))) r2 = Some r3" "collecting ?f (map snd us) r3"
    using collect_units [OF us(2) r2(2)] us(3) by auto
  obtain r4 where r4: "readPacket e ?tail r3
      = (r4, feed rxo (frame_trailer t txo) @ rest, Inr \<lparr>pkt_typ = t, pkt_payload = p\<rparr>)" "rd_quiet r4"
    using frame_end_run [OF r3(2) us(4) body check_body_frame [OF assms(4)]] by blast
  have "readPacket e (feed rxo (writePacket t p txo prefix) @ rest) r = readPacket e ?tail r3"
    unfolding writePacket_parts us(1) feed_simps(3) append_assoc
    by (simp only: readPacket_quiet [OF r1(1)] readPacket_quiet [OF r2(1)] readPacket_quiet [OF r3(1)])
  with r4 show ?thesis by auto
qed

subsection \<open>What the receiver accepts\<close>

text \<open>The checks of \<open>finishPacket\<close> accept exactly the bodies a writer builds.\<close>

lemma check_body_Some_iff:
  "check_body format opts decoded = Some pkt \<longleftrightarrow>
     decoded = (pkt_payload pkt @ [pkt_typ pkt]) @ crc_bytes format opts (pkt_payload pkt @ [pkt_typ pkt])"
  (is "?lhs = (decoded = ?body @ ?crc)")
proof
  let ?n = "length decoded - crc_len format opts"
  assume lhs: ?lhs
  then have len: "crc_len format opts < length decoded"
    and good: "crc_good format opts decoded"
    and pkt: "pkt = \<lparr>pkt_typ = decoded ! (?n - 1), pkt_payload = take (?n - 1) decoded\<rparr>"
    by (auto simp: check_body_def Let_def crc_len_def crc_good_def split: if_splits)
  then have "?n = Suc (?n - 1)" "?n - 1 < length decoded" by auto
  then have body: "take ?n decoded = ?body"
    unfolding pkt by (metis packet.select_convs take_Suc_conv_app_nth)
  have "length (drop ?n decoded) = crc_len format opts" using len by simp
  moreover have "crc_good format opts (take ?n decoded @ drop ?n decoded)" using good by simp
  ultimately have "drop ?n decoded = crc_bytes format opts ?body"
    using crc_good_iff body by metis
  then show "decoded = ?body @ ?crc" by (metis append_take_drop_id body)
next
  assume decoded: "decoded = ?body @ ?crc"
  have "crc_good format opts decoded"
    unfolding decoded using crc_good_iff length_crc_bytes by blast
  then show ?lhs
    by (auto simp: check_body_def Let_def decoded length_crc_bytes crc_len_def crc_good_def nth_append)
qed

lemma finishPacket_Some:
  assumes "finishPacket opts r = (r', Some pkt)"
  shows "rd_inPacket r \<and> \<not> rd_overflow r
    \<and> decode_body (rd_format r) (rd_body r) =
        Inr ((pkt_payload pkt @ [pkt_typ pkt])
             @ crc_bytes (rd_format r) opts (pkt_payload pkt @ [pkt_typ pkt]))
    \<and> length (pkt_payload pkt) + 1 + crc_len (rd_format r) opts \<le> maxDecodedLen"
  using assms
  by (auto simp: finishPacket_def Let_def check_body_Some_iff length_crc_bytes split: if_splits sum.splits)

lemma cancel_run:
  "d + n \<ge> detectCancelCount \<Longrightarrow> 0 < n \<Longrightarrow> rd_dles r = d \<Longrightarrow>
    \<exists>r' xs. readPacket e (feed opts (replicate n DLE) @ rest) r = (r', xs, Inl ErrPeerCancel)"
proof (induction n arbitrary: d r)
  case (Suc n)
  have strip: "rd_strip opts 0x18 = 0x18" by (simp add: rd_strip_def)
  show ?case
  proof (cases "detectCancelCount \<le> Suc d")
    case True
    with Suc.prems(3) strip show ?thesis by (simp add: rd_step_def Let_def)
  next
    case False
    with Suc.prems have "Suc d + n \<ge> detectCancelCount" "0 < n" by auto
    with False strip Suc.prems(3) Suc.IH [of "Suc d" "r\<lparr>rd_dles := Suc d\<rparr>"] show ?thesis
      by (simp add: rd_step_def Let_def)
  qed
qed simp

lemma burst_rejected:
  assumes "check_body format opts (p @ u @ s) = Some pkt"
    and "length u = length v" and "length u \<le> crc_len format opts" and "u \<noteq> v"
  shows "check_body format opts (p @ v @ s) = None"
proof (cases "format \<noteq> fmtHEX \<and> has opts capC32")
  case True
  with assms(3) have "length u \<le> 4" by (simp add: crc_len_def)
  then have "crc32Compute (p @ u @ s) \<noteq> crc32Compute (p @ v @ s)"
    unfolding crc32_foldl using assms(2,4) by (intro crc32.burst_detected) simp_all
  with True assms(1) show ?thesis by (auto simp: check_body_def Let_def split: if_splits)
next
  case False
  with assms(3) have "length u \<le> 2" by (simp add: crc_len_def split: if_splits)
  then have "crc16Compute (p @ u @ s) \<noteq> crc16Compute (p @ v @ s)"
    unfolding crc16_foldl using assms(2,4) by (intro crc16.burst_detected) simp_all
  with False assms(1) show ?thesis by (auto simp: check_body_def Let_def split: if_splits)
qed

subsection \<open>The properties\<close>

text \<open>
  Property C29. Soundness of acceptance: a frame is delivered only if it was framed, did not
  overflow, and its decoded body is the delivered payload and type followed by their
  checksum, exactly what a writer would have built; and the decoded length is bounded.
\<close>

theorem finishPacket_sound:
  assumes "finishPacket opts r = (r', Some pkt)"
  shows "rd_inPacket r \<and> \<not> rd_overflow r
    \<and> decode_body (rd_format r) (rd_body r) =
        Inr ((pkt_payload pkt @ [pkt_typ pkt])
             @ crc_bytes (rd_format r) opts (pkt_payload pkt @ [pkt_typ pkt]))
    \<and> length (pkt_payload pkt) + 1 + crc_len (rd_format r) opts \<le> maxDecodedLen"
  by (rule finishPacket_Some [OF assms])

theorem finishPacket_sound_witness:
  "decode_body fmtHEX [0x4C, 0x10, 0x78] = Inr ([] @ [0x4C] @ crc_bytes fmtHEX 0 ([] @ [0x4C]))"
proof -
  have "finishPacket 0 (newTransportReader\<lparr>rd_format := fmtHEX, rd_inPacket := True,
      rd_body := [0x4C, 0x10, 0x78]\<rparr>)
    = (newTransportReader\<lparr>rd_format := fmtHEX, rd_body := [0x4C, 0x10, 0x78]\<rparr>,
       Some \<lparr>pkt_typ = 0x4C, pkt_payload = []\<rparr>)"
    by (simp add: finishPacket_def newTransportReader_def Let_def decode_body_def hexDecodeBody_eq
        hexNibble_def check_body_def crc_eval crc_bit_def crc16Poly_def funpow_numeral)
  from finishPacket_sound [OF this] show ?thesis by (simp add: newTransportReader_def)
qed

text \<open>
  Property C30. Error detection: when a received body passes the checks, replacing any
  stretch of it no longer than the checksum (two bytes, four with C32) by different bytes
  makes the checks fail. A burst of line noise of that length is never delivered.
\<close>

theorem noise_burst_rejected:
  assumes "check_body format opts (p @ u @ s) = Some pkt"
    and "length u = length v" and "length u \<le> crc_len format opts" and "u \<noteq> v"
  shows "check_body format opts (p @ v @ s) = None"
  by (rule burst_rejected [OF assms])

theorem noise_burst_rejected_witness: "check_body fmtHEX 0 ([] @ [0x4B, 0x11] @ [0x78]) = None"
proof (rule noise_burst_rejected)
  show "check_body fmtHEX 0 ([] @ [0x4C, 0x10] @ [0x78]) = Some \<lparr>pkt_typ = 0x4C, pkt_payload = []\<rparr>"
    by (simp add: check_body_def Let_def crc_eval crc_bit_def crc16Poly_def funpow_numeral)
qed (simp_all add: crc_len_def)

text \<open>
  Property C31. The cancel sequence is always recognised: whatever state the reader is in
  (inside a packet, after an escape, under any options), reading the eight DLEs the writer
  sends reports the peer's cancellation.
\<close>

theorem cancel_recognised:
  "\<exists>r' xs. readPacket e (feed opts writeCancel @ rest) r = (r', xs, Inl ErrPeerCancel)"
  using cancel_run [of "rd_dles r" 8 r e opts "feed opts (replicate cancelPadCount charBS) @ rest"]
  by (simp add: writeCancel_def)

end
