(* ===== verification/Hydra_Inbox.thy ===== *)
theory Hydra_Inbox
  imports Hydra_Reader
begin

section \<open>The packet inbox and the reader goroutine (session.go)\<close>

text \<open>
  \<open>pktInbox\<close> is the queue between the reader goroutine and the event loop: a slice under a
  mutex and a one-slot signal channel. Each method is one atomic step (the mutex), so an
  interleaving of the two goroutines is a sequence of such steps. The sending of the signal
  is non-blocking: it sets the token.
\<close>

subsection \<open>The code\<close>

definition inboxCap :: nat where [simp]: "inboxCap = 4096"

record inbox =
  in_q :: "packet list"
  in_sig :: bool

definition newPktInbox :: inbox where
  "newPktInbox = \<lparr>in_q = [], in_sig = False\<rparr>"

definition inbox_push :: "packet \<Rightarrow> inbox \<Rightarrow> bool \<times> inbox" where
  "inbox_push p ib =
     (if length (in_q ib) \<ge> inboxCap then (False, ib)
      else (True, ib\<lparr>in_q := in_q ib @ [p], in_sig := True\<rparr>))"

definition inbox_reset :: "inbox \<Rightarrow> inbox" where
  "inbox_reset ib = ib\<lparr>in_q := []\<rparr>"

definition inbox_kick :: "inbox \<Rightarrow> inbox" where
  "inbox_kick ib = ib\<lparr>in_sig := True\<rparr>"

definition inbox_tryPop :: "inbox \<Rightarrow> packet option \<times> inbox" where
  "inbox_tryPop ib =
     (case in_q ib of [] \<Rightarrow> (None, ib) | p # q \<Rightarrow> (Some p, ib\<lparr>in_q := q\<rparr>))"

text \<open>
  One round of \<open>readerLoop\<close>: read a packet from the transport and push it. \<open>Inl\<close> carries the
  error the goroutine reports on \<open>readErr\<close> before it exits.
\<close>

definition reader_round ::
  "err \<Rightarrow> rx_item list \<Rightarrow> reader \<Rightarrow> inbox \<Rightarrow> err + (rx_item list \<times> reader \<times> inbox)" where
  "reader_round e xs r ib =
     (case readPacket e xs r of
        (r', xs', Inl err) \<Rightarrow> Inl err
      | (r', xs', Inr pkt) \<Rightarrow>
          (case inbox_push pkt ib of
             (True, ib') \<Rightarrow> Inr (xs', r', ib')
           | (False, _) \<Rightarrow> Inl errInboxOverflow))"

lemma readPacket_shorter: "readPacket e xs r = (r', xs', Inr p) \<Longrightarrow> length xs' < length xs"
  by (induction xs arbitrary: r) (fastforce split: prod.splits rd_out.splits)+

lemma reader_round_shorter: "reader_round e xs r ib = Inr (xs', r', ib') \<Longrightarrow> length xs' < length xs"
  by (auto simp: reader_round_def split: prod.splits sum.splits bool.splits dest: readPacket_shorter)

function readerLoop :: "err \<Rightarrow> rx_item list \<Rightarrow> reader \<Rightarrow> inbox \<Rightarrow> err \<times> inbox" where
  "readerLoop e xs r ib =
     (case reader_round e xs r ib of
        Inl err \<Rightarrow> (err, ib)
      | Inr (xs', r', ib') \<Rightarrow> readerLoop e xs' r' ib')"
  by pat_completeness auto
termination
  by (relation "measure (\<lambda>(e, xs, r, ib). length xs)") (auto dest: reader_round_shorter)

declare readerLoop.simps [simp del]

subsection \<open>The interface of a bounded queue\<close>

text \<open>
  What the two goroutines rely on. The producer gets \<open>False\<close> exactly when the queue is full
  and then nothing changes; the consumer gets the oldest element.
\<close>

locale bounded_queue =
  fixes push :: "'a \<Rightarrow> 'q \<Rightarrow> bool \<times> 'q"
    and pop :: "'q \<Rightarrow> 'a option \<times> 'q"
    and items :: "'q \<Rightarrow> 'a list"
    and cap :: nat
  assumes push_room: "length (items q) < cap \<Longrightarrow> fst (push x q) \<and> items (snd (push x q)) = items q @ [x]"
    and push_full: "cap \<le> length (items q) \<Longrightarrow> push x q = (False, q)"
    and pop_empty: "items q = [] \<Longrightarrow> pop q = (None, q)"
    and pop_first: "items q = x # xs \<Longrightarrow> fst (pop q) = Some x \<and> items (snd (pop q)) = xs"
begin

lemma push_cap: "length (items q) \<le> cap \<Longrightarrow> length (items (snd (push x q))) \<le> cap"
  using push_room [of q x] push_full [of q x] by (cases "length (items q) < cap") auto

lemma pop_cap: "length (items q) \<le> cap \<Longrightarrow> length (items (snd (pop q))) \<le> cap"
  using pop_empty [of q] pop_first [of q] by (cases "items q") auto

text \<open>
  A run of the two sides in any order: \<open>Some x\<close> is a push of \<open>x\<close>, \<open>None\<close> a pop. The run
  keeps what was accepted and what was delivered.
\<close>

fun run :: "'a option list \<Rightarrow> 'a list \<times> 'a list \<times> 'q \<Rightarrow> 'a list \<times> 'a list \<times> 'q" where
  "run [] s = s"
| "run (Some x # ops) (acc, del, q) =
     (case push x q of (b, q') \<Rightarrow> run ops (if b then acc @ [x] else acc, del, q'))"
| "run (None # ops) (acc, del, q) =
     (case pop q of (Some y, q') \<Rightarrow> run ops (acc, del @ [y], q') | (None, q') \<Rightarrow> run ops (acc, del, q'))"

lemma run_fifo:
  assumes "acc = del @ items q" and "run ops (acc, del, q) = (acc', del', q')"
  shows "acc' = del' @ items q'"
  using assms
proof (induction ops "(acc, del, q)" arbitrary: acc del q rule: run.induct)
  case (2 x ops acc del q)
  obtain b q1 where p: "push x q = (b, q1)" by fastforce
  have "(if b then acc @ [x] else acc) = del @ items q1"
    using push_room [of q x] push_full [of q x] p "2.prems"(1) by (cases "length (items q) < cap") auto
  with p 2 show ?case by auto
next
  case (3 ops acc del q)
  show ?case
  proof (cases "items q")
    case Nil
    with 3 pop_empty [OF Nil] show ?thesis by simp
  next
    case (Cons y ys)
    obtain o1 q1 where p: "pop q = (o1, q1)" by fastforce
    with pop_first [OF Cons] have "o1 = Some y" "items q1 = ys" by auto
    with p 3 Cons show ?thesis by auto
  qed
qed simp

lemma run_cap:
  assumes "length (items q) \<le> cap" and "run ops (acc, del, q) = (acc', del', q')"
  shows "length (items q') \<le> cap"
  using assms
proof (induction ops "(acc, del, q)" arbitrary: acc del q rule: run.induct)
  case (2 x ops acc del q)
  then show ?case using push_cap [of q x] by (auto split: prod.splits)
next
  case (3 ops acc del q)
  then show ?case using pop_cap [of q] by (auto split: prod.splits option.splits)
qed simp

end

interpretation ib: bounded_queue inbox_push inbox_tryPop in_q inboxCap
  by unfold_locales (simp_all add: inbox_push_def inbox_tryPop_def)

text \<open>
  The device queue \<open>devQ\<close> is a Go channel of capacity 8 used only with non-blocking sends
  and receives (\<open>SendDevice\<close>, \<open>drain\<close>).
\<close>

record devRequest =
  dr_device :: gostring
  dr_payload :: "byte list"

definition devQCap :: nat where [simp]: "devQCap = 8"

definition devQ_send :: "devRequest \<Rightarrow> devRequest list \<Rightarrow> bool \<times> devRequest list" where
  "devQ_send d q = (if length q < devQCap then (True, q @ [d]) else (False, q))"

definition devQ_recv :: "devRequest list \<Rightarrow> devRequest option \<times> devRequest list" where
  "devQ_recv q = (case q of [] \<Rightarrow> (None, []) | d # q' \<Rightarrow> (Some d, q'))"

interpretation dq: bounded_queue devQ_send devQ_recv "\<lambda>q. q" devQCap
  by unfold_locales (simp_all add: devQ_send_def devQ_recv_def)

subsection \<open>No lost wake-up\<close>

text \<open>
  The event loop blocks only on the signal token (among other channels), so the token must
  be present whenever packets are queued and the loop is about to wait. Pushing sets the
  token, popping keeps it, and clearing the queue needs none.
\<close>

definition wakeable :: "inbox \<Rightarrow> bool" where
  "wakeable ib \<longleftrightarrow> in_q ib \<noteq> [] \<longrightarrow> in_sig ib"

lemma wakeable_new: "wakeable newPktInbox"
  by (simp add: wakeable_def newPktInbox_def)

lemma wakeable_push: "wakeable ib \<Longrightarrow> wakeable (snd (inbox_push p ib))"
  by (simp add: wakeable_def inbox_push_def)

lemma wakeable_pop: "wakeable ib \<Longrightarrow> wakeable (snd (inbox_tryPop ib))"
  by (auto simp: wakeable_def inbox_tryPop_def split: list.splits)

lemma wakeable_reset: "wakeable (inbox_reset ib)"
  by (simp add: wakeable_def inbox_reset_def)

lemma wakeable_kick: "wakeable (inbox_kick ib)"
  by (simp add: wakeable_def inbox_kick_def)

subsection \<open>Frames to packets\<close>

text \<open>A packet as a sender hands it to the writer, with the options in force and the prefix.\<close>

record sent =
  sn_packet :: packet
  sn_opts :: u32
  sn_prefix :: gostring

definition sent_bytes :: "sent \<Rightarrow> byte list" where
  "sent_bytes s = writePacket (pkt_typ (sn_packet s)) (pkt_payload (sn_packet s)) (sn_opts s) (sn_prefix s)"

definition sent_ok :: "u32 \<Rightarrow> sent \<Rightarrow> bool" where
  "sent_ok rxo s \<longleftrightarrow> harmless (sn_prefix s) \<and> length (pkt_payload (sn_packet s)) \<le> maxPayloadSize
     \<and> rx_compatible (pkt_typ (sn_packet s)) (sn_opts s) rxo"

lemma reader_round_frame:
  assumes "rd_quiet r" and "sent_ok rxo s" and "length (in_q ib) < inboxCap"
  shows "\<exists>r'. reader_round e (feed rxo (sent_bytes s) @ rest) r ib
      = Inr (feed rxo (frame_trailer (pkt_typ (sn_packet s)) (sn_opts s)) @ rest, r',
             snd (inbox_push (sn_packet s) ib)) \<and> rd_quiet r'"
proof -
  have "\<exists>r'. readPacket e (feed rxo (sent_bytes s) @ rest) r
      = (r', feed rxo (frame_trailer (pkt_typ (sn_packet s)) (sn_opts s)) @ rest, Inr (sn_packet s)) \<and> rd_quiet r'"
    unfolding sent_bytes_def
    using read_written_frame [OF assms(1), of "sn_prefix s" "pkt_payload (sn_packet s)"
        "pkt_typ (sn_packet s)" "sn_opts s" rxo e rest] assms(2)
    by (cases "sn_packet s") (simp add: sent_ok_def)
  with assms(3) show ?thesis by (auto simp: reader_round_def inbox_push_def)
qed

lemma readPacket_trailer:
  assumes "rd_quiet r"
  shows "\<exists>r'. readPacket e (feed rxo (frame_trailer t txo) @ rest) r = readPacket e rest r' \<and> rd_quiet r'"
  using trailer_run [OF assms, of rxo t txo] readPacket_quiet by blast

lemma readerLoop_trailer:
  assumes "rd_quiet r"
  shows "\<exists>r'. readerLoop e (feed rxo (frame_trailer t txo) @ rest) r ib = readerLoop e rest r' ib \<and> rd_quiet r'"
proof -
  obtain r' where "readPacket e (feed rxo (frame_trailer t txo) @ rest) r = readPacket e rest r'" "rd_quiet r'"
    using readPacket_trailer [OF assms] by blast
  then show ?thesis
    by (intro exI [of _ r']) (simp add: readerLoop.simps reader_round_def)
qed

lemma readerLoop_frames:
  assumes "rd_quiet r" and "\<forall>s \<in> set ss. sent_ok rxo s" and "length (in_q ib) + length ss \<le> inboxCap"
  shows "fst (readerLoop e (feed rxo (concat (map sent_bytes ss))) r ib) = e
    \<and> in_q (snd (readerLoop e (feed rxo (concat (map sent_bytes ss))) r ib)) = in_q ib @ map sn_packet ss"
  using assms
proof (induction ss arbitrary: r ib)
  case Nil
  then show ?case by (simp add: readerLoop.simps reader_round_def)
next
  case (Cons s ss)
  let ?rest = "feed rxo (concat (map sent_bytes ss))"
  let ?ib = "snd (inbox_push (sn_packet s) ib)"
  from Cons.prems have room: "length (in_q ib) < inboxCap" and okay: "sent_ok rxo s" by auto
  obtain r1 where r1: "reader_round e (feed rxo (sent_bytes s) @ ?rest) r ib
      = Inr (feed rxo (frame_trailer (pkt_typ (sn_packet s)) (sn_opts s)) @ ?rest, r1, ?ib)" "rd_quiet r1"
    using reader_round_frame [OF Cons.prems(1) okay room] by blast
  obtain r2 where r2: "readerLoop e (feed rxo (frame_trailer (pkt_typ (sn_packet s)) (sn_opts s)) @ ?rest) r1 ?ib
      = readerLoop e ?rest r2 ?ib" "rd_quiet r2"
    using readerLoop_trailer [OF r1(2)] by blast
  have q: "in_q ?ib = in_q ib @ [sn_packet s]" using ib.push_room [OF room] by blast
  have "readerLoop e (feed rxo (concat (map sent_bytes (s # ss)))) r ib = readerLoop e ?rest r2 ?ib"
    using r1(1) r2(1) by (simp add: readerLoop.simps [of e "feed rxo (sent_bytes s) @ ?rest"])
  with Cons.IH [OF r2(2), of ?ib] Cons.prems(2,3) q show ?case by simp
qed

subsection \<open>The properties\<close>

text \<open>
  Property C12. The receive path delivers exactly what the peer sent: a fresh reader fed with
  the concatenated frames of any packets (payloads up to \<open>maxPayloadSize\<close>, any type and
  options, any format, a prefix without DLE), under options that agree with the sender's or
  for HEX frames any options, queues these packets in order and then reports the end of the
  input, as long as the inbox has room.
\<close>

theorem frames_roundtrip:
  assumes "\<forall>s \<in> set ss. sent_ok rxo s" and "length ss \<le> inboxCap"
  shows "fst (readerLoop e (feed rxo (concat (map sent_bytes ss))) newTransportReader newPktInbox) = e
    \<and> in_q (snd (readerLoop e (feed rxo (concat (map sent_bytes ss))) newTransportReader newPktInbox))
      = map sn_packet ss"
  using readerLoop_frames [OF rd_quiet_new assms(1), of newPktInbox e] assms(2)
  by (simp add: newPktInbox_def)

definition demo_frames :: "sent list" where
  "demo_frames =
    [\<lparr>sn_packet = \<lparr>pkt_typ = pktINIT, pkt_payload = [0x41, 0, 0x80, 0x5C]\<rparr>, sn_opts = 0, sn_prefix = str ''xy''\<rparr>,
     \<lparr>sn_packet = \<lparr>pkt_typ = pktDATA, pkt_payload = [0, 0, 0, 0, 0x18, 0x0D]\<rparr>, sn_opts = capC32, sn_prefix = []\<rparr>]"

theorem frames_roundtrip_witness:
  "in_q (snd (readerLoop IoEOF (feed capC32 (concat (map sent_bytes demo_frames))) newTransportReader newPktInbox))
   = [\<lparr>pkt_typ = pktINIT, pkt_payload = [0x41, 0, 0x80, 0x5C]\<rparr>,
      \<lparr>pkt_typ = pktDATA, pkt_payload = [0, 0, 0, 0, 0x18, 0x0D]\<rparr>]"
proof -
  have "\<forall>s \<in> set demo_frames. sent_ok capC32 s"
    by (simp add: demo_frames_def sent_ok_def harmless_def rx_compatible_def selectFormat_def)
  moreover have "length demo_frames \<le> inboxCap" by (simp add: demo_frames_def)
  ultimately show ?thesis
    using frames_roundtrip [of demo_frames capC32 IoEOF] by (simp add: demo_frames_def)
qed

text \<open>
  Property C27. The inbox under any interleaving of the reader's pushes and the event loop's
  pops is a bounded queue: what was accepted is what was delivered followed by what is
  still queued, in order, and the queue never exceeds \<open>inboxCap\<close>.
\<close>

theorem inbox_interleaving:
  assumes "ib.run ops ([], [], newPktInbox) = (acc, del, ib')"
  shows "acc = del @ in_q ib' \<and> length (in_q ib') \<le> inboxCap"
  using ib.run_fifo [OF _ assms] ib.run_cap [OF _ assms] by (simp add: newPktInbox_def)

theorem inbox_interleaving_witness:
  "case ib.run [Some \<lparr>pkt_typ = 1, pkt_payload = []\<rparr>, Some \<lparr>pkt_typ = 2, pkt_payload = []\<rparr>, None]
      ([], [], newPktInbox) of (acc, del, ib') \<Rightarrow>
    del = [\<lparr>pkt_typ = 1, pkt_payload = []\<rparr>] \<and> acc = del @ in_q ib' \<and> length (in_q ib') \<le> inboxCap"
proof -
  have r: "ib.run [Some \<lparr>pkt_typ = 1, pkt_payload = []\<rparr>, Some \<lparr>pkt_typ = 2, pkt_payload = []\<rparr>, None]
      ([], [], newPktInbox)
    = ([\<lparr>pkt_typ = 1, pkt_payload = []\<rparr>, \<lparr>pkt_typ = 2, pkt_payload = []\<rparr>],
       [\<lparr>pkt_typ = 1, pkt_payload = []\<rparr>],
       \<lparr>in_q = [\<lparr>pkt_typ = 2, pkt_payload = []\<rparr>], in_sig = True\<rparr>)"
    by (simp add: newPktInbox_def inbox_push_def inbox_tryPop_def)
  from inbox_interleaving [OF r] show ?thesis unfolding r by simp
qed

text \<open>
  The event loop's side of the signal: it takes the token only when it blocks (\<open>pump\<close>), and
  then drains; the drain ends at an empty queue or, its budget used up, with \<open>kick\<close>. The
  flag says that a drain owed for a taken token is still going on.
\<close>

datatype inbox_op = Push packet | TakeSig | TryPop | Kick | Reset

fun inbox_do :: "inbox \<times> bool \<Rightarrow> inbox_op \<Rightarrow> inbox \<times> bool" where
  "inbox_do (ib, owed) (Push p) = (snd (inbox_push p ib), owed)"
| "inbox_do (ib, owed) TakeSig = (if in_sig ib then (ib\<lparr>in_sig := False\<rparr>, True) else (ib, owed))"
| "inbox_do (ib, owed) TryPop = (snd (inbox_tryPop ib), owed \<and> fst (inbox_tryPop ib) \<noteq> None)"
| "inbox_do (ib, owed) Kick = (inbox_kick ib, False)"
| "inbox_do (ib, owed) Reset = (inbox_reset ib, owed)"

lemma inbox_do_wakeable:
  "snd st \<or> wakeable (fst st) \<Longrightarrow> snd (inbox_do st op) \<or> wakeable (fst (inbox_do st op))"
proof (cases st; cases op)
  fix ib owed assume "snd st \<or> wakeable (fst st)" "st = (ib, owed)" "op = TryPop"
  then show ?thesis
    using wakeable_pop [of ib] by (auto simp: inbox_tryPop_def wakeable_def split: list.splits)
qed (auto simp: wakeable_push wakeable_kick wakeable_reset)

lemma inbox_run_wakeable:
  "snd st \<or> wakeable (fst st) \<Longrightarrow> snd (foldl inbox_do st ops) \<or> wakeable (fst (foldl inbox_do st ops))"
  by (induction ops arbitrary: st) (simp_all add: inbox_do_wakeable)


end
