(* ===== verification/Hydra_Fileinfo.thy ===== *)
theory Hydra_Fileinfo
  imports Hydra_Packet
begin

unbundle bit_operations_syntax

section \<open>FINFO payloads (fileinfo.go)\<close>

text \<open>
  The announcement of a file: five eight-digit hexadecimal fields, the short name and,
  when FPT is negotiated and the path says more than the name, the real name. The
  end-of-batch announcement is a single NUL.
\<close>

record fileMeta =
  fm_mtime :: int
  fm_size :: int
  fm_txid :: u32
  fm_count :: u32
  fm_name :: gostring
  fm_path :: gostring

definition finfoHeaderLen :: nat where [simp]: "finfoHeaderLen = 40"

definition marshalFinfo :: "fileMeta \<Rightarrow> bool \<Rightarrow> byte list" where
  "marshalFinfo m fpt =
     fmt_08x (word_of_int (fm_mtime m)) @ fmt_08x (word_of_int (fm_size m)) @ fmt_08x 0
     @ fmt_08x (fm_txid m) @ fmt_08x (fm_count m) @ fm_name m @ [0]
     @ (if fpt \<and> fm_path m \<noteq> [] \<and> fm_path m \<noteq> fm_name m then fm_path m @ [0] else [])"

definition finfoEOB :: "byte list" where "finfoEOB = [0]"

definition isFinfoEOB :: "byte list \<Rightarrow> bool" where
  "isFinfoEOB p \<longleftrightarrow> length p = 0 \<or> p ! 0 = 0"

text \<open>The five conversions of one \<open>Sscanf\<close> call.\<close>

fun scan_fields :: "nat \<Rightarrow> nat list \<Rightarrow> u32 list option" where
  "scan_fields 0 rs = Some []"
| "scan_fields (Suc n) rs =
     (case scan_08x rs of
        None \<Rightarrow> None
      | Some (w, rest) \<Rightarrow> map_option (Cons w) (scan_fields n rest))"

definition parseFinfo :: "byte list \<Rightarrow> fileMeta result" where
  "parseFinfo p =
     (if length p < finfoHeaderLen + 1 then Inl errBadFinfo
      else (case scan_fields 5 (utf8_runes (take finfoHeaderLen p)) of
          Some [mt, sz, reserved, txid, count] \<Rightarrow>
            (case cutNul (drop finfoHeaderLen p) of
               None \<Rightarrow> Inl (ErrWrap errBadFinfo)
             | Some (name, rest) \<Rightarrow>
                 if name = [] then Inl (ErrWrap errBadFinfo)
                 else Inr \<lparr>fm_mtime = uint mt, fm_size = uint sz, fm_txid = txid, fm_count = count,
                           fm_name = name,
                           fm_path = (case cutNul rest of
                               Some (path, _) \<Rightarrow> if path \<noteq> [] then path else []
                             | None \<Rightarrow> [])\<rparr>)
        | _ \<Rightarrow> Inl (ErrWrap errBadFinfo)))"

subsection \<open>Round trip\<close>

lemma scan_fields_fmt:
  "scan_fields (length ws) (utf8_runes (concat (map fmt_08x ws))) = Some ws"
  by (induction ws) (simp_all add: utf8_runes_fmt scan_08x_fmt)

lemma parseFinfo_marshal:
  assumes "fm_name m \<noteq> []" and "0 \<notin> set (fm_name m)" and "0 \<notin> set (fm_path m)"
  shows "parseFinfo (marshalFinfo m fpt) =
    Inr (m\<lparr>fm_mtime := fm_mtime m mod 2 ^ 32, fm_size := fm_size m mod 2 ^ 32,
           fm_path := (if fpt \<and> fm_path m \<noteq> fm_name m then fm_path m else [])\<rparr>)"
proof -
  let ?ws = "[word_of_int (fm_mtime m), word_of_int (fm_size m), 0, fm_txid m, fm_count m]"
  let ?tail = "if fpt \<and> fm_path m \<noteq> [] \<and> fm_path m \<noteq> fm_name m then fm_path m @ [0] else []"
  have split: "marshalFinfo m fpt = concat (map fmt_08x ?ws) @ fm_name m @ 0 # ?tail"
    by (simp add: marshalFinfo_def)
  have "take 40 (marshalFinfo m fpt) = concat (map fmt_08x ?ws)"
    "drop 40 (marshalFinfo m fpt) = fm_name m @ 0 # ?tail"
    unfolding split by simp_all
  moreover have "length (marshalFinfo m fpt) \<ge> 41"
    unfolding split by simp
  moreover have "scan_fields 5 (utf8_runes (concat (map fmt_08x ?ws))) = Some ?ws"
    using scan_fields_fmt [of ?ws] by (simp add: eval_nat_numeral)
  ultimately show ?thesis
    using assms cutNul_append [of "fm_path m" "[]"]
    by (simp add: parseFinfo_def uint_word_of_int)
qed

lemma marshalFinfo_not_EOB: "\<not> isFinfoEOB (marshalFinfo m fpt)"
proof -
  have "marshalFinfo m fpt ! 0 = fmt_08x (word_of_int (fm_mtime m)) ! 0"
    by (simp add: marshalFinfo_def nth_append)
  moreover have "fmt_08x (word_of_int (fm_mtime m)) ! 0 \<in> set (fmt_08x (word_of_int (fm_mtime m)))"
    by (rule nth_mem) simp
  then have "fmt_08x (word_of_int (fm_mtime m)) ! 0 \<noteq> 0"
    using fmt_08x_bytes by blast
  ultimately have "marshalFinfo m fpt ! 0 \<noteq> 0" by simp
  then show ?thesis by (simp add: isFinfoEOB_def) (simp add: marshalFinfo_def)
qed

lemma isFinfoEOB_EOB [simp]: "isFinfoEOB finfoEOB"
  by (simp add: isFinfoEOB_def finfoEOB_def)

text \<open>
  Property C33. FINFO round trip: the receiver reads back the name, the counts and the path
  exactly when FPT is on and the path differs from the name, and time and size modulo
  \<open>2 ^ 32\<close>; and no announcement of a file is taken for the end of the batch.
\<close>

theorem finfo_roundtrip:
  assumes "fm_name m \<noteq> []" and "0 \<notin> set (fm_name m)" and "0 \<notin> set (fm_path m)"
  shows "parseFinfo (marshalFinfo m fpt) =
      Inr (m\<lparr>fm_mtime := fm_mtime m mod 2 ^ 32, fm_size := fm_size m mod 2 ^ 32,
             fm_path := (if fpt \<and> fm_path m \<noteq> fm_name m then fm_path m else [])\<rparr>)
    \<and> \<not> isFinfoEOB (marshalFinfo m fpt)"
  by (simp add: parseFinfo_marshal [OF assms] marshalFinfo_not_EOB)

theorem finfo_roundtrip_witness:
  "parseFinfo (marshalFinfo \<lparr>fm_mtime = 1000, fm_size = 2 ^ 32 + 5, fm_txid = 0, fm_count = 3,
      fm_name = str ''a'', fm_path = str ''/b/a''\<rparr> True)
    = Inr \<lparr>fm_mtime = 1000, fm_size = 5, fm_txid = 0, fm_count = 3, fm_name = str ''a'', fm_path = str ''/b/a''\<rparr>
   \<and> \<not> isFinfoEOB (marshalFinfo \<lparr>fm_mtime = 1000, fm_size = 2 ^ 32 + 5, fm_txid = 0, fm_count = 3,
      fm_name = str ''a'', fm_path = str ''/b/a''\<rparr> True)"
  using finfo_roundtrip [of "\<lparr>fm_mtime = 1000, fm_size = 2 ^ 32 + 5, fm_txid = 0, fm_count = 3,
      fm_name = str ''a'', fm_path = str ''/b/a''\<rparr>" True] by simp

end
