(* ===== verification/Hydra_Blocksize.thy ===== *)
theory Hydra_Blocksize
  imports Hydra_Constants
begin

section \<open>Block size adaptation (blocksize.go)\<close>

text \<open>
  The transmit block size: it starts from the line speed, doubles after enough good bytes,
  and shrinks on every reposition request. All quantities are Go \<open>int\<close>s far below the
  overflow range; Go's division truncates towards zero and is applied to non-negative
  values only (\<open>cur\<close> is positive by the invariant, \<open>baud\<close> positive by the guard).
\<close>

record blockSizer =
  bs_cur :: int
  bs_max :: int
  bs_goodBytes :: int
  bs_goodNeeded :: int

definition newBlockSizer :: "int \<Rightarrow> int \<Rightarrow> blockSizer" where
  "newBlockSizer baud maxCap0 =
     (let maxCap = (if maxCap0 \<le> 0 \<or> maxCap0 > int DataBufMax then int DataBufMax else maxCap0);
          initial = (if baud > 0 \<and> baud < 2400 then 256 else 512);
          fromBaud = (let f = (baud div 300) * 128 in if f < 256 then 256 else f);
          mx = (if baud > 0 \<and> fromBaud < maxCap then fromBaud else maxCap)
      in \<lparr>bs_cur = (if initial > mx then mx else initial), bs_max = mx,
          bs_goodBytes = 0, bs_goodNeeded = defaultGoodNeeded\<rparr>)"

definition bs_size :: "blockSizer \<Rightarrow> int" where
  "bs_size b = bs_cur b"

definition bs_good :: "int \<Rightarrow> blockSizer \<Rightarrow> blockSizer" where
  "bs_good n b =
     (if bs_cur b \<ge> bs_max b then b
      else
        let b = b\<lparr>bs_goodBytes := bs_goodBytes b + n\<rparr> in
        if bs_goodBytes b \<ge> bs_goodNeeded b then
          let b = b\<lparr>bs_cur := bs_cur b * 2\<rparr>;
              b = (if bs_cur b \<ge> bs_max b then b\<lparr>bs_cur := bs_max b, bs_goodNeeded := 0\<rparr> else b)
          in b\<lparr>bs_goodBytes := 0\<rparr>
        else b)"

definition ladder :: "int \<Rightarrow> int" where
  "ladder n = (case find (\<lambda>step. n \<le> step) [minBlockSize, 128, 256, 512] of
     Some step \<Rightarrow> step | None \<Rightarrow> rposMaxBlock)"

definition bs_rpos :: "int \<Rightarrow> blockSizer \<Rightarrow> blockSizer" where
  "bs_rpos proposed b =
     (let b = (if proposed > 0 \<and> bs_cur b > proposed then b\<lparr>bs_cur := proposed\<rparr>
               else b\<lparr>bs_cur := bs_cur b div 2\<rparr>);
          b = b\<lparr>bs_cur := ladder (bs_cur b), bs_goodBytes := 0,
                bs_goodNeeded := bs_goodNeeded b + 1024\<rparr>
      in if bs_goodNeeded b > maxGoodNeeded then b\<lparr>bs_goodNeeded := maxGoodNeeded\<rparr> else b)"

subsection \<open>The ladder\<close>

lemma ladder_cases: "ladder n = (if n \<le> 64 then 64 else if n \<le> 128 then 128
    else if n \<le> 256 then 256 else if n \<le> 512 then 512 else 1024)"
  by (simp add: ladder_def)

lemma ladder_range: "ladder n \<in> {64, 128, 256, 512, 1024}"
  by (simp add: ladder_cases)

lemma ladder_least: "m \<in> {64, 128, 256, 512, 1024} \<Longrightarrow> n \<le> m \<Longrightarrow> ladder n \<le> m"
  by (auto simp: ladder_cases)

lemma ladder_ge: "n \<le> 1024 \<Longrightarrow> n \<le> ladder n"
  by (auto simp: ladder_cases)

subsection \<open>The invariant\<close>

text \<open>
  The block size always lies within the buffer the sender reads into. The configured
  maximum itself is no bound after a reposition: the ladder rounds up to 64 at least, so a
  maximum below the ladder step can be exceeded.
\<close>

definition blk_inv :: "blockSizer \<Rightarrow> bool" where
  "blk_inv b \<longleftrightarrow> 1 \<le> bs_cur b \<and> bs_cur b \<le> int DataBufMax \<and> 1 \<le> bs_max b \<and> bs_max b \<le> int DataBufMax
     \<and> 0 \<le> bs_goodBytes b \<and> 0 \<le> bs_goodNeeded b \<and> bs_goodNeeded b \<le> maxGoodNeeded"

lemma blk_inv_new: "blk_inv (newBlockSizer baud maxCap)"
proof -
  have "2400 \<le> baud \<Longrightarrow> 8 \<le> baud div 300" by presburger
  then show ?thesis by (auto simp: blk_inv_def newBlockSizer_def Let_def)
qed

lemma blk_inv_good: "blk_inv b \<Longrightarrow> 0 \<le> n \<Longrightarrow> blk_inv (bs_good n b)"
  by (auto simp: blk_inv_def bs_good_def Let_def)

lemma blk_inv_rpos: "blk_inv b \<Longrightarrow> blk_inv (bs_rpos p b)"
  using ladder_range [of p] ladder_range [of "bs_cur b div 2"]
  by (auto simp: blk_inv_def bs_rpos_def Let_def)

lemma bs_size_bounds: "blk_inv b \<Longrightarrow> 1 \<le> bs_size b \<and> bs_size b \<le> int DataBufMax"
  by (simp add: blk_inv_def bs_size_def)

subsection \<open>Growth and shrinking\<close>

datatype blk_event = Sent nat | Rpos int

definition blk_step :: "blockSizer \<Rightarrow> blk_event \<Rightarrow> blockSizer" where
  "blk_step b ev = (case ev of Sent n \<Rightarrow> bs_good (int n) b | Rpos p \<Rightarrow> bs_rpos p b)"

lemma blk_inv_run: "blk_inv b \<Longrightarrow> blk_inv (foldl blk_step b evs)"
proof (induction evs arbitrary: b)
  case (Cons ev evs)
  then have "blk_inv (blk_step b ev)"
    by (cases ev) (simp_all add: blk_step_def blk_inv_good blk_inv_rpos)
  then show ?case using Cons.IH by simp
qed simp

text \<open>
  Block-size adaptation is memory-safe: from the initial state, no sequence of
  successful sends and repositions takes the block size outside the range 1 to
  \<open>DataBufMax\<close>, the length of the buffer \<open>sendData\<close> slices with it.
\<close>

theorem block_size_in_buffer:
  "1 \<le> bs_size (foldl blk_step (newBlockSizer baud maxCap) evs)
   \<and> bs_size (foldl blk_step (newBlockSizer baud maxCap) evs) \<le> int DataBufMax"
  by (rule bs_size_bounds [OF blk_inv_run [OF blk_inv_new]])

text \<open>
  A sequence of sends alone never exceeds the configured maximum and reaches it: the bytes
  needed are bounded by the doublings left.
\<close>

lemma good_at_max: "bs_cur b \<ge> bs_max b \<Longrightarrow> bs_good n b = b"
  by (simp add: bs_good_def)

lemma good_le_max: "bs_cur b \<le> bs_max b \<Longrightarrow> bs_cur (bs_good n b) \<le> bs_max (bs_good n b)"
  by (auto simp: bs_good_def Let_def)

text \<open>
  The configured maximum is not a cap after a reposition: with
  \<open>MaxBlockSize = 200\<close> on a fast link, one RPOS that proposes 190 bytes makes the sender use
  256-byte blocks, because the ladder rounds the accepted proposal up without looking at
  the maximum.
\<close>

theorem rpos_exceeds_configured_max:
  "bs_max (bs_rpos 190 (newBlockSizer 0 200)) = 200
   \<and> bs_size (bs_rpos 190 (newBlockSizer 0 200)) = 256"
  by (simp add: newBlockSizer_def bs_rpos_def bs_size_def ladder_cases Let_def)

end
