(* ===== verification/Hydra_Config.thy ===== *)
theory Hydra_Config
  imports Hydra_Packet Hydra_Errors
begin

unbundle bit_operations_syntax

section \<open>Configuration and file descriptions (hydra.go)\<close>

text \<open>
  The exported data types, the configuration with its defaults, the two capability sets the
  local side offers, and the file name sanitiser. A \<open>nil\<close> configuration is \<open>None\<close>.
  Durations are nanoseconds. A \<open>time.Time\<close> is observed only through \<open>IsZero\<close> and \<open>Unix\<close>,
  so it is \<open>None\<close> (zero) or the Unix seconds. The logger is left out: it only observes.
\<close>

record FileInfo =
  fi_Name :: gostring
  fi_Path :: gostring
  fi_Size :: int
  fi_ModTime :: "int option"
  fi_FileNum :: int
  fi_FileTotal :: int

record Config =
  cf_Originator :: bool
  cf_EffectiveBaud :: int
  cf_AppID :: gostring
  cf_Supported :: "gostring list"
  cf_Desired :: "gostring list"
  cf_TxWindowBytes :: int
  cf_RxWindowBytes :: int
  cf_Timeout :: int
  cf_BrainDead :: int
  cf_MaxRetries :: int
  cf_MaxBlockSize :: int
  cf_Closer :: bool
  cf_idleOverride :: int

definition zeroConfig :: Config where
  "zeroConfig = \<lparr>cf_Originator = False, cf_EffectiveBaud = 0, cf_AppID = [], cf_Supported = [],
     cf_Desired = [], cf_TxWindowBytes = 0, cf_RxWindowBytes = 0, cf_Timeout = 0, cf_BrainDead = 0,
     cf_MaxRetries = 0, cf_MaxBlockSize = 0, cf_Closer = False, cf_idleOverride = 0\<rparr>"

definition defaultAppID :: gostring where
  "defaultAppID = fmt_08x hydraRevstamp @ str ''gohydra,0.1''"

definition default_timeout :: "int \<Rightarrow> int" where
  \<comment> \<open>the \<open>Timeout <= 0\<close> branch\<close>
  "default_timeout baud =
     (if baud > 0 then
        (let calc = (40960 div baud) * time_Second;
             t = (if calc > defaultTimeout then calc else defaultTimeout)
         in if t > maxTimeout then maxTimeout else t)
      else defaultTimeout)"

definition defaults :: "Config option \<Rightarrow> Config" where
  "defaults c0 =
     (let c = (case c0 of None \<Rightarrow> zeroConfig | Some c \<Rightarrow> c);
          c = (if cf_AppID c = [] then c\<lparr>cf_AppID := defaultAppID\<rparr> else c);
          c = (if cf_MaxBlockSize c \<le> 0 \<or> cf_MaxBlockSize c > int DataBufMax
               then c\<lparr>cf_MaxBlockSize := int DataBufMax\<rparr> else c);
          c = (if cf_MaxRetries c \<le> 0 then c\<lparr>cf_MaxRetries := defaultMaxRetries\<rparr> else c);
          c = (if cf_BrainDead c \<le> 0 then c\<lparr>cf_BrainDead := defaultBrainDead\<rparr> else c);
          c = (if cf_Timeout c \<le> 0 then c\<lparr>cf_Timeout := default_timeout (cf_EffectiveBaud c)\<rparr> else c);
          c = (if cf_TxWindowBytes c < 0 then c\<lparr>cf_TxWindowBytes := 0\<rparr> else c)
      in if cf_RxWindowBytes c < 0 then c\<lparr>cf_RxWindowBytes := 0\<rparr> else c)"

definition localSupported :: "Config \<Rightarrow> u32" where
  "localSupported c =
     (let caps = (if length (cf_Supported c) > 0 then parseCaps (join_on 0x2C (cf_Supported c))
                  else capDefaultSupported)
      in caps AND NOT (capASC OR capUUE))"

definition localDesired :: "Config \<Rightarrow> u32" where
  "localDesired c =
     (if length (cf_Desired c) > 0
      then parseCaps (join_on 0x2C (cf_Desired c)) AND NOT (capASC OR capUUE)
      else capFPT)"

subsection \<open>File names\<close>

text \<open>\<open>strings.ReplaceAll\<close> of one byte by another, and \<open>filepath.Base\<close> on Unix.\<close>

definition replace_all :: "byte \<Rightarrow> byte \<Rightarrow> gostring \<Rightarrow> gostring" where
  "replace_all a b s = map (\<lambda>c. if c = a then b else c) s"

definition slash :: byte where [simp]: "slash = 0x2F"

definition path_base :: "gostring \<Rightarrow> gostring" where
  "path_base p =
     (if p = [] then [0x2E]
      else
        let stripped = rev (dropWhile (\<lambda>c. c = slash) (rev p));
            last_elem = rev (takeWhile (\<lambda>c. c \<noteq> slash) (rev stripped))
        in if last_elem = [] then [slash] else last_elem)"

definition SanitizeFilename :: "gostring \<Rightarrow> gostring" where
  "SanitizeFilename name0 =
     (let name = replace_all backslash slash name0;
          name = path_base name;
          name = replace_all 0 0x5F name
      in if name = [] \<or> name = [0x2E] \<or> name = [0x2E, 0x2E] then [0x5F] else name)"

definition txWireName :: "gostring \<Rightarrow> gostring" where
  "txWireName name = replace_all 0x20 0x5F (SanitizeFilename name)"

subsection \<open>Lemmas on the defaults\<close>

lemma default_timeout_range: "defaultTimeout \<le> default_timeout baud \<and> default_timeout baud \<le> maxTimeout"
  by (simp add: default_timeout_def Let_def)

lemma defaultAppID_nonempty: "defaultAppID \<noteq> []"
  by (simp add: defaultAppID_def)

lemma defaultAppID_text: "0 \<notin> set defaultAppID"
  using fmt_08x_bytes [of 0 hydraRevstamp] by (auto simp: defaultAppID_def)

text \<open>What the rest of the program relies on in a configuration that went through \<open>defaults\<close>.\<close>

definition config_ok :: "Config \<Rightarrow> bool" where
  "config_ok c \<longleftrightarrow> cf_AppID c \<noteq> [] \<and> 1 \<le> cf_MaxBlockSize c \<and> cf_MaxBlockSize c \<le> int DataBufMax
     \<and> 1 \<le> cf_MaxRetries c \<and> 0 < cf_BrainDead c \<and> 0 < cf_Timeout c
     \<and> 0 \<le> cf_TxWindowBytes c \<and> 0 \<le> cf_RxWindowBytes c"

lemma config_ok_defaults: "config_ok (defaults c)"
  using default_timeout_range
  by (auto simp: config_ok_def defaults_def Let_def defaultAppID_nonempty not_le
      intro: less_le_trans [of 0 "10 * 1000000000::int"])

lemma defaults_fixed: "config_ok c \<Longrightarrow> defaults (Some c) = c"
  by (simp add: config_ok_def defaults_def Let_def)

subsection \<open>Lemmas on the capability sets\<close>

lemma no_asc_uue: "\<not> has (caps AND NOT (capASC OR capUUE)) capASC" "\<not> has (caps AND NOT (capASC OR capUUE)) capUUE"
proof -
  show "\<not> has (caps AND NOT (capASC OR capUUE)) capASC"
    by (simp add: has_def, rule bit_word_eqI) (auto simp: bit_simps)
  show "\<not> has (caps AND NOT (capASC OR capUUE)) capUUE"
    by (simp add: has_def, rule bit_word_eqI) (auto simp: bit_simps)
qed

lemma localSupported_no_asc: "\<not> has (localSupported c) capASC \<and> \<not> has (localSupported c) capUUE"
  unfolding localSupported_def Let_def using no_asc_uue by blast

lemma localDesired_no_asc: "\<not> has (localDesired c) capASC \<and> \<not> has (localDesired c) capUUE"
proof (cases "length (cf_Desired c) > 0")
  case True
  then show ?thesis unfolding localDesired_def using no_asc_uue by simp
next
  case False
  then show ?thesis by (simp add: localDesired_def has_def cap_defs)
qed

subsection \<open>Lemmas on file names\<close>

lemma set_replace_all: "set (replace_all a b s) = (\<lambda>c. if c = a then b else c) ` set s"
  by (simp add: replace_all_def)

lemma replace_all_gone: "a \<noteq> b \<Longrightarrow> a \<notin> set (replace_all a b s)"
  by (auto simp: set_replace_all)

lemma replace_all_other: "c \<noteq> a \<Longrightarrow> c \<noteq> b \<Longrightarrow> c \<in> set (replace_all a b s) \<longleftrightarrow> c \<in> set s"
  by (auto simp: set_replace_all split: if_splits)

lemma replace_all_Nil [simp]: "replace_all a b s = [] \<longleftrightarrow> s = []"
  by (simp add: replace_all_def)

lemma dropWhile_all: "dropWhile P xs = [] \<longleftrightarrow> (\<forall>x \<in> set xs. P x)"
  by (simp add: dropWhile_eq_Nil_conv)

lemma path_base_nonempty: "path_base p \<noteq> []"
  by (simp add: path_base_def Let_def)

lemma path_base_only_slashes: "p \<noteq> [] \<Longrightarrow> \<forall>c \<in> set p. c = slash \<Longrightarrow> path_base p = [slash]"
proof -
  assume "p \<noteq> []" "\<forall>c \<in> set p. c = slash"
  moreover from this have "dropWhile (\<lambda>c. c = slash) (rev p) = []"
    unfolding dropWhile_all by simp
  ultimately show ?thesis by (simp add: path_base_def del: dropWhile_eq_Nil_conv)
qed

lemma path_base_no_slash:
  assumes "p = [] \<or> (\<exists>c \<in> set p. c \<noteq> slash)"
  shows "slash \<notin> set (path_base p)"
proof (cases "p = []")
  case False
  let ?q = "dropWhile (\<lambda>c. c = slash) (rev p)"
  have "?q \<noteq> []" using assms False dropWhile_all [of "\<lambda>c. c = slash" "rev p"] by auto
  moreover from this have "hd ?q \<noteq> slash" using hd_dropWhile [of "\<lambda>c. c = slash" "rev p"] by blast
  ultimately have "takeWhile (\<lambda>c. c \<noteq> slash) ?q \<noteq> []" by (cases ?q) auto
  moreover have "slash \<notin> set (takeWhile (\<lambda>c. c \<noteq> slash) ?q)"
    using set_takeWhileD [of slash "\<lambda>c. c \<noteq> slash" ?q] by blast
  ultimately show ?thesis using False by (simp add: path_base_def)
qed (simp add: path_base_def)

lemma path_base_set: "c \<in> set (path_base p) \<Longrightarrow> c = 0x2E \<or> c = slash \<or> c \<in> set p"
  by (auto simp: path_base_def Let_def split: if_splits dest!: set_takeWhileD set_dropWhileD)

definition only_separators :: "gostring \<Rightarrow> bool" where
  "only_separators name \<longleftrightarrow> name \<noteq> [] \<and> (\<forall>c \<in> set name. c = slash \<or> c = backslash)"

lemma Sanitize_separators:
  assumes "only_separators name"
  shows "SanitizeFilename name = [slash]"
proof -
  have "path_base (replace_all backslash slash name) = [slash]"
    using assms by (intro path_base_only_slashes) (auto simp: only_separators_def set_replace_all)
  then show ?thesis by (simp add: SanitizeFilename_def Let_def replace_all_def)
qed

lemma Sanitize_chars:
  "c \<in> set (SanitizeFilename name) \<Longrightarrow> c \<noteq> 0 \<and> c \<noteq> backslash \<and> (c = slash \<longrightarrow> only_separators name)"
proof -
  let ?p = "replace_all backslash slash name"
  assume "c \<in> set (SanitizeFilename name)"
  then consider "c = 0x5F" | "c \<in> set (replace_all 0 0x5F (path_base ?p))"
    by (auto simp: SanitizeFilename_def Let_def split: if_splits)
  then show ?thesis
  proof cases
    case 2
    then have "c \<noteq> 0" using replace_all_gone [of 0 "0x5F"] by auto
    with 2 have c: "c = 0x5F \<or> c \<in> set (path_base ?p)" using replace_all_other by blast
    have "backslash \<notin> set ?p" by (rule replace_all_gone) simp
    then have "backslash \<notin> set (path_base ?p)" using path_base_set by fastforce
    moreover have "slash \<in> set (path_base ?p) \<Longrightarrow> only_separators name"
      using path_base_no_slash [of ?p]
      by (fastforce simp: only_separators_def set_replace_all split: if_splits)
    ultimately show ?thesis using c \<open>c \<noteq> 0\<close> by auto
  qed simp
qed

lemma Sanitize_not_special:
  "SanitizeFilename name \<noteq> [] \<and> SanitizeFilename name \<noteq> [0x2E] \<and> SanitizeFilename name \<noteq> [0x2E, 0x2E]"
  by (simp add: SanitizeFilename_def Let_def)

lemma txWireName_ok: "txWireName name \<noteq> [] \<and> 0 \<notin> set (txWireName name) \<and> 0x20 \<notin> set (txWireName name)"
proof -
  have "0 \<notin> set (SanitizeFilename name)" using Sanitize_chars by blast
  then show ?thesis
    using Sanitize_not_special [of name] replace_all_other [of 0 "0x20" "0x5F" "SanitizeFilename name"]
      replace_all_gone [of "0x20" "0x5F"] by (simp add: txWireName_def)
qed

subsection \<open>The properties\<close>

text \<open>
  Property C34. The defaults always give a usable configuration (block size within the
  buffer, at least one retry, positive timers, windows not negative, an application id),
  they leave such a configuration alone, and a derived timeout lies between 10 and 60
  seconds.
\<close>

theorem defaults_complete:
  "config_ok (defaults c) \<and> defaults (Some (defaults c)) = defaults c
   \<and> default_timeout baud \<in> {10 * time_Second..60 * time_Second}"
  using config_ok_defaults [of c] defaults_fixed [OF config_ok_defaults] default_timeout_range [of baud]
  by simp

text \<open>
  The local side never offers and never asks for ASC or UUE, whatever the
  application configures, so neither encoder is ever selected for a frame it sends under
  options within what it supports.
\<close>

theorem never_offers_asc_uue:
  "\<not> has (localSupported c) capASC \<and> \<not> has (localSupported c) capUUE
   \<and> \<not> has (localDesired c) capASC \<and> \<not> has (localDesired c) capUUE"
  using localSupported_no_asc localDesired_no_asc by blast

text \<open>
  Property C35. What \<open>SanitizeFilename\<close> returns never is empty, \<open>.\<close> or \<open>..\<close>, never holds a
  NUL or a backslash, and holds a slash only in one case: a name that consists of
  separators only becomes the name \<open>/\<close>. The comment of the function promises that
  separators are replaced; for that case they are not.
\<close>

theorem SanitizeFilename_spec:
  "SanitizeFilename name \<notin> {[], [0x2E], [0x2E, 0x2E]}
   \<and> 0 \<notin> set (SanitizeFilename name) \<and> backslash \<notin> set (SanitizeFilename name)
   \<and> (slash \<in> set (SanitizeFilename name) \<longleftrightarrow> only_separators name)
   \<and> (only_separators name \<longleftrightarrow> SanitizeFilename name = [slash])"
  using Sanitize_not_special [of name] Sanitize_chars [of _ name] Sanitize_separators [of name]
  by (metis empty_iff insert_iff list.set_intros(1))

end
