(* ===== verification/Hydra_Batch.thy ===== *)
theory Hydra_Batch
  imports Hydra_Inbox Hydra_Fileinfo Hydra_Blocksize Hydra_Config
begin

section \<open>The session and batch state (session.go, hydra.go)\<close>

text \<open>
  The state all handlers work on and the outside world they talk to. Go's \<open>batch\<close> holds a
  pointer to its \<open>Session\<close>; here the record \<open>batch\<close> extends the record \<open>session\<close>, so both
  sides see one store. User code, the transport and the clock are the record \<open>env\<close> of
  functions, arbitrary in every theorem: an answer may depend on everything observable that
  happened before, which is the event log \<open>s_log\<close>. A packet taken from the inbox, a call of
  user code, a transport write and their results are events of the log, in order. Every reading of the clock and every
  look at what other goroutines did takes a fresh index, so two readings never have to agree.
\<close>

subsection \<open>State enumerations\<close>

datatype txState = htxStart | htxSwait | htxInit | htxInitAck | htxRinit | htxFinfo | htxFinfoAck
  | htxXdata | htxDataAck | htxXwait | htxEOF | htxEOFAck | htxRend | htxEnd | htxEndAck | htxDone

datatype rxState = hrxInit | hrxFinfo | hrxData | hrxDone

datatype devState = htdDone | htdData | htdDack

text \<open>The order of the transmit states is the numeric order of the Go constants.\<close>

primrec tx_rank :: "txState \<Rightarrow> nat" where
  "tx_rank htxStart = 0" | "tx_rank htxSwait = 1" | "tx_rank htxInit = 2" | "tx_rank htxInitAck = 3"
| "tx_rank htxRinit = 4" | "tx_rank htxFinfo = 5" | "tx_rank htxFinfoAck = 6" | "tx_rank htxXdata = 7"
| "tx_rank htxDataAck = 8" | "tx_rank htxXwait = 9" | "tx_rank htxEOF = 10" | "tx_rank htxEOFAck = 11"
| "tx_rank htxRend = 12" | "tx_rank htxEnd = 13" | "tx_rank htxEndAck = 14" | "tx_rank htxDone = 15"

lemma tx_rank_inj: "tx_rank x = tx_rank y \<Longrightarrow> x = y"
  by (cases x; cases y; simp)

instantiation txState :: linorder
begin

definition less_eq_txState :: "txState \<Rightarrow> txState \<Rightarrow> bool" where
  "less_eq_txState x y \<longleftrightarrow> tx_rank x \<le> tx_rank y"

definition less_txState :: "txState \<Rightarrow> txState \<Rightarrow> bool" where
  "less_txState x y \<longleftrightarrow> tx_rank x < tx_rank y"

instance
  by standard (auto simp: less_eq_txState_def less_txState_def intro: tx_rank_inj)

end

lemmas tx_order = less_eq_txState_def less_txState_def

subsection \<open>What the application and the transport supply\<close>

text \<open>
  An offered file. \<open>fo_Reader\<close> names the data source (\<open>None\<close> for a nil \<open>Reader\<close>),
  \<open>fo_Seeker\<close> says that it implements \<open>io.Seeker\<close>, \<open>fo_Close\<close> that the hook is not nil and
  has not run.
\<close>

record FileOffer =
  fo_Name :: gostring
  fo_Path :: gostring
  fo_Size :: int
  fo_ModTime :: "int option"
  fo_Reader :: "nat option"
  fo_Seeker :: bool
  fo_Close :: bool

datatype event =
    EvRecv packet
  | EvSend sent "err option"
  | EvRaw "byte list" "err option"
  | EvNextFile "FileOffer option"
  | EvOfferClose FileOffer
  | EvRead nat "byte list" "err option"
  | EvSeek nat int "err option"
  | EvSendProgress FileInfo int
  | EvSendCompleted FileInfo int "err option"
  | EvAccept FileInfo "nat option" int "err option"
  | EvWrite nat "byte list" "err option"
  | EvWriterClose nat
  | EvRecvProgress FileInfo int
  | EvRecvCompleted FileInfo int "err option"
  | EvDevice gostring "byte list"
  | EvTransportClose

text \<open>
  What other goroutines do: the reader queues a packet or reports an error, the application
  calls \<open>SendDevice\<close>, \<open>Abort\<close> or \<open>Close\<close>, the context ends.
\<close>

datatype outside =
    OutPacket packet
  | OutReadErr err
  | OutDevice gostring "byte list"
  | OutAbort
  | OutClose
  | OutCtx err

datatype wake = WakeInbox | WakeDev | WakeTimer | WakeReadErr | WakeAbort | WakeCtx

text \<open>
  The outside world. \<open>en_source\<close> is what the data source yields from its current position
  before it stops, with the error that stopped it; \<open>read_full\<close> takes what was requested. \<open>en_wake\<close> is the choice of the \<open>select\<close> of \<open>pump\<close> among its ready channels,
  \<open>en_hasDev\<close> says that a device handler is bound, \<open>en_closable\<close> that the transport
  implements \<open>io.Closer\<close>.
\<close>

record env =
  en_now :: "nat \<Rightarrow> int"
  en_outside :: "nat \<Rightarrow> outside list"
  en_wake :: "nat \<Rightarrow> wake"
  en_write :: "event list \<Rightarrow> err option"
  en_nextFile :: "event list \<Rightarrow> FileOffer option"
  en_source :: "event list \<Rightarrow> nat \<Rightarrow> nat \<Rightarrow> byte list \<times> err"
  en_seek :: "event list \<Rightarrow> nat \<Rightarrow> int \<Rightarrow> err option"
  en_accept :: "event list \<Rightarrow> FileInfo \<Rightarrow> nat option \<times> int \<times> err option"
  en_writeFile :: "event list \<Rightarrow> nat \<Rightarrow> byte list \<Rightarrow> err option"
  en_hasDev :: bool
  en_closable :: bool

subsection \<open>The session\<close>

text \<open>
  \<open>s_aborted\<close> says that \<open>abortCh\<close> is closed, \<open>s_err\<close> is what \<open>errOnce\<close> recorded, \<open>s_closed\<close>
  that \<open>closeOnce\<close> ran, \<open>s_readerDone\<close> that the reader goroutine has exited, \<open>s_readErr\<close> the content of the one-slot channel \<open>readErr\<close>,
  \<open>s_ctx\<close> what \<open>ctx.Err()\<close> returns. \<open>s_clk\<close> is the index of the next look at the world.
\<close>

record session =
  s_config :: Config
  s_rxOpts :: u32
  s_effOpts :: u32
  s_negotiated :: bool
  s_inbox :: inbox
  s_readErr :: "err option"
  s_readerDone :: bool
  s_devQ :: "devRequest list"
  s_aborted :: bool
  s_err :: "err option"
  s_started :: bool
  s_runActive :: bool
  s_closerSet :: bool
  s_closed :: bool
  s_ctx :: "err option"
  s_clk :: nat
  s_log :: "event list"

subsection \<open>The batch\<close>

record batch = session +
  b_opts :: u32
  b_txWindow :: int
  b_rxWindow :: int
  b_prefix :: gostring
  b_productive :: bool
  b_txTimer :: "int option"
  b_devTimer :: "int option"
  b_braindead :: "int option"
  b_txState :: txState
  b_txRetries :: int
  b_txSyncID :: u32
  b_blk :: blockSizer
  b_txLastAck :: int
  b_peerAcked :: bool
  b_hdxlink :: bool
  b_txOffer :: "FileOffer option"
  b_txReader :: "nat option"
  b_txSeeker :: "nat option"
  b_txInfo :: FileInfo
  b_txPos :: int
  b_txSkip :: bool
  b_txErr :: "err option"
  b_txEOB :: bool
  b_lastFinfo :: "byte list option"
  b_filesSent :: int
  b_batchEnded :: bool
  b_finfoAckWait :: bool
  b_eofAckWait :: bool
  b_rxState :: rxState
  b_filesRcvd :: int
  b_lastRefusedFinfo :: "byte list option"
  b_lastRefusedAck :: int
  b_rxWriter :: "nat option"
  b_rxOpen :: bool
  b_rxInfo :: FileInfo
  b_rxPos :: int
  b_rxRetries :: int
  b_rxSyncID :: u32
  b_rxLastSync :: int
  b_rxTimer :: "int option"
  b_rxBlkLen :: int
  b_devState :: devState
  b_devRetries :: int
  b_devTxID :: u32
  b_devRxID :: u32
  b_devPending :: "devDataPkt option"
  b_devQueue :: "devDataPkt list"

definition zeroInfo :: FileInfo where
  "zeroInfo = \<lparr>fi_Name = [], fi_Path = [], fi_Size = 0, fi_ModTime = None, fi_FileNum = 0, fi_FileTotal = 0\<rparr>"

definition newBatch :: "session \<Rightarrow> batch" where
  "newBatch s =
     (let cfg = s_config s;
          initialBlk = (if cf_EffectiveBaud cfg > 0 \<and> cf_EffectiveBaud cfg < 2400 then 256 else 512)
      in session.extend s
       \<lparr>b_opts = 0, b_txWindow = 0, b_rxWindow = 0, b_prefix = [], b_productive = False,
        b_txTimer = None, b_devTimer = None, b_braindead = None,
        b_txState = htxStart, b_txRetries = 0, b_txSyncID = 0,
        b_blk = newBlockSizer (cf_EffectiveBaud cfg) (cf_MaxBlockSize cfg),
        b_txLastAck = 0, b_peerAcked = False, b_hdxlink = False, b_txOffer = None, b_txReader = None,
        b_txSeeker = None, b_txInfo = zeroInfo, b_txPos = 0, b_txSkip = False, b_txErr = None,
        b_txEOB = False, b_lastFinfo = None, b_filesSent = 0, b_batchEnded = False,
        b_finfoAckWait = False, b_eofAckWait = False,
        b_rxState = hrxInit, b_filesRcvd = 0, b_lastRefusedFinfo = None, b_lastRefusedAck = 0,
        b_rxWriter = None, b_rxOpen = False, b_rxInfo = zeroInfo, b_rxPos = 0, b_rxRetries = 0,
        b_rxSyncID = 0, b_rxLastSync = 0, b_rxTimer = None, b_rxBlkLen = initialBlk,
        b_devState = htdDone, b_devRetries = 0, b_devTxID = 0, b_devRxID = 0, b_devPending = None,
        b_devQueue = []\<rparr>)"

subsection \<open>Effects\<close>

definition emit :: "event \<Rightarrow> 'a session_scheme \<Rightarrow> 'a session_scheme" where
  "emit e b = b\<lparr>s_log := s_log b @ [e]\<rparr>"

definition time_now :: "env \<Rightarrow> 'a session_scheme \<Rightarrow> int" where
  "time_now E b = en_now E (s_clk b)"

definition tick :: "'a session_scheme \<Rightarrow> 'a session_scheme" where
  "tick b = b\<lparr>s_clk := Suc (s_clk b)\<rparr>"

text \<open>A handler's result: the state and the error it returns, if any.\<close>

type_synonym outcome = "batch \<times> err option"

definition fine :: "batch \<Rightarrow> outcome" where "fine b = (b, None)"

definition failed :: "err \<Rightarrow> batch \<Rightarrow> outcome" where "failed e b = (b, Some e)"

text \<open>\<open>if err := ...; err != nil { return err }\<close> and the statements after it.\<close>

definition andThen :: "outcome \<Rightarrow> (batch \<Rightarrow> outcome) \<Rightarrow> outcome" where
  "andThen r f = (case r of (b, None) \<Rightarrow> f b | (b, Some e) \<Rightarrow> (b, Some e))"

lemma andThen_simps [simp]:
  "andThen (b, None) f = f b"
  "andThen (b, Some e) f = (b, Some e)"
  "andThen (fine b) f = f b"
  "andThen (failed e b) f = failed e b"
  by (simp_all add: andThen_def fine_def failed_def)

definition writer_write :: "env \<Rightarrow> sent \<Rightarrow> batch \<Rightarrow> outcome" where
  \<comment> \<open>\<open>transportWriter.writePacket\<close>: the frame \<open>sent_bytes\<close> in one transport write\<close>
  "writer_write E s b = (let r = en_write E (s_log b) in (emit (EvSend s r) b, r))"

definition batch_write :: "env \<Rightarrow> byte \<Rightarrow> byte list \<Rightarrow> batch \<Rightarrow> outcome" where
  "batch_write E t p b =
     writer_write E \<lparr>sn_packet = \<lparr>pkt_typ = t, pkt_payload = p\<rparr>, sn_opts = b_opts b, sn_prefix = b_prefix b\<rparr> b"

definition writeRaw :: "env \<Rightarrow> byte list \<Rightarrow> 'a session_scheme \<Rightarrow> 'a session_scheme \<times> err option" where
  "writeRaw E p b = (let r = en_write E (s_log b) in (emit (EvRaw p r) b, r))"

definition set_txTimer :: "env \<Rightarrow> int \<Rightarrow> batch \<Rightarrow> batch" where
  \<comment> \<open>\<open>b.txTimer = time.Now().Add(d)\<close>\<close>
  "set_txTimer E d b = tick (b\<lparr>b_txTimer := Some (time_now E b + d)\<rparr>)"

definition feedBraindead :: "env \<Rightarrow> batch \<Rightarrow> batch" where
  "feedBraindead E b = tick (b\<lparr>b_braindead := Some (time_now E b + cf_BrainDead (s_config b))\<rparr>)"

definition batch_idle :: "batch \<Rightarrow> int" where
  "batch_idle b = (if cf_idleOverride (s_config b) > 0 then cf_idleOverride (s_config b) else idleInterval)"

definition armTx :: "env \<Rightarrow> batch \<Rightarrow> batch" where
  "armTx E b =
     (let d = cf_Timeout (s_config b)
      in set_txTimer E (if b_txRetries b > 0 then d div 2 else d) b)"

text \<open>\<open>io.ReadFull\<close> on a source that yields \<open>data\<close> before it stops with \<open>e\<close>.\<close>

definition read_full :: "byte list \<Rightarrow> err \<Rightarrow> nat \<Rightarrow> byte list \<times> err option" where
  "read_full data e n =
     (if length data \<ge> n then (take n data, None)
      else if e = IoEOF then (data, Some (if data = [] then IoEOF else IoUnexpectedEOF))
      else (data, Some e))"

lemma read_full_length: "length (fst (read_full data e n)) \<le> n"
  by (simp add: read_full_def)

lemmas effect_defs = emit_def time_now_def tick_def fine_def failed_def writer_write_def batch_write_def
  writeRaw_def set_txTimer_def feedBraindead_def armTx_def Let_def

end
