(* ===== verification/Hydra_Dev.thy ===== *)
theory Hydra_Dev
  imports Hydra_Batch
begin

unbundle bit_operations_syntax

section \<open>The device channel (dev.go)\<close>

text \<open>
  Datagrams beside the file transfer: each has an id, is retransmitted until its
  acknowledgement arrives, and is delivered once. A dereference of a nil \<open>devPending\<close>
  would panic; the branch is there, as the outcome \<open>PanicNil\<close>.
\<close>

definition queueDev :: "devRequest \<Rightarrow> batch \<Rightarrow> batch" where
  "queueDev req b =
     (let dev = (if length (dr_device req) > 3 then take 3 (dr_device req) else dr_device req);
          dev = dev @ replicate (3 - length dev) 0x20
      in b\<lparr>b_devQueue := b_devQueue b @ [\<lparr>dd_id = 0, dd_device = dev, dd_payload = dr_payload req\<rparr>]\<rparr>)"

definition devPromote :: "batch \<Rightarrow> batch" where
  \<comment> \<open>the first statement of \<open>devAction\<close>\<close>
  "devPromote b =
     (case b_devQueue b of
        next # rest \<Rightarrow>
          if b_devState b = htdDone \<and> b_devPending b = None then
            b\<lparr>b_devQueue := rest, b_devTxID := b_devTxID b + 1,
              b_devPending := Some (next\<lparr>dd_id := b_devTxID b + 1\<rparr>), b_devState := htdData\<rparr>
          else b
      | [] \<Rightarrow> b)"

definition devAction :: "env \<Rightarrow> batch \<Rightarrow> outcome" where
  "devAction E b0 =
     (let b = devPromote b0 in
      if b_devState b \<noteq> htdData then fine b
      else if b_txState b \<le> htxRinit \<or> b_txState b \<ge> htxEnd then fine b
      else if \<not> has (b_opts b) capDEV then fine (b\<lparr>b_devPending := None, b_devState := htdDone\<rparr>)
      else (case b_devPending b of
          None \<Rightarrow> failed PanicNil b
        | Some d \<Rightarrow>
            andThen (batch_write E pktDEVDATA (marshalDevData d) b) (\<lambda>b.
            fine ((tick (b\<lparr>b_devTimer := Some (time_now E b + cf_Timeout (s_config b))\<rparr>))
                    \<lparr>b_devState := htdDack\<rparr>))))"

definition devTimeout :: "batch \<Rightarrow> outcome" where
  "devTimeout b =
     (let b = b\<lparr>b_devRetries := b_devRetries b + 1\<rparr> in
      if b_devRetries b > cf_MaxRetries (s_config b) then failed ErrMaxRetries b
      else if b_devState b = htdDack then fine (b\<lparr>b_devState := htdData\<rparr>)
      else fine b)"

definition devRx :: "env \<Rightarrow> packet \<Rightarrow> batch \<Rightarrow> outcome" where
  "devRx E pkt b =
     (case parseDevData (pkt_payload pkt) of
        Inl _ \<Rightarrow> fine b
      | Inr d \<Rightarrow>
          (let b = (if dd_id d \<noteq> b_devRxID b then
                (let b = b\<lparr>b_devRxID := dd_id d\<rparr> in
                 if en_hasDev E then
                   emit (EvDevice (if length (dd_device d) > 3 then take 3 (dd_device d) else dd_device d)
                          (dd_payload d)) b
                 else b)
              else b)
           in batch_write E pktDEVDACK (marshalDevAck (b_devRxID b)) b))"

definition devDack :: "packet \<Rightarrow> batch \<Rightarrow> batch" where
  "devDack pkt b =
     (case parseDevAck (pkt_payload pkt) of
        Inl _ \<Rightarrow> b
      | Inr i \<Rightarrow>
          (case b_devPending b of
             None \<Rightarrow> b
           | Some d \<Rightarrow>
               if b_devState b = htdDack \<and> i = dd_id d then
                 b\<lparr>b_devPending := None, b_devRetries := 0, b_devTimer := None, b_devState := htdDone\<rparr>
               else b))"

end
