(* ===== verification/Hydra_Tx.thy ===== *)
theory Hydra_Tx
  imports Hydra_Dev
begin

unbundle bit_operations_syntax

section \<open>The transmit machine (tx.go)\<close>

text \<open>
  One definition per method of \<open>tx.go\<close>. \<open>pullOffers\<close>, the loop of \<open>sendFinfo\<close> that asks
  \<open>NextFile\<close> until it gets a usable offer or nil, need not end (the application may offer
  unusable files forever), so it is a partial function whose value \<open>None\<close> means that it
  does not return, and \<open>sendFinfo\<close> and \<open>txAction\<close> inherit that.
\<close>

subsection \<open>Offers\<close>

definition offerInfo :: "FileOffer \<Rightarrow> FileInfo" where
  "offerInfo ofr = \<lparr>fi_Name = fo_Name ofr, fi_Path = fo_Path ofr, fi_Size = fo_Size ofr,
     fi_ModTime = fo_ModTime ofr, fi_FileNum = 0, fi_FileTotal = 0\<rparr>"

definition closeOffer :: "FileOffer \<Rightarrow> batch \<Rightarrow> batch" where
  "closeOffer ofr b = (if fo_Close ofr then emit (EvOfferClose ofr) b else b)"

definition closeTxOffer :: "batch \<Rightarrow> batch" where
  \<comment> \<open>\<open>closeOffer(b.txOffer)\<close>: the hook runs and is set to nil\<close>
  "closeTxOffer b =
     (case b_txOffer b of
        None \<Rightarrow> b
      | Some ofr \<Rightarrow> (closeOffer ofr b)\<lparr>b_txOffer := Some (ofr\<lparr>fo_Close := False\<rparr>)\<rparr>)"

definition sendCompleted :: "int \<Rightarrow> err option \<Rightarrow> batch \<Rightarrow> batch" where
  "sendCompleted n e b = emit (EvSendCompleted (b_txInfo b) n e) b"

definition rejectOffer :: "FileOffer \<Rightarrow> err \<Rightarrow> batch \<Rightarrow> batch" where
  "rejectOffer ofr e b = emit (EvSendCompleted (offerInfo ofr) 0 (Some e)) (closeOffer ofr b)"

partial_function (option) pullOffers :: "env \<Rightarrow> batch \<Rightarrow> batch option" where
  "pullOffers E b =
     (if b_txOffer b = None \<and> \<not> b_batchEnded b then
        (let ans = en_nextFile E (s_log b);
             b = emit (EvNextFile ans) b
         in case ans of
              None \<Rightarrow> Some (b\<lparr>b_batchEnded := True\<rparr>)
            | Some ofr \<Rightarrow>
                if fo_Size ofr < 0 \<or> fo_Size ofr > SafeMaxOffset then
                  pullOffers E (rejectOffer ofr ErrFileTooLarge b)
                else if fo_Reader ofr = None then
                  pullOffers E (rejectOffer ofr ErrHandlerContract b)
                else Some (b\<lparr>b_txOffer := Some ofr\<rparr>))
      else Some b)"

definition prepareFinfo :: "batch \<Rightarrow> batch" where
  "prepareFinfo b =
     (case b_txOffer b of
        None \<Rightarrow> b\<lparr>b_txEOB := True, b_lastFinfo := Some finfoEOB\<rparr>
      | Some ofr \<Rightarrow>
          b\<lparr>b_txEOB := False, b_txInfo := offerInfo ofr, b_txReader := fo_Reader ofr,
            b_txSeeker := (if fo_Seeker ofr then fo_Reader ofr else None),
            b_txPos := 0, b_txSkip := False, b_txErr := None,
            b_lastFinfo := Some (marshalFinfo
               \<lparr>fm_mtime = (case fo_ModTime ofr of None \<Rightarrow> 0 | Some t \<Rightarrow> t), fm_size = fo_Size ofr,
                fm_txid = 0, fm_count = 0, fm_name = txWireName (fo_Name ofr), fm_path = fo_Path ofr\<rparr>
               (has (b_opts b) capFPT))\<rparr>)"

definition sendFinfo :: "env \<Rightarrow> batch \<Rightarrow> outcome option" where
  "sendFinfo E b0 =
     (case (if b_lastFinfo b0 = None then map_option prepareFinfo (pullOffers E b0) else Some b0) of
        None \<Rightarrow> None
      | Some b \<Rightarrow> Some (batch_write E pktFINFO (case b_lastFinfo b of Some p \<Rightarrow> p | None \<Rightarrow> []) b))"

subsection \<open>Sending\<close>

definition local_init :: "Config \<Rightarrow> initPkt" where
  \<comment> \<open>what \<open>sendInit\<close> announces\<close>
  "local_init cfg =
     \<lparr>ip_appID = cf_AppID cfg, ip_supported = localSupported cfg, ip_desired = localDesired cfg,
      ip_txWindow = word_of_int (cf_TxWindowBytes cfg), ip_rxWindow = word_of_int (cf_RxWindowBytes cfg),
      ip_prefix = []\<rparr>"

definition sendInit :: "env \<Rightarrow> batch \<Rightarrow> outcome" where
  "sendInit E b =
     writer_write E
       \<lparr>sn_packet = \<lparr>pkt_typ = pktINIT, pkt_payload = marshalInit (local_init (s_config b))\<rparr>,
        sn_opts = b_opts b AND NOT capEscape, sn_prefix = b_prefix b\<rparr> b"

definition skipToEOF :: "err option \<Rightarrow> batch \<Rightarrow> batch" where
  \<comment> \<open>\<open>b.txErr = e; b.txSkip = true; b.txState = htxEOF\<close>\<close>
  "skipToEOF e b = b\<lparr>b_txErr := e, b_txSkip := True, b_txState := htxEOF\<rparr>"

definition sendData_sent :: "env \<Rightarrow> int \<Rightarrow> batch \<Rightarrow> outcome" where
  \<comment> \<open>\<open>sendData\<close> from the successful write of a DATA packet of \<open>n\<close> bytes on\<close>
  "sendData_sent E n b0 =
     (let b = b0\<lparr>b_txPos := b_txPos b0 + n, b_blk := bs_good n (b_blk b0)\<rparr>;
          b = emit (EvSendProgress (b_txInfo b) (b_txPos b)) b
      in if b_txWindow b > 0 \<and> b_txPos b \<ge> b_txLastAck b + b_txWindow b then
           fine ((armTx E b)\<lparr>b_txState := htxDataAck\<rparr>)
         else fine (b\<lparr>b_productive := True\<rparr>))"

definition sendData :: "env \<Rightarrow> batch \<Rightarrow> outcome" where
  "sendData E b =
     (if b_txSkip b then fine (b\<lparr>b_txState := htxEOF, b_productive := True\<rparr>)
      else (case b_txReader b of
          None \<Rightarrow> failed PanicNil b
        | Some h \<Rightarrow>
            (let blkLen = nat (bs_size (b_blk b));
                 src = en_source E (s_log b) h blkLen;
                 rd = read_full (fst src) (snd src) blkLen;
                 buf = fst rd; err = snd rd; n = int (length buf);
                 b = emit (EvRead h buf err) b
             in if err \<noteq> None \<and> err \<noteq> Some IoUnexpectedEOF \<and> err \<noteq> Some IoEOF then
                  fine ((skipToEOF err b)\<lparr>b_productive := True\<rparr>)
                else if n = 0 then fine (b\<lparr>b_txState := htxEOF, b_productive := True\<rparr>)
                else if b_txPos b + n > SafeMaxOffset then
                  fine ((skipToEOF (Some ErrFileTooLarge) b)\<lparr>b_productive := True\<rparr>)
                else
                  andThen (batch_write E pktDATA (marshalData (b_txPos b) buf) b) (sendData_sent E n))))"

fun write_times :: "nat \<Rightarrow> env \<Rightarrow> byte \<Rightarrow> batch \<Rightarrow> outcome" where
  \<comment> \<open>\<open>for range n { write(t, nil) }\<close>\<close>
  "write_times 0 E t b = fine b"
| "write_times (Suc n) E t b = andThen (batch_write E t [] b) (write_times n E t)"

definition txAction :: "env \<Rightarrow> batch \<Rightarrow> outcome option" where
  "txAction E b =
     (case b_txState b of
        htxStart \<Rightarrow> Some (
          andThen (writeRaw E autostart b) (\<lambda>b.
          andThen (batch_write E pktSTART [] b) (\<lambda>b.
          fine ((set_txTimer E startInterval b)\<lparr>b_txState := htxSwait\<rparr>))))
      | htxInit \<Rightarrow> Some (
          andThen (sendInit E b) (\<lambda>b.
          fine ((set_txTimer E (cf_Timeout (s_config b) div 2) b)\<lparr>b_txState := htxInitAck\<rparr>)))
      | htxFinfo \<Rightarrow>
          map_option (\<lambda>r. andThen r (\<lambda>b.
            fine ((armTx E (b\<lparr>b_finfoAckWait := True\<rparr>))\<lparr>b_txState := htxFinfoAck\<rparr>))) (sendFinfo E b)
      | htxXdata \<Rightarrow> Some (sendData E b)
      | htxEOF \<Rightarrow> Some (
          andThen (batch_write E pktEOF (marshalOffset (if b_txSkip b then offsetSkip else b_txPos b)) b) (\<lambda>b.
          fine ((armTx E (b\<lparr>b_eofAckWait := True\<rparr>))\<lparr>b_txState := htxEOFAck\<rparr>)))
      | htxEnd \<Rightarrow> Some (
          andThen (write_times endInitialCount E pktEND b) (\<lambda>b.
          fine ((set_txTimer E (cf_Timeout (s_config b) div 2) b)\<lparr>b_txState := htxEndAck\<rparr>)))
      | _ \<Rightarrow> Some (fine b))"

subsection \<open>Acknowledgements\<close>

definition finishTxFile :: "batch \<Rightarrow> batch" where
  "finishTxFile b0 =
     (let b = closeTxOffer b0 in
      b\<lparr>b_txOffer := None, b_txReader := None, b_txSeeker := None, b_txSkip := False, b_txErr := None,
        b_lastFinfo := None, b_txRetries := 0, b_txTimer := None, b_finfoAckWait := False,
        b_eofAckWait := False, b_filesSent := b_filesSent b + 1, b_txState := htxFinfo\<rparr>)"

definition txFinfoAck :: "env \<Rightarrow> packet \<Rightarrow> batch \<Rightarrow> outcome" where
  "txFinfoAck E pkt b =
     (if \<not> b_finfoAckWait b \<or> (b_txState b \<noteq> htxFinfo \<and> b_txState b \<noteq> htxFinfoAck) then fine b
      else
        (case (if b_txEOB b then Inr 0 else parseOffset (pkt_payload pkt)) of
           Inl _ \<Rightarrow> fine b
         | Inr offset \<Rightarrow>
             (let b = feedBraindead E (b\<lparr>b_finfoAckWait := False\<rparr>);
                  b = b\<lparr>b_txRetries := 0, b_txTimer := None, b_lastFinfo := None\<rparr>
              in if b_txEOB b then fine ((set_txTimer E (batch_idle b) b)\<lparr>b_txState := htxRend\<rparr>)
                 else if offset \<ge> 0 then
                   (if offset > fi_Size (b_txInfo b) then fine (skipToEOF (Some ErrResumeOutOfRange) b)
                    else
                      let b = b\<lparr>b_txPos := offset, b_txLastAck := offset\<rparr> in
                      if offset > 0 then
                        (case b_txSeeker b of
                           None \<Rightarrow> fine (skipToEOF (Some ErrResumeOutOfRange) b)
                         | Some h \<Rightarrow>
                             (let serr = en_seek E (s_log b) h offset;
                                  b = emit (EvSeek h offset serr) b
                              in if serr \<noteq> None then fine (skipToEOF serr b)
                                 else fine (b\<lparr>b_txState := htxXdata\<rparr>)))
                      else fine (b\<lparr>b_txState := htxXdata\<rparr>))
                 else if offset = ackHaveFile then
                   fine (finishTxFile (sendCompleted 0 (Some ErrSkip) (closeTxOffer b)))
                 else
                   fine (finishTxFile (sendCompleted 0 (Some ErrDefer) (closeTxOffer b))))))"

definition in_transfer :: "txState \<Rightarrow> bool" where
  \<comment> \<open>the case list of \<open>txDataAck\<close> and \<open>txRpos\<close>\<close>
  "in_transfer st \<longleftrightarrow> st = htxXdata \<or> st = htxDataAck \<or> st = htxXwait \<or> st = htxEOF \<or> st = htxEOFAck"

definition txDataAck :: "packet \<Rightarrow> batch \<Rightarrow> batch" where
  "txDataAck pkt b =
     (if \<not> in_transfer (b_txState b) then b
      else (case parseOffset (pkt_payload pkt) of
          Inl _ \<Rightarrow> b
        | Inr ack \<Rightarrow>
            if b_txWindow b = 0 then b
            else
              (let b = b\<lparr>b_peerAcked := True\<rparr>;
                   b = (if ack > b_txLastAck b then b\<lparr>b_txLastAck := ack\<rparr> else b)
               in if b_txState b = htxDataAck \<and> b_txPos b < b_txLastAck b + b_txWindow b then
                    b\<lparr>b_txRetries := 0, b_txTimer := None, b_txState := htxXdata\<rparr>
                  else b)))"

definition txRpos :: "env \<Rightarrow> packet \<Rightarrow> batch \<Rightarrow> outcome" where
  "txRpos E pkt b =
     (if \<not> in_transfer (b_txState b) then fine b
      else (case parseRpos (pkt_payload pkt) of
          Inl _ \<Rightarrow> fine b
        | Inr rp \<Rightarrow>
            if rp_id rp = b_txSyncID b then
              (let b = b\<lparr>b_txRetries := b_txRetries b + 1\<rparr> in
               if b_txRetries b > cf_MaxRetries (s_config b) then failed ErrMaxRetries b else fine b)
            else
              (let b = b\<lparr>b_txSyncID := rp_id rp, b_txRetries := 1, b_txTimer := None\<rparr> in
               if rp_offset rp < 0 then
                 fine (skipToEOF (if b_txErr b = None then Some ErrSkip else b_txErr b) b)
               else
                 let b = b\<lparr>b_blk := bs_rpos (rp_blocksize rp) (b_blk b)\<rparr> in
                 if rp_offset rp > fi_Size (b_txInfo b) then fine (skipToEOF (Some ErrResumeOutOfRange) b)
                 else (case b_txSeeker b of
                     None \<Rightarrow> fine (skipToEOF (Some ErrResumeOutOfRange) b)
                   | Some h \<Rightarrow>
                       (let serr = en_seek E (s_log b) h (rp_offset rp);
                            b = emit (EvSeek h (rp_offset rp) serr) b
                        in if serr \<noteq> None then fine (skipToEOF serr b)
                           else
                             (let b = b\<lparr>b_txPos := rp_offset rp\<rparr> in
                              if b_txState b \<noteq> htxXwait then fine (b\<lparr>b_txState := htxXdata\<rparr>)
                              else fine b))))))"

definition txEOFAck :: "env \<Rightarrow> batch \<Rightarrow> batch" where
  "txEOFAck E b =
     (if \<not> b_eofAckWait b \<or> (b_txState b \<noteq> htxEOF \<and> b_txState b \<noteq> htxEOFAck) then b
      else
        (let b = closeTxOffer (feedBraindead E (b\<lparr>b_eofAckWait := False\<rparr>));
             b = (if b_txSkip b then
                    sendCompleted (b_txPos b) (Some (case b_txErr b of None \<Rightarrow> ErrSkip | Some e \<Rightarrow> e)) b
                  else sendCompleted (b_txPos b) None b)
         in finishTxFile b))"

definition txIdle :: "env \<Rightarrow> batch \<Rightarrow> batch" where
  "txIdle E b =
     (if b_txState b = htxXwait then
        b\<lparr>b_hdxlink := False, b_txTimer := None, b_txRetries := 0, b_txState := htxXdata\<rparr>
      else if b_txState b \<ge> htxFinfo \<and> b_txState b < htxRend then feedBraindead E b
      else b)"

definition txEnd :: "env \<Rightarrow> batch \<Rightarrow> outcome" where
  "txEnd E b =
     (if b_txState b \<noteq> htxEnd \<and> b_txState b \<noteq> htxEndAck then fine b
      else
        andThen (write_times endResponseCount E pktEND b) (\<lambda>b.
        fine (b\<lparr>b_txTimer := None, b_txState := htxDone\<rparr>)))"

declare pullOffers.simps [code]

subsection \<open>Reasoning about the offer loop\<close>

text \<open>The loop rule: \<open>I\<close> holds before every round, \<open>J\<close> when the loop is left.\<close>

lemma pullOffers_rule:
  assumes loop: "pullOffers E b = Some b'" and init: "I b"
    and again: "\<And>b ofr e. I b \<Longrightarrow> b_txOffer b = None \<Longrightarrow> en_nextFile E (s_log b) = Some ofr \<Longrightarrow>
      fo_Size ofr < 0 \<or> fo_Size ofr > SafeMaxOffset \<or> fo_Reader ofr = None \<Longrightarrow> I (rejectOffer ofr e (emit (EvNextFile (Some ofr)) b))"
    and ended: "\<And>b. I b \<Longrightarrow> b_txOffer b = None \<Longrightarrow> J ((emit (EvNextFile None) b)\<lparr>b_batchEnded := True\<rparr>)"
    and found: "\<And>b ofr. I b \<Longrightarrow> b_txOffer b = None \<Longrightarrow> 0 \<le> fo_Size ofr \<Longrightarrow> fo_Size ofr \<le> SafeMaxOffset \<Longrightarrow>
      fo_Reader ofr \<noteq> None \<Longrightarrow> en_nextFile E (s_log b) = Some ofr \<Longrightarrow> J ((emit (EvNextFile (Some ofr)) b)\<lparr>b_txOffer := Some ofr\<rparr>)"
    and skip: "\<And>b. I b \<Longrightarrow> b_txOffer b \<noteq> None \<or> b_batchEnded b \<Longrightarrow> J b"
  shows "J b'"
proof -
  have "E' = E \<longrightarrow> I b \<longrightarrow> J b'" if "pullOffers E' b = Some b'" for E' b b'
  proof (rule pullOffers.raw_induct [where P = "\<lambda>E' b b'. E' = E \<longrightarrow> I b \<longrightarrow> J b'", OF _ that])
    fix pull E' b b'
    assume IH: "\<And>E' b b'. pull E' b = Some b' \<Longrightarrow> E' = E \<longrightarrow> I b \<longrightarrow> J b'"
      and body: "(if b_txOffer b = None \<and> \<not> b_batchEnded b then
        (let ans = en_nextFile E' (s_log b);
             b = emit (EvNextFile ans) b
         in case ans of
              None \<Rightarrow> Some (b\<lparr>b_batchEnded := True\<rparr>)
            | Some ofr \<Rightarrow>
                if fo_Size ofr < 0 \<or> fo_Size ofr > SafeMaxOffset then
                  pull E' (rejectOffer ofr ErrFileTooLarge b)
                else if fo_Reader ofr = None then
                  pull E' (rejectOffer ofr ErrHandlerContract b)
                else Some (b\<lparr>b_txOffer := Some ofr\<rparr>))
      else Some b) = Some b'"
    show "E' = E \<longrightarrow> I b \<longrightarrow> J b'"
    proof (intro impI)
      assume E: "E' = E" and I: "I b"
      show "J b'"
      proof (cases "b_txOffer b = None \<and> \<not> b_batchEnded b")
        case False
        with body skip [OF I] show ?thesis by auto
      next
        case go: True
        show ?thesis
        proof (cases "en_nextFile E (s_log b)")
          case None
          with go body E ended [OF I] show ?thesis by (auto simp: Let_def)
        next
          case (Some ofr)
          have bad: "pull E (rejectOffer ofr e (emit (EvNextFile (Some ofr)) b)) = Some b' \<Longrightarrow> J b'"
            if "fo_Size ofr < 0 \<or> fo_Size ofr > SafeMaxOffset \<or> fo_Reader ofr = None" for e
            using IH [of E] again [OF I _ Some that] go by blast
          show ?thesis
          proof (cases "fo_Size ofr < 0 \<or> fo_Size ofr > SafeMaxOffset \<or> fo_Reader ofr = None")
            case True
            with go body E Some bad [OF True] show ?thesis by (auto simp: Let_def split: if_splits)
          next
            case False
            with go body E Some found [OF I, of ofr] show ?thesis by (auto simp: Let_def)
          qed
        qed
      qed
    qed
  qed
  with loop init show ?thesis by blast
qed

end
