(* ===== verification/Hydra_Rx.thy ===== *)
theory Hydra_Rx
  imports Hydra_Tx
begin

unbundle bit_operations_syntax

section \<open>The receive machine (rx.go)\<close>

text \<open>
  One definition per method of \<open>rx.go\<close>: negotiation on INIT, file announcements, data,
  repositioning and end of file. \<open>int32(x)\<close> of the code is written \<open>to_int32\<close>.
\<close>

definition to_int32 :: "int \<Rightarrow> int" where
  "to_int32 x = sint (word_of_int x :: u32)"

subsection \<open>Negotiation\<close>

definition mergeWindow :: "int \<Rightarrow> int \<Rightarrow> int" where
  "mergeWindow peer loc = (if loc > 0 \<and> (peer = 0 \<or> loc < peer) then loc else peer)"

definition effective_opts :: "u32 \<Rightarrow> u32 \<Rightarrow> u32 \<Rightarrow> u32 \<Rightarrow> u32" where
  "effective_opts localSup localDes supported desired =
     ((localDes OR capUnion OR desired) AND supported) AND localSup"

definition peer_window :: "u32 \<Rightarrow> int" where
  \<comment> \<open>a window field beyond the signed range is junk\<close>
  "peer_window w = (if uint w < 0 \<or> uint w > SafeMaxOffset then 0 else uint w)"

definition negotiate :: "initPkt \<Rightarrow> batch \<Rightarrow> outcome" where
  "negotiate p b =
     (let localSup = localSupported (s_config b);
          localDes = localDesired (s_config b);
          eff = effective_opts localSup localDes (ip_supported p) (ip_desired p);
          vital = localDes AND capEscape
      in if eff AND vital \<noteq> vital then failed ErrIncompatible b
         else
           fine (b\<lparr>b_rxWindow := mergeWindow (peer_window (ip_txWindow p)) (cf_RxWindowBytes (s_config b)),
                   b_txWindow := mergeWindow (peer_window (ip_rxWindow p)) (cf_TxWindowBytes (s_config b)),
                   b_prefix := (if length (ip_prefix p) > prefixMax then take prefixMax (ip_prefix p)
                                else ip_prefix p),
                   b_opts := eff, s_rxOpts := eff, s_effOpts := eff, s_negotiated := True\<rparr>))"

definition rxInit :: "env \<Rightarrow> packet \<Rightarrow> batch \<Rightarrow> outcome" where
  "rxInit E pkt b =
     andThen
       (if b_rxState b = hrxInit then
          (case parseInit (pkt_payload pkt) of
             Inl _ \<Rightarrow> fine b
           | Inr p \<Rightarrow> andThen (negotiate p b) (\<lambda>b. fine (b\<lparr>b_rxState := hrxFinfo\<rparr>)))
        else fine b)
       (batch_write E pktINITACK [])"

subsection \<open>Announcements\<close>

definition recvCompleted :: "FileInfo \<Rightarrow> int \<Rightarrow> err option \<Rightarrow> batch \<Rightarrow> batch" where
  "recvCompleted info n e b = emit (EvRecvCompleted info n e) b"

definition closeWriter :: "nat option \<Rightarrow> batch \<Rightarrow> batch" where
  \<comment> \<open>\<open>if w != nil { _ = w.Close() }\<close>\<close>
  "closeWriter w b = (case w of None \<Rightarrow> b | Some h \<Rightarrow> emit (EvWriterClose h) b)"

definition finfo_info :: "fileMeta \<Rightarrow> int \<Rightarrow> FileInfo" where
  "finfo_info meta filesRcvd =
     \<lparr>fi_Name = fm_name meta, fi_Path = fm_path meta, fi_Size = fm_size meta,
      fi_ModTime = (if fm_mtime meta \<noteq> 0 then Some (fm_mtime meta) else None),
      fi_FileNum = (if fm_count meta \<noteq> 0 then (if filesRcvd = 0 then 1 else uint (fm_count meta)) else 0),
      fi_FileTotal = (if fm_count meta \<noteq> 0 \<and> filesRcvd = 0 then uint (fm_count meta) else 0)\<rparr>"

definition acceptFinfo :: "env \<Rightarrow> byte list \<Rightarrow> batch \<Rightarrow> int \<times> batch" where
  "acceptFinfo E payload b =
     (case parseFinfo payload of
        Inl _ \<Rightarrow> (ackDefer, b)
      | Inr meta \<Rightarrow>
          (let info = finfo_info meta (b_filesRcvd b) in
           if fi_Size info > SafeMaxOffset then
             (ackDefer, recvCompleted info 0 (Some ErrFileTooLarge) b)
           else
             (case en_accept E (s_log b) info of (w, offset, herr) \<Rightarrow>
               (let b = emit (EvAccept info w offset herr) b in
                case herr of
                  Some e \<Rightarrow>
                    (if errors_is e ErrSkip
                     then (ackHaveFile, recvCompleted info 0 (Some e) (closeWriter w b))
                     else (ackDefer, recvCompleted info 0 (Some e) (closeWriter w b)))
                | None \<Rightarrow>
                    (case w of
                       None \<Rightarrow> (ackDefer, recvCompleted info 0 (Some ErrHandlerContract) b)
                     | Some h \<Rightarrow>
                         if offset < 0 \<or> offset > SafeMaxOffset \<or> (fm_size meta > 0 \<and> offset > fm_size meta)
                         then (ackDefer, recvCompleted info 0 (Some ErrResumeOutOfRange) (closeWriter w b))
                         else
                           (to_int32 offset,
                            b\<lparr>b_filesRcvd := b_filesRcvd b + 1, b_rxWriter := Some h, b_rxOpen := True,
                              b_rxInfo := info, b_rxPos := offset, b_rxRetries := 0, b_rxSyncID := 0,
                              b_rxLastSync := 0, b_rxTimer := None, b_rxState := hrxData\<rparr>))))))"

definition rxFinfo :: "env \<Rightarrow> packet \<Rightarrow> batch \<Rightarrow> outcome" where
  "rxFinfo E pkt b =
     (case (case b_rxState b of
         hrxFinfo \<Rightarrow>
           (let b = feedBraindead E b in
            if isFinfoEOB (pkt_payload pkt) then (0, b\<lparr>b_rxState := hrxDone\<rparr>)
            else if b_lastRefusedFinfo b \<noteq> None \<and> b_lastRefusedFinfo b = Some (pkt_payload pkt)
              then (b_lastRefusedAck b, b)
            else
              (case acceptFinfo E (pkt_payload pkt) b of (ack, b) \<Rightarrow>
                 if ack < 0 then
                   (ack, b\<lparr>b_lastRefusedFinfo :=
                              (if pkt_payload pkt = [] then None else Some (pkt_payload pkt)),
                           b_lastRefusedAck := ack\<rparr>)
                 else (ack, b\<lparr>b_lastRefusedFinfo := None\<rparr>)))
       | hrxData \<Rightarrow> (to_int32 (b_rxPos b), b)
       | hrxDone \<Rightarrow> (if isFinfoEOB (pkt_payload pkt) then 0 else ackDefer, b)
       | hrxInit \<Rightarrow> (0, b))
     of (ack, b) \<Rightarrow> batch_write E pktFINFOACK (marshalOffset ack) b)"

subsection \<open>Data\<close>

definition rxCloseFile :: "err option \<Rightarrow> batch \<Rightarrow> batch" where
  "rxCloseFile e b =
     (if \<not> b_rxOpen b then b
      else
        (let b = closeWriter (b_rxWriter b) (b\<lparr>b_rxOpen := False\<rparr>);
             b = b\<lparr>b_rxWriter := None\<rparr>
         in recvCompleted (b_rxInfo b) (max (b_rxPos b) 0) e b))"

definition requestSkip :: "env \<Rightarrow> err \<Rightarrow> batch \<Rightarrow> outcome" where
  \<comment> \<open>the two copies of the RPOS(-2) sequence in \<open>rxData\<close>\<close>
  "requestSkip E e b0 =
     (let b = rxCloseFile (Some e) b0;
          b = b\<lparr>b_rxPos := - 2, b_rxRetries := 1, b_rxSyncID := b_rxSyncID b + 1\<rparr>;
          b = tick (b\<lparr>b_rxTimer := Some (time_now E b + cf_Timeout (s_config b))\<rparr>)
      in batch_write E pktRPOS (marshalRpos \<lparr>rp_offset = - 2, rp_blocksize = 0, rp_id = b_rxSyncID b\<rparr>) b)"

definition badPosition :: "env \<Rightarrow> int \<Rightarrow> bool \<Rightarrow> batch \<Rightarrow> outcome" where
  "badPosition E offset isEOF b =
     (let b = (if offset \<le> b_rxLastSync b then b\<lparr>b_rxTimer := None, b_rxRetries := 0\<rparr> else b);
          b = b\<lparr>b_rxLastSync := offset\<rparr>;
          now = time_now E b;
          b = tick b
      in if (case b_rxTimer b of None \<Rightarrow> False | Some t \<Rightarrow> now < t) then fine b
         else
           (let b = (if \<not> isEOF \<and> b_rxRetries b > 4 \<and> b_txState b < htxRend
                        \<and> \<not> cf_Originator (s_config b) \<and> \<not> b_hdxlink b
                     then b\<lparr>b_hdxlink := True, b_rxRetries := 0\<rparr> else b);
                b = b\<lparr>b_rxRetries := b_rxRetries b + 1\<rparr>
            in if b_rxRetries b > cf_MaxRetries (s_config b) then failed ErrMaxRetries b
               else
                 (let b = (if b_rxRetries b = 1 then b\<lparr>b_rxSyncID := b_rxSyncID b + 1\<rparr> else b);
                      b = b\<lparr>b_rxBlkLen := b_rxBlkLen b div 2\<rparr>;
                      proposal = ladder (b_rxBlkLen b);
                      b = b\<lparr>b_rxTimer := Some (now + cf_Timeout (s_config b))\<rparr>
                  in batch_write E pktRPOS
                       (marshalRpos \<lparr>rp_offset = b_rxPos b, rp_blocksize = proposal, rp_id = b_rxSyncID b\<rparr>) b)))"

definition rxWrite :: "env \<Rightarrow> byte list \<Rightarrow> batch \<Rightarrow> batch \<times> err option" where
  \<comment> \<open>\<open>b.rxWriter.Write(data)\<close>, nothing when there is no writer\<close>
  "rxWrite E data b =
     (case b_rxWriter b of
        None \<Rightarrow> (b, None)
      | Some h \<Rightarrow> (let r = en_writeFile E (s_log b) h data in (emit (EvWrite h data r) b, r)))"

definition rxData :: "env \<Rightarrow> packet \<Rightarrow> batch \<Rightarrow> outcome" where
  "rxData E pkt b =
     (if b_rxState b \<noteq> hrxData then fine b
      else (case parseData (pkt_payload pkt) of
          Inl _ \<Rightarrow> fine b
        | Inr (offset, data) \<Rightarrow>
            if offset \<noteq> b_rxPos b \<or> offset < 0 then badPosition E offset False b
            else
              (case rxWrite E data ((feedBraindead E b)\<lparr>b_rxBlkLen := int (length data)\<rparr>) of
                 (b, Some werr) \<Rightarrow> requestSkip E werr b
               | (b, None) \<Rightarrow>
                   (let b = b\<lparr>b_rxRetries := 0, b_rxTimer := None, b_rxLastSync := b_rxPos b\<rparr>;
                        b = b\<lparr>b_rxPos := b_rxPos b + int (length data)\<rparr>
                    in if b_rxPos b > SafeMaxOffset then requestSkip E ErrFileTooLarge b
                       else
                         (let b = emit (EvRecvProgress (b_rxInfo b) (b_rxPos b)) b
                          in if b_rxWindow b > 0
                             then batch_write E pktDATAACK (marshalOffset (b_rxPos b)) b
                             else fine b)))))"

definition rxEOF :: "env \<Rightarrow> packet \<Rightarrow> batch \<Rightarrow> outcome" where
  "rxEOF E pkt b =
     (case b_rxState b of
        hrxData \<Rightarrow>
          (case parseOffset (pkt_payload pkt) of
             Inl _ \<Rightarrow> fine b
           | Inr offset \<Rightarrow>
               if offset < 0 then
                 batch_write E pktEOFACK []
                   (feedBraindead E ((rxCloseFile (Some ErrSenderSkip) b)\<lparr>b_rxPos := 0, b_rxState := hrxFinfo\<rparr>))
               else if offset \<noteq> b_rxPos b then badPosition E offset True b
               else
                 batch_write E pktEOFACK []
                   (feedBraindead E ((rxCloseFile None b)\<lparr>b_rxState := hrxFinfo\<rparr>)))
      | hrxFinfo \<Rightarrow> batch_write E pktEOFACK [] b
      | _ \<Rightarrow> fine b)"

end
