(* ===== verification/Hydra_Session.thy ===== *)
theory Hydra_Session
  imports Hydra_Rx
begin

unbundle bit_operations_syntax

section \<open>The event loop and the session (session.go)\<close>

text \<open>
  Dispatch, the cross-machine transitions, the timers, the event loop and the exported
  operations of \<open>Session\<close>. \<open>run_loop\<close> is a partial function: its value \<open>None\<close> means that
  the batch does not return.
\<close>

subsection \<open>Dispatch\<close>

text \<open>The event \<open>EvRecv\<close> is the record \<open>logPkt("rx", ...)\<close> makes of the packet.\<close>

definition handlePacket :: "env \<Rightarrow> packet \<Rightarrow> batch \<Rightarrow> outcome" where
  "handlePacket E pkt b0 =
     (let t = pkt_typ pkt; b = emit (EvRecv pkt) b0 in
      if t = pktSTART then
        (if b_txState b = htxStart \<or> b_txState b = htxSwait then
           fine ((feedBraindead E b)\<lparr>b_txTimer := None, b_txRetries := 0, b_txState := htxInit\<rparr>)
         else fine b)
      else if t = pktINIT then rxInit E pkt b
      else if t = pktINITACK then
        (if b_txState b = htxInit \<or> b_txState b = htxInitAck then
           fine ((feedBraindead E b)\<lparr>b_txTimer := None, b_txRetries := 0, b_txState := htxRinit\<rparr>)
         else fine b)
      else if t = pktFINFO then rxFinfo E pkt b
      else if t = pktFINFOACK then txFinfoAck E pkt b
      else if t = pktDATA then rxData E pkt b
      else if t = pktDATAACK then fine (txDataAck pkt b)
      else if t = pktRPOS then txRpos E pkt b
      else if t = pktEOF then rxEOF E pkt b
      else if t = pktEOFACK then fine (txEOFAck E b)
      else if t = pktIDLE then fine (txIdle E b)
      else if t = pktEND then txEnd E b
      else if t = pktDEVDATA then devRx E pkt b
      else if t = pktDEVDACK then fine (devDack pkt b)
      else fine b)"

definition batch_sync :: "env \<Rightarrow> batch \<Rightarrow> batch" where
  "batch_sync E b =
     (if b_txState b = htxStart \<or> b_txState b = htxSwait then
        (if b_rxState b \<noteq> hrxInit then b\<lparr>b_txTimer := None, b_txRetries := 0, b_txState := htxInit\<rparr> else b)
      else if b_txState b = htxRinit then
        (if b_rxState b \<noteq> hrxInit then b\<lparr>b_txTimer := None, b_txRetries := 0, b_txState := htxFinfo\<rparr> else b)
      else if b_txState b = htxXdata then
        (if b_hdxlink b \<and> b_rxState b \<noteq> hrxDone
         then (set_txTimer E (batch_idle b) b)\<lparr>b_txState := htxXwait\<rparr> else b)
      else if b_txState b = htxXwait then
        (if b_rxState b = hrxDone then b\<lparr>b_txTimer := None, b_txRetries := 0, b_txState := htxXdata\<rparr> else b)
      else if b_txState b = htxRend then
        (if b_rxState b = hrxDone \<and> b_devState b = htdDone
         then b\<lparr>b_txTimer := None, b_txRetries := 0, b_txState := htxEnd\<rparr> else b)
      else b)"

subsection \<open>Timers\<close>

definition retry_state :: "txState \<Rightarrow> txState" where
  \<comment> \<open>the fallback map at the end of \<open>txTimeout\<close>\<close>
  "retry_state st =
     (case st of htxSwait \<Rightarrow> htxStart | htxInitAck \<Rightarrow> htxInit | htxFinfoAck \<Rightarrow> htxFinfo
       | htxDataAck \<Rightarrow> htxXdata | htxEOFAck \<Rightarrow> htxEOF | htxEndAck \<Rightarrow> htxEnd | st \<Rightarrow> st)"

definition txTimeout :: "env \<Rightarrow> batch \<Rightarrow> outcome" where
  "txTimeout E b =
     (if b_txState b = htxXwait \<or> b_txState b = htxRend then
        andThen (batch_write E pktIDLE [] b) (\<lambda>b. fine (set_txTimer E (batch_idle b) b))
      else if b_txState b = htxDataAck \<and> \<not> b_peerAcked b then
        fine (b\<lparr>b_txWindow := 0, b_txState := htxXdata\<rparr>)
      else
        (let b = b\<lparr>b_txRetries := b_txRetries b + 1\<rparr> in
         if b_txRetries b > cf_MaxRetries (s_config b) then
           (if b_txState b = htxEndAck then fine (b\<lparr>b_txState := htxDone\<rparr>) else failed ErrMaxRetries b)
         else fine (b\<lparr>b_txState := retry_state (b_txState b)\<rparr>)))"

definition expired :: "int \<Rightarrow> int option \<Rightarrow> bool" where
  "expired now t = (case t of None \<Rightarrow> False | Some d \<Rightarrow> now > d)"

definition fireTimers :: "env \<Rightarrow> int \<Rightarrow> batch \<Rightarrow> bool \<times> outcome" where
  "fireTimers E now b =
     (if expired now (b_braindead b) then (True, failed ErrBrainDead b)
      else
        (case (if expired now (b_txTimer b) then (True, txTimeout E (b\<lparr>b_txTimer := None\<rparr>)) else (False, fine b)) of
           (fired, (b, Some e)) \<Rightarrow> (True, (b, Some e))
         | (fired, (b, None)) \<Rightarrow>
             (if expired now (b_devTimer b) then (True, devTimeout (b\<lparr>b_devTimer := None\<rparr>))
              else (fired, fine b))))"

definition nearestDeadline :: "batch \<Rightarrow> int option" where
  "nearestDeadline b =
     (let before = (\<lambda>t d. case d of None \<Rightarrow> True | Some x \<Rightarrow> t < x);
          d = b_braindead b;
          d = (case b_txTimer b of None \<Rightarrow> d | Some t \<Rightarrow> if before t d then Some t else d)
      in (case b_devTimer b of None \<Rightarrow> d | Some t \<Rightarrow> if before t d then Some t else d))"

subsection \<open>The exported operations that act at any time\<close>

definition recordError :: "err \<Rightarrow> 'a session_scheme \<Rightarrow> 'a session_scheme" where
  "recordError e s = (if s_err s = None then s\<lparr>s_err := Some e\<rparr> else s)"

definition triggerAbort :: "'a session_scheme \<Rightarrow> 'a session_scheme" where
  "triggerAbort s = s\<lparr>s_aborted := True\<rparr>"

definition session_close :: "'a session_scheme \<Rightarrow> 'a session_scheme" where
  "session_close s =
     (if s_closed s then s
      else
        (let s = s\<lparr>s_closed := True\<rparr> in
         if s_closerSet s then emit EvTransportClose s else s))"

definition courtesyCancel :: "env \<Rightarrow> 'a session_scheme \<Rightarrow> 'a session_scheme" where
  "courtesyCancel E s = (if s_started s then fst (writeRaw E writeCancel s) else s)"

definition Abort :: "env \<Rightarrow> 'a session_scheme \<Rightarrow> 'a session_scheme" where
  "Abort E s = session_close (courtesyCancel E (triggerAbort (recordError ErrSessionAborted s)))"

definition Close :: "'a session_scheme \<Rightarrow> 'a session_scheme" where
  "Close s = session_close (triggerAbort (recordError ErrSessionClosed s))"

definition SendDevice :: "gostring \<Rightarrow> byte list \<Rightarrow> 'a session_scheme \<Rightarrow> 'a session_scheme \<times> err option" where
  "SendDevice device payload s =
     (if s_negotiated s \<and> \<not> has (s_effOpts s) capDEV then (s, Some ErrDevUnsupported)
      else
        (let payload = (if length payload > DataBufMax then take DataBufMax payload else payload);
             req = \<lparr>dr_device = device, dr_payload = payload\<rparr>
         in if s_aborted s then (s, Some ErrSessionAborted)
            else (case devQ_send req (s_devQ s) of
                (True, q) \<Rightarrow> (s\<lparr>s_devQ := q\<rparr>, None)
              | (False, _) \<Rightarrow> (s, Some ErrDevBusy))))"

text \<open>
  What the other goroutines did before the event loop looks: the reader's pushes (nothing
  after it has exited), calls of the exported operations, the end of the context.
\<close>

fun absorb :: "env \<Rightarrow> outside \<Rightarrow> 'a session_scheme \<Rightarrow> 'a session_scheme" where
  "absorb E (OutPacket p) s =
     (if s_readerDone s then s
      else (case inbox_push p (s_inbox s) of
          (True, ib) \<Rightarrow> s\<lparr>s_inbox := ib\<rparr>
        | (False, _) \<Rightarrow> s\<lparr>s_readErr := Some errInboxOverflow, s_readerDone := True\<rparr>))"
| "absorb E (OutReadErr e) s =
     (if s_readerDone s then s else s\<lparr>s_readErr := Some e, s_readerDone := True\<rparr>)"
| "absorb E (OutDevice d p) s = fst (SendDevice d p s)"
| "absorb E OutAbort s = Abort E s"
| "absorb E OutClose s = Close s"
| "absorb E (OutCtx e) s = (if s_ctx s = None then s\<lparr>s_ctx := Some e\<rparr> else s)"

definition poll :: "env \<Rightarrow> 'a session_scheme \<Rightarrow> 'a session_scheme" where
  "poll E s = tick (foldl (\<lambda>s x. absorb E x s) s (en_outside E (s_clk s)))"

subsection \<open>The event loop\<close>

fun drain_loop :: "nat \<Rightarrow> env \<Rightarrow> batch \<Rightarrow> outcome" where
  "drain_loop 0 E b = fine (b\<lparr>s_inbox := inbox_kick (s_inbox b)\<rparr>)"
| "drain_loop (Suc n) E b0 =
     (let b = poll E b0 in
      case inbox_tryPop (s_inbox b) of
        (Some pkt, ib) \<Rightarrow>
          andThen (handlePacket E pkt (b\<lparr>s_inbox := ib\<rparr>)) (\<lambda>b. drain_loop n E (batch_sync E b))
      | (None, _) \<Rightarrow>
          (let b = poll E b in
           case devQ_recv (s_devQ b) of
             (Some req, q) \<Rightarrow> drain_loop n E (queueDev req (b\<lparr>s_devQ := q\<rparr>))
           | (None, _) \<Rightarrow> fine b))"

definition drainBudget :: nat where "drainBudget = 256"

definition drain :: "env \<Rightarrow> batch \<Rightarrow> outcome" where
  "drain E b = drain_loop drainBudget E b"

definition pump_select :: "env \<Rightarrow> batch \<Rightarrow> outcome" where
  \<comment> \<open>the blocking \<open>select\<close>: the chosen channel if it is ready, else the timer\<close>
  "pump_select E b0 =
     (let choice = en_wake E (s_clk b0);
          b = poll E b0
      in if choice = WakeInbox \<and> in_sig (s_inbox b) then
           drain E (b\<lparr>s_inbox := (s_inbox b)\<lparr>in_sig := False\<rparr>\<rparr>)
         else if choice = WakeDev \<and> s_devQ b \<noteq> [] then
           fine (queueDev (hd (s_devQ b)) (b\<lparr>s_devQ := tl (s_devQ b)\<rparr>))
         else if choice = WakeReadErr \<and> s_readErr b \<noteq> None then
           (let rerr = the (s_readErr b); b = b\<lparr>s_readErr := None\<rparr>
            in if errors_is rerr ErrPeerCancel then failed ErrPeerCancel b else failed (ErrWrap rerr) b)
         else if choice = WakeAbort \<and> s_aborted b then
           failed (case s_err b of Some e \<Rightarrow> e | None \<Rightarrow> ErrSessionAborted) b
         else if choice = WakeCtx \<and> s_ctx b \<noteq> None then failed (the (s_ctx b)) b
         else if nearestDeadline b \<noteq> None then snd (fireTimers E (time_now E b) (tick b))
         else failed Blocked b)"

definition pump :: "env \<Rightarrow> batch \<Rightarrow> outcome" where
  "pump E b0 =
     andThen (drain E b0) (\<lambda>b.
       if b_txState b = htxDone then fine (b\<lparr>b_productive := False\<rparr>)
       else if b_productive b then
         (let b = poll E (b\<lparr>b_productive := False\<rparr>) in
          case s_ctx b of
            Some e \<Rightarrow> failed e b
          | None \<Rightarrow> snd (fireTimers E (time_now E b) (tick b)))
       else
         (case fireTimers E (time_now E b) (tick b) of
            (fired, (b, Some e)) \<Rightarrow> failed e b
          | (fired, (b, None)) \<Rightarrow> if fired then fine b else pump_select E b))"

definition run_body :: "env \<Rightarrow> batch \<Rightarrow> outcome option" where
  "run_body E b =
     (case devAction E b of
        (b, Some e) \<Rightarrow> Some (failed e b)
      | (b, None) \<Rightarrow>
          map_option (\<lambda>r. andThen r (\<lambda>b.
            let b = batch_sync E b in
            if b_txState b = htxDone then fine b else pump E b)) (txAction E b))"

partial_function (option) run_loop :: "env \<Rightarrow> batch \<Rightarrow> outcome option" where
  "run_loop E b =
     (if b_txState b = htxDone then Some (fine b)
      else (case run_body E b of
          None \<Rightarrow> None
        | Some r \<Rightarrow> (case snd r of None \<Rightarrow> run_loop E (fst r) | Some e \<Rightarrow> Some r)))"

declare run_loop.simps [code]

definition teardown :: "err option \<Rightarrow> batch \<Rightarrow> batch" where
  "teardown e0 b0 =
     (let e = (case e0 of None \<Rightarrow> ErrSessionAborted | Some e \<Rightarrow> e);
          b = rxCloseFile (Some e) b0
      in if b_txOffer b \<noteq> None
         then (sendCompleted (b_txPos b) (Some e) (closeTxOffer b))\<lparr>b_txOffer := None\<rparr>
         else b)"

definition batch_run :: "env \<Rightarrow> batch \<Rightarrow> outcome option" where
  "batch_run E b = map_option (\<lambda>r. (teardown (snd r) (fst r), snd r)) (run_loop E (feedBraindead E b))"

subsection \<open>Sessions\<close>

definition isTransportErr :: "err \<Rightarrow> bool" where
  "isTransportErr e \<longleftrightarrow> errors_is e IoEOF \<or> errors_is e IoUnexpectedEOF \<or> errors_is e IoClosedPipe
     \<or> errors_is e SysEPIPE \<or> errors_is e SysECONNRESET"

definition endPhaseHangup :: "err \<Rightarrow> batch \<Rightarrow> bool" where
  "endPhaseHangup e b \<longleftrightarrow> b_txState b \<ge> htxEnd \<and> b_rxState b = hrxDone \<and> isTransportErr e"

text \<open>What \<open>NewSession\<close> puts in the place of a nil handler.\<close>

definition noSend :: "env \<Rightarrow> env" where
  "noSend E = E\<lparr>en_nextFile := (\<lambda>_. None)\<rparr>"

definition noRecv :: "env \<Rightarrow> env" where
  "noRecv E = E\<lparr>en_accept := (\<lambda>_ _. (None, 0, Some ErrDefer))\<rparr>"

definition NewSession :: "Config option \<Rightarrow> session" where
  "NewSession cfg =
     \<lparr>s_config = defaults cfg, s_rxOpts = 0, s_effOpts = 0, s_negotiated = False, s_inbox = newPktInbox,
      s_readErr = None, s_readerDone = False, s_devQ = [], s_aborted = False, s_err = None,
      s_started = False, s_runActive = False, s_closerSet = False, s_closed = False, s_ctx = None,
      s_clk = 0, s_log = []\<rparr>"

definition run_setup :: "err option \<Rightarrow> session \<Rightarrow> session" where
  \<comment> \<open>from the start of the goroutine to \<open>newBatch\<close>\<close>
  "run_setup ctx s =
     s\<lparr>s_ctx := ctx, s_started := True, s_negotiated := False, s_effOpts := 0, s_rxOpts := capAssumed,
       s_inbox := inbox_reset (s_inbox s)\<rparr>"

definition run_finish :: "env \<Rightarrow> outcome \<Rightarrow> session \<times> err option" where
  \<comment> \<open>what \<open>Run\<close> does after the batch: the hang-up exception and the error path\<close>
  "run_finish E r =
     (let b = fst r; s = session.truncate b in
      case (case snd r of Some e \<Rightarrow> if endPhaseHangup e b then None else Some e | None \<Rightarrow> None) of
        None \<Rightarrow> (s, None)
      | Some e \<Rightarrow>
          (let s = triggerAbort (recordError e s);
               s = (if \<not> errors_is e ErrPeerCancel \<and> \<not> isTransportErr e then courtesyCancel E s else s);
               s = session_close s
           in (s, s_err s)))"

definition Run :: "env \<Rightarrow> err option \<Rightarrow> session \<Rightarrow> (session \<times> err option) option" where
  "Run E ctx s0 =
     (if s_runActive s0 then Some (s0, Some ErrRunActive)
      else
        (let s = s0\<lparr>s_runActive := True\<rparr> in
         if \<not> cf_Closer (s_config s) \<and> \<not> en_closable E
         then Some (s\<lparr>s_runActive := False\<rparr>, Some ErrTransportNotClosable)
         else
           (let s = s\<lparr>s_closerSet := True\<rparr> in
            if s_aborted s then Some (s\<lparr>s_runActive := False\<rparr>, s_err s)
            else
              map_option (\<lambda>r. (case run_finish E r of (s, e) \<Rightarrow> (s\<lparr>s_runActive := False\<rparr>, e)))
                (batch_run E (newBatch (run_setup ctx s))))))"

subsection \<open>Sessions without a handler\<close>

text \<open>
  A session without a send handler ends its transmit batch at the first question
  for a file; one without a receive handler answers every announcement of a file with the
  refusal that leaves the file with the sender, opens nothing and stays ready for the next.
\<close>

theorem nil_handlers:
  "pullOffers (noSend E) b =
     Some (if b_txOffer b = None \<and> \<not> b_batchEnded b then (emit (EvNextFile None) b)\<lparr>b_batchEnded := True\<rparr> else b)
   \<and> fst (acceptFinfo (noRecv E) payload b) = ackDefer
   \<and> b_rxState (snd (acceptFinfo (noRecv E) payload b)) = b_rxState b
   \<and> b_rxOpen (snd (acceptFinfo (noRecv E) payload b)) = b_rxOpen b"
proof -
  have "\<not> errors_is ErrDefer ErrSkip" by simp
  then show ?thesis
    by (subst pullOffers.simps)
      (simp add: noSend_def noRecv_def acceptFinfo_def recvCompleted_def closeWriter_def emit_def Let_def split: sum.split)
qed

end
