(* ===== verification/Hydra_Steps.thy ===== *)
theory Hydra_Steps
  imports Hydra_Session
begin

section \<open>The event loop as a transition system\<close>

text \<open>
  One step per statement of the event loop that changes the state, in any order, and the
  ways the loop stops with an error. The relations contain everything the loop of
  \<open>session.go\<close> does (\<open>run_loop_reaches\<close>), for all behaviours of the peer, the application,
  the transport and the clock, so an invariant of the relation is an invariant of the
  program at every moment.
\<close>

inductive bstep :: "env \<Rightarrow> batch \<Rightarrow> batch \<Rightarrow> bool" for E where
  st_world: "bstep E b (absorb E x b)"
| st_tick: "bstep E b (tick b)"
| st_inbox: "bstep E b (b\<lparr>s_inbox := q\<rparr>)"
| st_readErr: "bstep E b (b\<lparr>s_readErr := None\<rparr>)"
| st_productive: "bstep E b (b\<lparr>b_productive := False\<rparr>)"
| st_device: "bstep E b (queueDev req (b\<lparr>s_devQ := q\<rparr>))"
| st_sync: "bstep E b (batch_sync E b)"
| st_packet: "handlePacket E pkt b = (b', None) \<Longrightarrow> bstep E b b'"
| st_txTimeout: "txTimeout E (b\<lparr>b_txTimer := None\<rparr>) = (b', None) \<Longrightarrow> bstep E b b'"
| st_devTimeout: "devTimeout (b\<lparr>b_devTimer := None\<rparr>) = (b', None) \<Longrightarrow> bstep E b b'"
| st_devAction: "devAction E b = (b', None) \<Longrightarrow> bstep E b b'"
| st_txAction: "txAction E b = Some (b', None) \<Longrightarrow> bstep E b b'"

text \<open>The errors the waiting part of the loop itself returns.\<close>

definition wait_error :: "batch \<Rightarrow> err \<Rightarrow> bool" where
  "wait_error b e \<longleftrightarrow> e = ErrBrainDead \<or> e = ErrPeerCancel \<or> (\<exists>x. e = ErrWrap x) \<or> s_err b = Some e
     \<or> e = ErrSessionAborted \<or> s_ctx b = Some e \<or> (e = Blocked \<and> nearestDeadline b = None)"

inductive bstop :: "env \<Rightarrow> batch \<Rightarrow> batch \<Rightarrow> err \<Rightarrow> bool" for E where
  sp_wait: "wait_error b e \<Longrightarrow> bstop E b b e"
| sp_packet: "handlePacket E pkt b = (b', Some e) \<Longrightarrow> bstop E b b' e"
| sp_txTimeout: "txTimeout E (b\<lparr>b_txTimer := None\<rparr>) = (b', Some e) \<Longrightarrow> bstop E b b' e"
| sp_devTimeout: "devTimeout (b\<lparr>b_devTimer := None\<rparr>) = (b', Some e) \<Longrightarrow> bstop E b b' e"
| sp_devAction: "devAction E b = (b', Some e) \<Longrightarrow> bstop E b b' e"
| sp_txAction: "txAction E b = Some (b', Some e) \<Longrightarrow> bstop E b b' e"

abbreviation breach :: "env \<Rightarrow> batch \<Rightarrow> batch \<Rightarrow> bool" where
  "breach E \<equiv> (bstep E)\<^sup>*\<^sup>*"

lemma breach1: "bstep E b b' \<Longrightarrow> breach E b b'"
  by (rule r_into_rtranclp)

lemmas breach_step = bstep.intros [THEN breach1]

text \<open>An outcome that the relations account for.\<close>

definition covered :: "env \<Rightarrow> batch \<Rightarrow> outcome \<Rightarrow> bool" where
  "covered E b r \<longleftrightarrow> (case r of (b', None) \<Rightarrow> breach E b b'
     | (b', Some e) \<Rightarrow> \<exists>b1. breach E b b1 \<and> bstop E b1 b' e)"

lemma covered_simps [simp]:
  "covered E b (b', None) \<longleftrightarrow> breach E b b'"
  "covered E b (fine b') \<longleftrightarrow> breach E b b'"
  by (simp_all add: covered_def fine_def)

lemma covered_trans: "breach E b b1 \<Longrightarrow> covered E b1 r \<Longrightarrow> covered E b r"
  by (auto simp: covered_def split: option.splits intro: rtranclp_trans)

lemma covered_step: "bstep E b b1 \<Longrightarrow> covered E b1 r \<Longrightarrow> covered E b r"
  using covered_trans breach1 by blast

lemma covered_andThen:
  assumes "covered E b r" and "\<And>b'. r = (b', None) \<Longrightarrow> covered E b' (f b')"
  shows "covered E b (andThen r f)"
proof (cases r)
  case (Pair b' e)
  then show ?thesis
    using assms covered_trans by (cases e) (auto simp: covered_def)
qed

lemma covered_stop: "bstop E b b' e \<Longrightarrow> covered E b (b', Some e)"
  by (auto simp: covered_def)

lemma covered_failed: "wait_error b e \<Longrightarrow> covered E b (failed e b)"
  by (simp add: failed_def covered_stop sp_wait)

lemma covered_packet: "covered E b (handlePacket E pkt b)"
  by (cases "handlePacket E pkt b"; cases "snd (handlePacket E pkt b)")
    (auto intro: breach1 st_packet covered_stop sp_packet)

lemma covered_txTimeout: "covered E b (txTimeout E (b\<lparr>b_txTimer := None\<rparr>))"
  by (cases "txTimeout E (b\<lparr>b_txTimer := None\<rparr>)"; cases "snd (txTimeout E (b\<lparr>b_txTimer := None\<rparr>))")
    (auto intro: breach1 st_txTimeout covered_stop sp_txTimeout)

lemma covered_devTimeout: "covered E b (devTimeout (b\<lparr>b_devTimer := None\<rparr>))"
  by (cases "devTimeout (b\<lparr>b_devTimer := None\<rparr>)"; cases "snd (devTimeout (b\<lparr>b_devTimer := None\<rparr>))")
    (auto intro: breach1 st_devTimeout covered_stop sp_devTimeout)

lemma covered_devAction: "covered E b (devAction E b)"
  by (cases "devAction E b"; cases "snd (devAction E b)")
    (auto intro: breach1 st_devAction covered_stop sp_devAction)

lemma covered_txAction: "txAction E b = Some r \<Longrightarrow> covered E b r"
  by (cases r; cases "snd r") (auto intro: breach1 st_txAction covered_stop sp_txAction)

subsection \<open>The loop stays within the relations\<close>

lemma poll_breach: "breach E b (poll E b)"
proof -
  have "breach E b (foldl (\<lambda>s x. absorb E x s) b xs)" for xs
    by (induction xs rule: rev_induct) (auto intro: rtranclp.rtrancl_into_rtrancl st_world)
  then show ?thesis unfolding poll_def by (rule rtranclp.rtrancl_into_rtrancl) (rule st_tick)
qed

lemma covered_poll: "covered E (poll E b) r \<Longrightarrow> covered E b r"
  using covered_trans poll_breach by blast

lemma covered_drain_loop: "covered E b (drain_loop n E b)"
proof (induction n arbitrary: b)
  case 0
  then show ?case by (simp add: breach_step)
next
  case (Suc n)
  let ?b = "poll E b" and ?b2 = "poll E (poll E b)"
  obtain o1 ib where pop: "inbox_tryPop (s_inbox ?b) = (o1, ib)" by fastforce
  show ?case
  proof (cases o1)
    case (Some pkt)
    have "covered E (?b\<lparr>s_inbox := ib\<rparr>)
        (andThen (handlePacket E pkt (?b\<lparr>s_inbox := ib\<rparr>)) (\<lambda>b. drain_loop n E (batch_sync E b)))"
      by (rule covered_andThen [OF covered_packet covered_step [OF st_sync Suc.IH]])
    then have "covered E b
        (andThen (handlePacket E pkt (?b\<lparr>s_inbox := ib\<rparr>)) (\<lambda>b. drain_loop n E (batch_sync E b)))"
      by (rule covered_poll [OF covered_step [OF st_inbox]])
    then show ?thesis using pop Some by (simp add: Let_def)
  next
    case None
    obtain o2 q where q: "devQ_recv (s_devQ ?b2) = (o2, q)" by fastforce
    have "covered E ?b2 (drain_loop n E (queueDev req (?b2\<lparr>s_devQ := q\<rparr>)))" for req
      by (rule covered_step [OF st_device Suc.IH])
    then have "covered E ?b2 (case devQ_recv (s_devQ ?b2) of
        (Some req, q) \<Rightarrow> drain_loop n E (queueDev req (?b2\<lparr>s_devQ := q\<rparr>)) | (None, _) \<Rightarrow> fine ?b2)"
      using q by (cases o2) simp_all
    then have "covered E b (case devQ_recv (s_devQ ?b2) of
        (Some req, q) \<Rightarrow> drain_loop n E (queueDev req (?b2\<lparr>s_devQ := q\<rparr>)) | (None, _) \<Rightarrow> fine ?b2)"
      by (rule covered_poll [OF covered_poll])
    then show ?thesis using pop None by (simp add: Let_def)
  qed
qed

lemma covered_drain: "covered E b (drain E b)"
  unfolding drain_def by (rule covered_drain_loop)

lemma covered_fireTimers: "covered E b (snd (fireTimers E now b))"
proof -
  define r where "r = (if expired now (b_txTimer b) then txTimeout E (b\<lparr>b_txTimer := None\<rparr>) else fine b)"
  have r: "covered E b r" by (simp add: r_def covered_txTimeout)
  have "snd (fireTimers E now b) = (if expired now (b_braindead b) then failed ErrBrainDead b
      else andThen r (\<lambda>b. if expired now (b_devTimer b) then devTimeout (b\<lparr>b_devTimer := None\<rparr>) else fine b))"
    by (auto simp: fireTimers_def r_def andThen_def fine_def split: option.split prod.split)
  moreover have "covered E b (failed ErrBrainDead b)" by (simp add: covered_failed wait_error_def)
  ultimately show ?thesis
    using covered_andThen [OF r] covered_devTimeout by simp
qed

lemma covered_timers_tick: "covered E b (snd (fireTimers E now (tick b)))"
  by (rule covered_step [OF st_tick covered_fireTimers])

lemma covered_pump_select: "covered E b (pump_select E b)"
proof (rule covered_poll)
  let ?b = "poll E b"
  have "covered E ?b (drain E (?b\<lparr>s_inbox := q\<rparr>))" for q
    by (rule covered_step [OF st_inbox covered_drain])
  moreover have "breach E ?b (queueDev req (?b\<lparr>s_devQ := q\<rparr>))" for req q by (rule breach_step)
  moreover have "wait_error (?b\<lparr>s_readErr := None\<rparr>) e \<Longrightarrow> covered E ?b (failed e (?b\<lparr>s_readErr := None\<rparr>))" for e
    by (rule covered_step [OF st_readErr covered_failed])
  moreover have "wait_error ?b e \<Longrightarrow> covered E ?b (failed e ?b)" for e
    by (rule covered_failed)
  ultimately show "covered E ?b (pump_select E b)"
    using covered_timers_tick [of E ?b]
    by (simp add: pump_select_def Let_def wait_error_def split: option.split)
qed

lemma covered_pump: "covered E b (pump E b)"
  unfolding pump_def
proof (rule covered_andThen [OF covered_drain])
  fix b :: batch
  let ?p = "poll E (b\<lparr>b_productive := False\<rparr>)"
  have prod: "breach E b (b\<lparr>b_productive := False\<rparr>)" by (rule breach_step)
  have poll: "covered E ?p r \<Longrightarrow> covered E b r" for r
    using covered_trans [OF prod] covered_poll by blast
  obtain f b1 e where f: "fireTimers E (time_now E b) (tick b) = (f, (b1, e))" by (metis prod.collapse)
  have fire: "covered E b (b1, e)" using covered_timers_tick [of E b "time_now E b"] f by simp
  then have sel: "e = None \<Longrightarrow> covered E b (pump_select E b1)"
    using covered_trans covered_pump_select by auto
  have "s_ctx ?p = Some x \<Longrightarrow> covered E ?p (failed x ?p)" for x
    by (rule covered_failed) (simp add: wait_error_def)
  then show "covered E b (if b_txState b = htxDone then fine (b\<lparr>b_productive := False\<rparr>)
       else if b_productive b then
         (let b = poll E (b\<lparr>b_productive := False\<rparr>) in
          case s_ctx b of
            Some e \<Rightarrow> failed e b
          | None \<Rightarrow> snd (fireTimers E (time_now E b) (tick b)))
       else
         (case fireTimers E (time_now E b) (tick b) of
            (fired, (b, Some e)) \<Rightarrow> failed e b
          | (fired, (b, None)) \<Rightarrow> if fired then fine b else pump_select E b))"
    using prod poll [OF covered_timers_tick] poll f fire sel
    by (cases e) (simp_all add: Let_def failed_def split: option.split)
qed

lemma covered_run_body:
  assumes "run_body E b = Some r"
  shows "covered E b r"
proof -
  obtain b1 e where d: "devAction E b = (b1, e)" by fastforce
  have dev: "covered E b (b1, e)" using covered_devAction [of E b] d by simp
  show ?thesis
  proof (cases e)
    case (Some x)
    with assms d dev show ?thesis by (auto simp: run_body_def failed_def)
  next
    case None
    with assms d obtain r1 where r1: "txAction E b1 = Some r1"
      "r = andThen r1 (\<lambda>b. let b = batch_sync E b in if b_txState b = htxDone then fine b else pump E b)"
      by (auto simp: run_body_def)
    have "covered E b1 r"
      unfolding r1(2)
    proof (rule covered_andThen [OF covered_txAction [OF r1(1)]])
      fix b'
      have "breach E b' (batch_sync E b')" by (rule breach_step)
      then show "covered E b' (let b = batch_sync E b' in if b_txState b = htxDone then fine b else pump E b)"
        using covered_step [OF st_sync covered_pump] by (simp add: Let_def)
    qed
    with dev None show ?thesis using covered_trans by auto
  qed
qed

text \<open>One unfolding of the loop, with an approximation of the recursive call.\<close>

definition run_unfold :: "(env \<Rightarrow> batch \<Rightarrow> outcome option) \<Rightarrow> env \<Rightarrow> batch \<Rightarrow> outcome option" where
  "run_unfold rl E b =
     (if b_txState b = htxDone then Some (fine b)
      else (case run_body E b of
          None \<Rightarrow> None
        | Some r \<Rightarrow> (case snd r of None \<Rightarrow> rl E (fst r) | Some e \<Rightarrow> Some r)))"

definition run_result :: "env \<Rightarrow> batch \<Rightarrow> outcome \<Rightarrow> bool" where
  "run_result E b r \<longleftrightarrow> covered E b r \<and> (snd r = None \<longrightarrow> b_txState (fst r) = htxDone)"

lemma run_unfold_reaches:
  assumes rl: "\<And>E b r. rl E b = Some r \<Longrightarrow> run_result E b r" and r: "run_unfold rl E b = Some r"
  shows "run_result E b r"
proof (cases "b_txState b = htxDone")
  case True
  with r show ?thesis by (auto simp: run_unfold_def run_result_def fine_def)
next
  case False
  with r obtain r1 where r1: "run_body E b = Some r1"
    by (auto simp: run_unfold_def split: option.splits)
  have b1: "covered E b r1" by (rule covered_run_body [OF r1])
  show ?thesis
  proof (cases "snd r1")
    case None
    with False r r1 have "rl E (fst r1) = Some r" by (simp add: run_unfold_def)
    moreover have "breach E b (fst r1)" using b1 None by (cases r1) simp
    ultimately show ?thesis using rl covered_trans by (auto simp: run_result_def)
  next
    case (Some x)
    with False r r1 b1 show ?thesis by (auto simp: run_unfold_def run_result_def)
  qed
qed

lemma run_loop_reaches: "run_loop E b = Some r \<Longrightarrow> run_result E b r"
  by (rule run_loop.raw_induct [where P = run_result, folded run_unfold_def]) (rule run_unfold_reaches)

subsection \<open>Postconditions\<close>

text \<open>
  \<open>post I F r\<close>: the state satisfies \<open>I\<close> when the code returns no error and \<open>F\<close> when it does.
\<close>

definition post :: "(batch \<Rightarrow> bool) \<Rightarrow> (batch \<Rightarrow> bool) \<Rightarrow> outcome \<Rightarrow> bool" where
  "post I F r \<longleftrightarrow> (case snd r of None \<Rightarrow> I (fst r) | Some e \<Rightarrow> F (fst r))"

lemma post_simps [simp]:
  "post I F (fine b) = I b"
  "post I F (failed e b) = F b"
  "post I F (b, None) = I b"
  "post I F (b, Some e) = F b"
  by (simp_all add: post_def fine_def failed_def)

lemma post_andThen:
  assumes "post J F r" and "\<And>b. J b \<Longrightarrow> post I F (f b)"
  shows "post I F (andThen r f)"
  using assms by (cases r; cases "snd r") (auto simp: post_def)

lemma post_mono: "post I F r \<Longrightarrow> (\<And>b. I b \<Longrightarrow> I' b) \<Longrightarrow> (\<And>b. F b \<Longrightarrow> F' b) \<Longrightarrow> post I' F' r"
  by (auto simp: post_def split: option.splits)

lemma post_writer_write:
  "post I F (writer_write E s b) \<longleftrightarrow>
     (case en_write E (s_log b) of None \<Rightarrow> I (emit (EvSend s None) b)
      | Some e \<Rightarrow> F (emit (EvSend s (Some e)) b))"
  by (simp add: post_def writer_write_def Let_def split: option.split)

lemma post_writeRaw:
  "post I F (writeRaw E p b) \<longleftrightarrow>
     (case en_write E (s_log b) of None \<Rightarrow> I (emit (EvRaw p None) b)
      | Some e \<Rightarrow> F (emit (EvRaw p (Some e)) b))"
  by (simp add: post_def writeRaw_def Let_def split: option.split)

subsection \<open>Offers that are taken\<close>

text \<open>The offers the code sends, rather than complete at once with an error.\<close>

definition usable :: "FileOffer \<Rightarrow> bool" where
  "usable ofr \<longleftrightarrow> 0 \<le> fo_Size ofr \<and> fo_Size ofr \<le> SafeMaxOffset \<and> fo_Reader ofr \<noteq> None"

subsection \<open>Invariants\<close>

text \<open>
  The contract between the event loop and a property of the state: every step keeps \<open>I\<close>,
  and \<open>F\<close> is what is left of it when the code returns an error. Then \<open>I\<close> holds in every
  state a run goes through and one of the two at its end.
\<close>

locale batch_invariant =
  fixes E :: env and I :: "batch \<Rightarrow> bool" and F :: "batch \<Rightarrow> bool"
  assumes weaken: "I b \<Longrightarrow> F b"
    and world: "I b \<Longrightarrow> I (absorb E x b)"
    and idle: "I b \<Longrightarrow> I (tick b) \<and> I (b\<lparr>s_inbox := q\<rparr>) \<and> I (b\<lparr>s_readErr := None\<rparr>)
      \<and> I (b\<lparr>b_productive := False\<rparr>)"
    and device: "I b \<Longrightarrow> I (queueDev req (b\<lparr>s_devQ := dq\<rparr>))"
    and sync: "I b \<Longrightarrow> I (batch_sync E b)"
    and packet: "I b \<Longrightarrow> post I F (handlePacket E pkt b)"
    and txTimer: "I b \<Longrightarrow> post I F (txTimeout E (b\<lparr>b_txTimer := None\<rparr>))"
    and devTimer: "I b \<Longrightarrow> post I F (devTimeout (b\<lparr>b_devTimer := None\<rparr>))"
    and devAct: "I b \<Longrightarrow> post I F (devAction E b)"
    and txAct: "I b \<Longrightarrow> txAction E b = Some r \<Longrightarrow> post I F r"
begin

lemma bstep_keeps: "bstep E b b' \<Longrightarrow> I b \<Longrightarrow> I b'"
proof (induction rule: bstep.induct)
  case (st_packet pkt b b')
  then show ?case using packet [of b pkt] by simp
next
  case (st_txTimeout b b')
  then show ?case using txTimer [of b] by simp
next
  case (st_devTimeout b b')
  then show ?case using devTimer [of b] by simp
next
  case (st_devAction b b')
  then show ?case using devAct [of b] by simp
next
  case (st_txAction b b')
  then show ?case using txAct by fastforce
qed (simp_all add: world idle device sync)

lemma breach_keeps: "breach E b b' \<Longrightarrow> I b \<Longrightarrow> I b'"
  by (induction rule: rtranclp_induct) (auto intro: bstep_keeps)

lemma bstop_keeps: "bstop E b b' e \<Longrightarrow> I b \<Longrightarrow> F b'"
proof (induction rule: bstop.induct)
  case (sp_packet pkt b b' e)
  then show ?case using packet [of b pkt] by simp
next
  case (sp_txTimeout b b' e)
  then show ?case using txTimer [of b] by simp
next
  case (sp_devTimeout b b' e)
  then show ?case using devTimer [of b] by simp
next
  case (sp_devAction b b' e)
  then show ?case using devAct [of b] by simp
next
  case (sp_txAction b b' e)
  then show ?case using txAct by fastforce
qed (simp add: weaken)

lemma run_loop_keeps: "run_loop E b = Some r \<Longrightarrow> I b \<Longrightarrow> post I F r"
  using run_loop_reaches [of E b r] breach_keeps bstop_keeps
  by (cases r; cases "snd r") (auto simp: run_result_def covered_def)

end

end
