(* ===== verification/Hydra_Gate.thy ===== *)
theory Hydra_Gate
  imports Hydra_Steps
begin

unbundle bit_operations_syntax

section \<open>The synchronisation of the three machines\<close>

text \<open>
  The invariant that ties the transmit, receive and device machines together: nothing but
  START and INIT leaves before the peer's INIT was processed, the END exchange begins only
  after the receive machine is done, the option sets of the session, the reader and the
  writer agree, the watchdog is armed, and an in-flight datagram exists exactly when the
  device machine is busy.
\<close>

definition gate_ok :: "txState \<Rightarrow> rxState \<Rightarrow> bool" where
  "gate_ok tx rx \<longleftrightarrow> (htxFinfo \<le> tx \<longrightarrow> rx \<noteq> hrxInit) \<and> (htxEnd \<le> tx \<longrightarrow> rx = hrxDone)"

definition opts_ok :: "batch \<Rightarrow> bool" where
  "opts_ok b \<longleftrightarrow> b_opts b = s_effOpts b \<and> (s_negotiated b \<longleftrightarrow> b_rxState b \<noteq> hrxInit)
     \<and> s_rxOpts b = (if s_negotiated b then b_opts b else capAssumed)
     \<and> (\<not> s_negotiated b \<longrightarrow> b_opts b = 0)
     \<and> b_opts b AND localSupported (s_config b) = b_opts b"

definition core_ok :: "batch \<Rightarrow> bool" where
  "core_ok b \<longleftrightarrow> gate_ok (b_txState b) (b_rxState b) \<and> b_braindead b \<noteq> None
     \<and> (b_devState b = htdDone \<longleftrightarrow> b_devPending b = None) \<and> opts_ok b"

text \<open>The fields the invariant does not mention.\<close>

lemma core_ok_frame [simp]:
  "core_ok (b\<lparr>s_inbox := x0\<rparr>) = core_ok b" "core_ok (b\<lparr>s_readErr := x1\<rparr>) = core_ok b"
  "core_ok (b\<lparr>s_readerDone := x2\<rparr>) = core_ok b" "core_ok (b\<lparr>s_devQ := x3\<rparr>) = core_ok b"
  "core_ok (b\<lparr>s_aborted := x4\<rparr>) = core_ok b" "core_ok (b\<lparr>s_err := x5\<rparr>) = core_ok b"
  "core_ok (b\<lparr>s_started := x6\<rparr>) = core_ok b" "core_ok (b\<lparr>s_runActive := x7\<rparr>) = core_ok b"
  "core_ok (b\<lparr>s_closerSet := x8\<rparr>) = core_ok b" "core_ok (b\<lparr>s_closed := x9\<rparr>) = core_ok b"
  "core_ok (b\<lparr>s_ctx := x10\<rparr>) = core_ok b" "core_ok (b\<lparr>s_clk := x11\<rparr>) = core_ok b"
  "core_ok (b\<lparr>s_log := x12\<rparr>) = core_ok b" "core_ok (b\<lparr>b_txWindow := x13\<rparr>) = core_ok b"
  "core_ok (b\<lparr>b_rxWindow := x14\<rparr>) = core_ok b" "core_ok (b\<lparr>b_prefix := x15\<rparr>) = core_ok b"
  "core_ok (b\<lparr>b_productive := x16\<rparr>) = core_ok b" "core_ok (b\<lparr>b_txTimer := x17\<rparr>) = core_ok b"
  "core_ok (b\<lparr>b_devTimer := x18\<rparr>) = core_ok b" "core_ok (b\<lparr>b_txRetries := x19\<rparr>) = core_ok b"
  "core_ok (b\<lparr>b_txSyncID := x20\<rparr>) = core_ok b" "core_ok (b\<lparr>b_blk := x21\<rparr>) = core_ok b"
  "core_ok (b\<lparr>b_txLastAck := x22\<rparr>) = core_ok b" "core_ok (b\<lparr>b_peerAcked := x23\<rparr>) = core_ok b"
  "core_ok (b\<lparr>b_hdxlink := x24\<rparr>) = core_ok b" "core_ok (b\<lparr>b_txOffer := x25\<rparr>) = core_ok b"
  "core_ok (b\<lparr>b_txReader := x26\<rparr>) = core_ok b" "core_ok (b\<lparr>b_txSeeker := x27\<rparr>) = core_ok b"
  "core_ok (b\<lparr>b_txInfo := x28\<rparr>) = core_ok b" "core_ok (b\<lparr>b_txPos := x29\<rparr>) = core_ok b"
  "core_ok (b\<lparr>b_txSkip := x30\<rparr>) = core_ok b" "core_ok (b\<lparr>b_txErr := x31\<rparr>) = core_ok b"
  "core_ok (b\<lparr>b_txEOB := x32\<rparr>) = core_ok b" "core_ok (b\<lparr>b_lastFinfo := x33\<rparr>) = core_ok b"
  "core_ok (b\<lparr>b_filesSent := x34\<rparr>) = core_ok b" "core_ok (b\<lparr>b_batchEnded := x35\<rparr>) = core_ok b"
  "core_ok (b\<lparr>b_finfoAckWait := x36\<rparr>) = core_ok b" "core_ok (b\<lparr>b_eofAckWait := x37\<rparr>) = core_ok b"
  "core_ok (b\<lparr>b_filesRcvd := x38\<rparr>) = core_ok b" "core_ok (b\<lparr>b_lastRefusedFinfo := x39\<rparr>) = core_ok b"
  "core_ok (b\<lparr>b_lastRefusedAck := x40\<rparr>) = core_ok b" "core_ok (b\<lparr>b_rxWriter := x41\<rparr>) = core_ok b"
  "core_ok (b\<lparr>b_rxOpen := x42\<rparr>) = core_ok b" "core_ok (b\<lparr>b_rxInfo := x43\<rparr>) = core_ok b"
  "core_ok (b\<lparr>b_rxPos := x44\<rparr>) = core_ok b" "core_ok (b\<lparr>b_rxRetries := x45\<rparr>) = core_ok b"
  "core_ok (b\<lparr>b_rxSyncID := x46\<rparr>) = core_ok b" "core_ok (b\<lparr>b_rxLastSync := x47\<rparr>) = core_ok b"
  "core_ok (b\<lparr>b_rxTimer := x48\<rparr>) = core_ok b" "core_ok (b\<lparr>b_rxBlkLen := x49\<rparr>) = core_ok b"
  "core_ok (b\<lparr>b_devRetries := x50\<rparr>) = core_ok b" "core_ok (b\<lparr>b_devTxID := x51\<rparr>) = core_ok b"
  "core_ok (b\<lparr>b_devRxID := x52\<rparr>) = core_ok b" "core_ok (b\<lparr>b_devQueue := x53\<rparr>) = core_ok b"
  by (simp_all add: core_ok_def opts_ok_def)

lemma core_ok_txState [simp]:
  "core_ok b \<Longrightarrow> core_ok (b\<lparr>b_txState := st\<rparr>) \<longleftrightarrow> gate_ok st (b_rxState b)"
  by (auto simp: core_ok_def opts_ok_def)

lemma core_ok_braindead [simp]: "core_ok b \<Longrightarrow> core_ok (b\<lparr>b_braindead := Some t\<rparr>)"
  by (auto simp: core_ok_def opts_ok_def)

lemma core_okD:
  assumes "core_ok b"
  shows "gate_ok (b_txState b) (b_rxState b)" "b_devState b = htdDone \<longleftrightarrow> b_devPending b = None" "opts_ok b"
    "b_braindead b \<noteq> None"
  using assms by (simp_all add: core_ok_def)

lemma gate_ok_simps [simp]:
  "gate_ok htxStart rx" "gate_ok htxSwait rx" "gate_ok htxInit rx" "gate_ok htxInitAck rx" "gate_ok htxRinit rx"
  "gate_ok htxFinfo rx \<longleftrightarrow> rx \<noteq> hrxInit" "gate_ok htxFinfoAck rx \<longleftrightarrow> rx \<noteq> hrxInit"
  "gate_ok htxXdata rx \<longleftrightarrow> rx \<noteq> hrxInit" "gate_ok htxDataAck rx \<longleftrightarrow> rx \<noteq> hrxInit"
  "gate_ok htxXwait rx \<longleftrightarrow> rx \<noteq> hrxInit" "gate_ok htxEOF rx \<longleftrightarrow> rx \<noteq> hrxInit"
  "gate_ok htxEOFAck rx \<longleftrightarrow> rx \<noteq> hrxInit" "gate_ok htxRend rx \<longleftrightarrow> rx \<noteq> hrxInit"
  "gate_ok htxEnd rx \<longleftrightarrow> rx = hrxDone" "gate_ok htxEndAck rx \<longleftrightarrow> rx = hrxDone"
  "gate_ok htxDone rx \<longleftrightarrow> rx = hrxDone"
  by (auto simp: gate_ok_def tx_order)

lemma core_ok_emit [simp]: "core_ok (emit e b) = core_ok b"
  by (simp add: emit_def)

lemma core_ok_tick [simp]: "core_ok (tick b) = core_ok b"
  by (simp add: tick_def)

subsection \<open>Blocks shared by the handlers\<close>

lemma core_ok_feed [simp]: "core_ok b \<Longrightarrow> core_ok (feedBraindead E b)"
  by (simp add: feedBraindead_def)

lemma feed_fields [simp]:
  "b_txState (feedBraindead E b) = b_txState b" "b_rxState (feedBraindead E b) = b_rxState b"
  by (simp_all add: feedBraindead_def tick_def)

lemma core_ok_timers [simp]: "core_ok (set_txTimer E d b) = core_ok b" "core_ok (armTx E b) = core_ok b"
  by (simp_all add: set_txTimer_def armTx_def Let_def)

lemma timer_fields [simp]:
  "b_txState (set_txTimer E d b) = b_txState b" "b_rxState (set_txTimer E d b) = b_rxState b"
  "b_txState (armTx E b) = b_txState b" "b_rxState (armTx E b) = b_rxState b"
  by (simp_all add: set_txTimer_def armTx_def tick_def Let_def)

lemma core_ok_writer [simp]: "core_ok b \<Longrightarrow> post core_ok core_ok (writer_write E s b)"
  by (simp add: post_writer_write split: option.split)

lemma core_ok_write [simp]: "core_ok b \<Longrightarrow> post core_ok core_ok (batch_write E t p b)"
  by (simp add: batch_write_def)

lemma core_ok_closeWriter [simp]: "core_ok (closeWriter w b) = core_ok b"
  by (simp add: closeWriter_def split: option.split)

lemma core_ok_completed [simp]: "core_ok (recvCompleted i n e b) = core_ok b" "core_ok (sendCompleted n e b) = core_ok b"
  by (simp_all add: recvCompleted_def sendCompleted_def)

lemma core_ok_rxClose [simp]: "core_ok (rxCloseFile e b) = core_ok b"
  by (simp add: rxCloseFile_def Let_def)

text \<open>Blocks that do not touch the two states.\<close>

lemma rx_block_fields [simp]:
  "b_txState (closeWriter w b) = b_txState b" "b_rxState (closeWriter w b) = b_rxState b"
  "b_txState (recvCompleted i n e b) = b_txState b" "b_rxState (recvCompleted i n e b) = b_rxState b"
  "b_txState (rxCloseFile e b) = b_txState b" "b_rxState (rxCloseFile e b) = b_rxState b"
  by (simp_all add: closeWriter_def recvCompleted_def rxCloseFile_def emit_def Let_def split: option.split)

lemma tx_block_fields [simp]:
  "b_rxState (sendCompleted n e b) = b_rxState b" "b_rxState (closeTxOffer b) = b_rxState b"
  "b_txState (closeTxOffer b) = b_txState b"
  by (simp_all add: sendCompleted_def closeTxOffer_def closeOffer_def emit_def split: option.split)

lemma core_ok_closeTx [simp]: "core_ok (closeTxOffer b) = core_ok b"
  by (simp add: closeTxOffer_def closeOffer_def split: option.split)

lemma core_ok_finish [simp]: "core_ok b \<Longrightarrow> core_ok (finishTxFile b) \<longleftrightarrow> b_rxState b \<noteq> hrxInit"
  by (simp add: finishTxFile_def Let_def)

lemma core_ok_skip [simp]: "core_ok b \<Longrightarrow> core_ok (skipToEOF e b) \<longleftrightarrow> b_rxState b \<noteq> hrxInit"
  by (simp add: skipToEOF_def)

lemma core_ok_times: "core_ok b \<Longrightarrow> post core_ok core_ok (write_times n E t b)"
proof (induction n arbitrary: b)
  case (Suc n)
  have "post core_ok core_ok (batch_write E t [] b)" using Suc.prems by simp
  with Suc.IH show ?case by (simp add: post_andThen)
qed simp

subsection \<open>The device machine\<close>

lemma core_ok_queueDev [simp]: "core_ok (queueDev req b) = core_ok b"
  by (simp add: queueDev_def Let_def)

lemma core_ok_promote [simp]: "core_ok b \<Longrightarrow> core_ok (devPromote b)"
  by (auto simp: devPromote_def core_ok_def opts_ok_def split: list.split)

lemma core_ok_devTimeout: "core_ok b \<Longrightarrow> post core_ok core_ok (devTimeout b)"
  by (auto simp: devTimeout_def Let_def core_ok_def opts_ok_def)

lemma core_ok_devAction: "core_ok b \<Longrightarrow> post core_ok core_ok (devAction E b)"
proof -
  assume "core_ok b"
  then have p: "core_ok (devPromote b)" by simp
  have drop: "core_ok (devPromote b\<lparr>b_devPending := None, b_devState := htdDone\<rparr>)"
    using p by (auto simp: core_ok_def opts_ok_def)
  have sent: "b_devPending b' = Some d \<Longrightarrow> core_ok b' \<Longrightarrow> core_ok (b'\<lparr>b_devState := htdDack\<rparr>)" for b' d
    by (auto simp: core_ok_def opts_ok_def)
  have "b_devPending (devPromote b) = Some d \<Longrightarrow>
      post core_ok core_ok (andThen (batch_write E pktDEVDATA (marshalDevData d) (devPromote b)) (\<lambda>b.
        fine ((tick (b\<lparr>b_devTimer := Some (time_now E b + cf_Timeout (s_config b))\<rparr>))\<lparr>b_devState := htdDack\<rparr>)))" for d
  proof (rule post_andThen [where J = "\<lambda>b. core_ok b \<and> b_devPending b = Some d"])
    show "b_devPending (devPromote b) = Some d \<Longrightarrow>
      post (\<lambda>b. core_ok b \<and> b_devPending b = Some d) core_ok (batch_write E pktDEVDATA (marshalDevData d) (devPromote b))"
      using p by (simp add: batch_write_def post_writer_write split: option.split) (simp add: emit_def)
  qed (auto simp: tick_def intro: sent)
  with p drop show ?thesis by (simp add: devAction_def Let_def split: option.split)
qed

lemma core_ok_devRx: "core_ok b \<Longrightarrow> post core_ok core_ok (devRx E pkt b)"
  by (simp add: devRx_def Let_def split: sum.split)

lemma core_ok_devDack: "core_ok b \<Longrightarrow> core_ok (devDack pkt b)"
  by (auto simp: devDack_def core_ok_def opts_ok_def split: sum.split option.split)

subsection \<open>The receive machine\<close>

lemma effective_opts_supported: "effective_opts ls ld ps pd AND ls = effective_opts ls ld ps pd"
  by (simp add: effective_opts_def and.assoc)

lemma core_ok_rxInit: "core_ok b \<Longrightarrow> post core_ok core_ok (rxInit E pkt b)"
proof -
  assume b: "core_ok b"
  have "b_rxState b = hrxInit \<Longrightarrow> post core_ok core_ok (andThen (negotiate p b) (\<lambda>b. fine (b\<lparr>b_rxState := hrxFinfo\<rparr>)))" for p
    using b by (auto simp: negotiate_def Let_def core_ok_def opts_ok_def gate_ok_def effective_opts_supported)
  then have "post core_ok core_ok (if b_rxState b = hrxInit then
          (case parseInit (pkt_payload pkt) of
             Inl _ \<Rightarrow> fine b
           | Inr p \<Rightarrow> andThen (negotiate p b) (\<lambda>b. fine (b\<lparr>b_rxState := hrxFinfo\<rparr>)))
        else fine b)"
    using b by (simp split: sum.split)
  then show ?thesis unfolding rxInit_def by (rule post_andThen) simp
qed

lemma core_ok_rxState:
  "core_ok b \<Longrightarrow> b_rxState b \<noteq> hrxInit \<Longrightarrow> b_rxState b \<noteq> hrxDone \<Longrightarrow> st \<noteq> hrxInit \<Longrightarrow>
    core_ok (b\<lparr>b_rxState := st\<rparr>)"
  by (auto simp: core_ok_def opts_ok_def gate_ok_def)

lemma core_ok_acceptFinfo:
  "core_ok b \<Longrightarrow> b_rxState b = hrxFinfo \<Longrightarrow> core_ok (snd (acceptFinfo E payload b))"
  by (simp add: acceptFinfo_def Let_def core_ok_rxState emit_def split: sum.split option.split prod.split)

lemma core_ok_rxFinfo: "core_ok b \<Longrightarrow> post core_ok core_ok (rxFinfo E pkt b)"
proof -
  assume b: "core_ok b"
  have "b_rxState b = hrxFinfo \<Longrightarrow> acceptFinfo E (pkt_payload pkt) (feedBraindead E b) = (ack, b') \<Longrightarrow> core_ok b'" for ack b'
    using core_ok_acceptFinfo [of "feedBraindead E b" E "pkt_payload pkt"] b by simp
  with b show ?thesis
    by (simp add: rxFinfo_def Let_def core_ok_rxState split: rxState.split prod.split)
qed

lemma core_ok_badPosition: "core_ok b \<Longrightarrow> post core_ok core_ok (badPosition E off eof b)"
  by (simp add: badPosition_def Let_def split: option.split)

lemma core_ok_requestSkip: "core_ok b \<Longrightarrow> post core_ok core_ok (requestSkip E e b)"
  by (simp add: requestSkip_def Let_def)

lemma core_ok_rxWrite: "rxWrite E data b = (b', r) \<Longrightarrow> core_ok b' = core_ok b"
  by (auto simp: rxWrite_def Let_def split: option.splits)

lemma core_ok_rxData: "core_ok b \<Longrightarrow> post core_ok core_ok (rxData E pkt b)"
proof -
  assume b: "core_ok b"
  have "core_ok b'" if "rxWrite E data ((feedBraindead E b)\<lparr>b_rxBlkLen := n\<rparr>) = (b', r)" for data n b' r
    using core_ok_rxWrite [OF that] b by simp
  with b show ?thesis
    by (auto simp: rxData_def Let_def core_ok_badPosition core_ok_requestSkip
        split: sum.split prod.split option.split)
qed

lemma core_ok_rxEOF: "core_ok b \<Longrightarrow> post core_ok core_ok (rxEOF E pkt b)"
  by (simp add: rxEOF_def core_ok_badPosition core_ok_rxState split: rxState.split sum.split)
subsection \<open>The transmit machine\<close>

lemma past_init:
  "core_ok b \<Longrightarrow> in_transfer (b_txState b) \<Longrightarrow> b_rxState b \<noteq> hrxInit"
  "core_ok b \<Longrightarrow> b_txState b = htxFinfo \<Longrightarrow> b_rxState b \<noteq> hrxInit"
  "core_ok b \<Longrightarrow> b_txState b = htxFinfoAck \<Longrightarrow> b_rxState b \<noteq> hrxInit"
  "core_ok b \<Longrightarrow> b_txState b = htxXdata \<Longrightarrow> b_rxState b \<noteq> hrxInit"
  "core_ok b \<Longrightarrow> b_txState b = htxDataAck \<Longrightarrow> b_rxState b \<noteq> hrxInit"
  "core_ok b \<Longrightarrow> b_txState b = htxXwait \<Longrightarrow> b_rxState b \<noteq> hrxInit"
  "core_ok b \<Longrightarrow> b_txState b = htxEOF \<Longrightarrow> b_rxState b \<noteq> hrxInit"
  "core_ok b \<Longrightarrow> b_txState b = htxEOFAck \<Longrightarrow> b_rxState b \<noteq> hrxInit"
  "core_ok b \<Longrightarrow> b_txState b = htxEnd \<Longrightarrow> b_rxState b = hrxDone"
  "core_ok b \<Longrightarrow> b_txState b = htxEndAck \<Longrightarrow> b_rxState b = hrxDone"
  using core_okD(1) [of b] by (auto simp: in_transfer_def)

lemma core_ok_txFinfoAck: "core_ok b \<Longrightarrow> post core_ok core_ok (txFinfoAck E pkt b)"
  by (auto simp: txFinfoAck_def Let_def past_init emit_def split: sum.split option.split)

lemma core_ok_txDataAck: "core_ok b \<Longrightarrow> core_ok (txDataAck pkt b)"
  by (simp add: txDataAck_def Let_def past_init split: sum.split)

lemma core_ok_txRpos: "core_ok b \<Longrightarrow> post core_ok core_ok (txRpos E pkt b)"
  by (simp add: txRpos_def Let_def past_init emit_def split: sum.split option.split)

lemma core_ok_txEOFAck: "core_ok b \<Longrightarrow> core_ok (txEOFAck E b)"
  by (auto simp: txEOFAck_def Let_def past_init)

lemma core_ok_txIdle: "core_ok b \<Longrightarrow> core_ok (txIdle E b)"
  by (simp add: txIdle_def past_init)

lemma post_conj_state:
  "core_ok b \<Longrightarrow> post (\<lambda>b'. core_ok b' \<and> b_rxState b' = b_rxState b) core_ok (batch_write E t p b)"
  by (simp add: batch_write_def post_writer_write split: option.split) (simp add: emit_def)

lemma post_times_state:
  "core_ok b \<Longrightarrow> post (\<lambda>b'. core_ok b' \<and> b_rxState b' = b_rxState b) core_ok (write_times n E t b)"
proof (induction n arbitrary: b)
  case (Suc n)
  show ?case unfolding write_times.simps
  proof (rule post_andThen [OF post_conj_state [OF Suc.prems]])
    fix b' assume "core_ok b' \<and> b_rxState b' = b_rxState b"
    with Suc.IH [of b'] show "post (\<lambda>b'. core_ok b' \<and> b_rxState b' = b_rxState b) core_ok (write_times n E t b')"
      by simp
  qed
qed simp

lemma core_ok_txEnd: "core_ok b \<Longrightarrow> post core_ok core_ok (txEnd E b)"
proof -
  assume b: "core_ok b"
  show ?thesis
  proof (cases "b_txState b \<noteq> htxEnd \<and> b_txState b \<noteq> htxEndAck")
    case True
    with b show ?thesis by (simp add: txEnd_def)
  next
    case False
    with b have rxd: "b_rxState b = hrxDone" using past_init by blast
    show ?thesis
      unfolding txEnd_def
      using False rxd by (auto intro!: post_andThen [OF post_times_state [OF b]])
  qed
qed

lemma core_ok_packet: "core_ok b \<Longrightarrow> post core_ok core_ok (handlePacket E pkt b)"
  by (simp add: handlePacket_def Let_def core_ok_rxInit core_ok_rxFinfo core_ok_txFinfoAck core_ok_rxData
      core_ok_txDataAck core_ok_txRpos core_ok_rxEOF core_ok_txEOFAck core_ok_txIdle core_ok_txEnd
      core_ok_devRx core_ok_devDack)

lemma core_ok_sync: "core_ok b \<Longrightarrow> core_ok (batch_sync E b)"
  by (simp add: batch_sync_def past_init)

lemma core_ok_txTimeout: "core_ok b \<Longrightarrow> post core_ok core_ok (txTimeout E b)"
proof -
  assume b: "core_ok b"
  have "post core_ok core_ok (andThen (batch_write E pktIDLE [] b) (\<lambda>b. fine (set_txTimer E (batch_idle b) b)))"
    by (rule post_andThen [OF core_ok_write [OF b]]) simp
  moreover have "gate_ok (retry_state (b_txState b)) (b_rxState b)"
    using core_okD(1) [OF b] by (cases "b_txState b") (simp_all add: retry_state_def)
  ultimately show ?thesis
    using b by (simp add: txTimeout_def Let_def past_init)
qed

lemma core_ok_sendData: "core_ok b \<Longrightarrow> b_txState b = htxXdata \<Longrightarrow> post core_ok core_ok (sendData E b)"
proof -
  assume b: "core_ok b" "b_txState b = htxXdata"
  then have rx: "b_rxState b \<noteq> hrxInit" by (simp add: past_init)
  have "post core_ok core_ok (andThen (batch_write E pktDATA p b') (sendData_sent E n))"
    if "core_ok b'" "b_rxState b' = b_rxState b" for b' p n
    by (rule post_andThen [OF post_conj_state [OF that(1)]])
      (use that rx in \<open>simp add: sendData_sent_def Let_def emit_def\<close>)
  with b rx show ?thesis by (simp add: sendData_def Let_def emit_def split: option.split)
qed

lemma core_ok_pull:
  assumes "pullOffers E b = Some b'" and "core_ok b \<and> b_rxState b \<noteq> hrxInit"
  shows "core_ok b' \<and> b_rxState b' \<noteq> hrxInit"
  using assms
  by (rule pullOffers_rule) (auto simp: rejectOffer_def closeOffer_def emit_def)

lemma core_ok_txAction: "core_ok b \<Longrightarrow> txAction E b = Some r \<Longrightarrow> post core_ok core_ok r"
proof -
  assume b: "core_ok b" and r: "txAction E b = Some r"
  have sends: "post core_ok core_ok (andThen (batch_write E t p b') (\<lambda>b. fine (f b)))"
    if "core_ok b'" "\<And>b. core_ok b \<Longrightarrow> b_rxState b = b_rxState b' \<Longrightarrow> core_ok (f b)" for t p b' f
    by (rule post_andThen [OF post_conj_state [OF that(1)]]) (use that(2) in simp)
  show ?thesis
  proof (cases "b_txState b")
    case htxStart
    have "post core_ok core_ok (writeRaw E autostart b)"
      using b by (simp add: post_writeRaw split: option.split)
    then have "post core_ok core_ok (andThen (writeRaw E autostart b) (\<lambda>b.
          andThen (batch_write E pktSTART [] b) (\<lambda>b.
          fine ((set_txTimer E startInterval b)\<lparr>b_txState := htxSwait\<rparr>))))"
      by (rule post_andThen) (rule sends; simp)
    with htxStart r show ?thesis by (simp add: txAction_def)
  next
    case htxInit
    have "post core_ok core_ok (andThen (sendInit E b) (\<lambda>b.
          fine ((set_txTimer E (cf_Timeout (s_config b) div 2) b)\<lparr>b_txState := htxInitAck\<rparr>)))"
      by (rule post_andThen [where J = core_ok]) (use b in \<open>simp_all add: sendInit_def Let_def\<close>)
    with htxInit r show ?thesis by (simp add: txAction_def)
  next
    case htxFinfo
    with b have rx: "b_rxState b \<noteq> hrxInit" by (simp add: past_init)
    from htxFinfo r obtain r1 where r1: "sendFinfo E b = Some r1"
      "r = andThen r1 (\<lambda>b. fine ((armTx E (b\<lparr>b_finfoAckWait := True\<rparr>))\<lparr>b_txState := htxFinfoAck\<rparr>))"
      by (auto simp: txAction_def)
    from r1(1) obtain b1 where b1: "(if b_lastFinfo b = None then map_option prepareFinfo (pullOffers E b) else Some b) = Some b1"
      "r1 = batch_write E pktFINFO (case b_lastFinfo b1 of Some p \<Rightarrow> p | None \<Rightarrow> []) b1"
      by (auto simp: sendFinfo_def split: option.splits)
    have "core_ok (prepareFinfo b2) = core_ok b2 \<and> b_rxState (prepareFinfo b2) = b_rxState b2" for b2
      by (simp add: prepareFinfo_def split: option.split)
    with b1(1) b rx core_ok_pull have "core_ok b1 \<and> b_rxState b1 \<noteq> hrxInit"
      by (auto split: if_splits)
    then show ?thesis unfolding r1(2) b1(2) by (intro sends) simp_all
  next
    case htxXdata
    with b r show ?thesis by (auto simp: txAction_def core_ok_sendData)
  next
    case htxEOF
    with b have "b_rxState b \<noteq> hrxInit" by (simp add: past_init)
    with b have "post core_ok core_ok (andThen (batch_write E pktEOF p b) (\<lambda>b.
          fine ((armTx E (b\<lparr>b_eofAckWait := True\<rparr>))\<lparr>b_txState := htxEOFAck\<rparr>)))" for p
      by (intro sends) simp_all
    with htxEOF r show ?thesis by (auto simp: txAction_def)
  next
    case htxEnd
    with b have "b_rxState b = hrxDone" by (simp add: past_init)
    then have "post core_ok core_ok (andThen (write_times endInitialCount E pktEND b) (\<lambda>b.
          fine ((set_txTimer E (cf_Timeout (s_config b) div 2) b)\<lparr>b_txState := htxEndAck\<rparr>)))"
      by (intro post_andThen [OF post_times_state [OF b]]) simp
    with htxEnd r show ?thesis by (auto simp: txAction_def)
  qed (use b r in \<open>auto simp: txAction_def\<close>)
qed

subsection \<open>Other goroutines\<close>

lemma core_ok_absorb: "core_ok b \<Longrightarrow> core_ok (absorb E x b)"
  by (cases x)
    (simp_all add: SendDevice_def Abort_def Close_def session_close_def courtesyCancel_def triggerAbort_def
      recordError_def writeRaw_def emit_def Let_def split: prod.split bool.split)

interpretation core: batch_invariant E core_ok core_ok for E
proof unfold_locales
  fix b dq req
  assume "core_ok b"
  then show "core_ok (queueDev req (b\<lparr>s_devQ := dq\<rparr>))" by simp
qed (simp_all add: core_ok_absorb core_ok_sync core_ok_packet core_ok_txTimeout core_ok_devTimeout
    core_ok_devAction core_ok_txAction)

subsection \<open>Where a batch starts\<close>

definition fresh :: "session \<Rightarrow> bool" where
  \<comment> \<open>the state \<open>Run\<close> prepares before it creates the batch\<close>
  "fresh s \<longleftrightarrow> \<not> s_negotiated s \<and> s_effOpts s = 0 \<and> s_rxOpts s = capAssumed"

definition batch_start :: "env \<Rightarrow> session \<Rightarrow> batch" where
  "batch_start E s = feedBraindead E (newBatch s)"

definition reachable :: "env \<Rightarrow> session \<Rightarrow> batch \<Rightarrow> bool" where
  \<comment> \<open>a state of a batch of \<open>s\<close>, at any moment before it returns\<close>
  "reachable E s b \<longleftrightarrow> breach E (batch_start E s) b"

lemma core_ok_start: "fresh s \<Longrightarrow> core_ok (batch_start E s)"
  by (simp add: batch_start_def feedBraindead_def tick_def newBatch_def fresh_def core_ok_def opts_ok_def
      session.defs Let_def)

lemma fresh_setup: "fresh (run_setup ctx s)"
  by (simp add: fresh_def run_setup_def)

lemma core_ok_reachable: "fresh s \<Longrightarrow> reachable E s b \<Longrightarrow> core_ok b"
  unfolding reachable_def using core.breach_keeps core_ok_start by blast

text \<open>A concrete environment and session for the examples of this development.\<close>

definition demoEnv :: env where
  "demoEnv = \<lparr>en_now = (\<lambda>n. int n), en_outside = (\<lambda>_. []), en_wake = (\<lambda>_. WakeTimer), en_write = (\<lambda>_. None),
     en_nextFile = (\<lambda>_. None), en_source = (\<lambda>_ _ _. ([], IoEOF)), en_seek = (\<lambda>_ _ _. None),
     en_accept = (\<lambda>_ _. (None, 0, Some ErrDefer)), en_writeFile = (\<lambda>_ _ _. None), en_hasDev = False,
     en_closable = True\<rparr>"

definition demoSession :: session where
  "demoSession = run_setup None (NewSession None)"

definition demoStart :: packet where
  "demoStart = \<lparr>pkt_typ = pktSTART, pkt_payload = []\<rparr>"

lemma demo_fresh: "fresh demoSession"
  by (simp add: demoSession_def fresh_setup)

text \<open>The state after the peer's START.\<close>

definition demoBatch :: batch where
  "demoBatch = fst (handlePacket demoEnv demoStart (batch_start demoEnv demoSession))"

lemma demo_reachable: "reachable demoEnv demoSession demoBatch"
proof -
  have "handlePacket demoEnv demoStart (batch_start demoEnv demoSession) = (demoBatch, None)"
    by (simp add: demoBatch_def handlePacket_def demoStart_def Let_def fine_def)
  from st_packet [OF this] show ?thesis unfolding reachable_def by (rule breach1)
qed

lemma demo_state: "b_txState demoBatch = htxInit"
proof -
  have "b_txState (batch_start demoEnv demoSession) = htxStart"
    by (simp add: batch_start_def newBatch_def session.defs Let_def)
  then have "b_txState (emit e (batch_start demoEnv demoSession)) = htxStart" for e
    by (simp add: emit_def)
  then show ?thesis by (simp add: demoBatch_def handlePacket_def demoStart_def Let_def fine_def)
qed

subsection \<open>The properties\<close>

text \<open>
  Property C10. The synchronisation point: at every moment of a batch, the transmit machine is
  past \<open>htxRinit\<close> (so it may send FINFO, DATA, EOF, DEVDATA) only if the receive machine has
  processed the peer's INIT, and it is in the END exchange only if the receive machine is
  done. This is what the hang-up rule of \<open>Run\<close> relies on.
\<close>

theorem sync_gate:
  assumes "fresh s" and "reachable E s b"
  shows "(htxFinfo \<le> b_txState b \<longrightarrow> b_rxState b \<noteq> hrxInit) \<and> (htxEnd \<le> b_txState b \<longrightarrow> b_rxState b = hrxDone)"
  using core_okD(1) [OF core_ok_reachable [OF assms]] by (simp add: gate_ok_def)

text \<open>
  Property C23. One option set: at every moment the options the writer uses, the options
  \<open>SendDevice\<close> consults and, once negotiated, the options the reader goroutine decodes with
  are the same set, a subset of what the local side supports without ASC and UUE; before
  negotiation nothing is active and the reader assumes the full escape set.
\<close>

theorem options_agree:
  assumes "fresh s" and "reachable E s b"
  shows "b_opts b = s_effOpts b \<and> s_rxOpts b = (if s_negotiated b then b_opts b else capAssumed)
    \<and> (s_negotiated b \<longleftrightarrow> b_rxState b \<noteq> hrxInit) \<and> (\<not> s_negotiated b \<longrightarrow> b_opts b = 0)
    \<and> b_opts b AND localSupported (s_config b) = b_opts b
    \<and> \<not> has (b_opts b) capASC \<and> \<not> has (b_opts b) capUUE"
proof -
  have o: "opts_ok b" using core_okD(3) [OF core_ok_reachable [OF assms]] .
  have "\<not> has (b_opts b) c" if "\<not> has (localSupported (s_config b)) c" for c
  proof -
    have bb: "b_opts b AND localSupported (s_config b) = b_opts b" using o unfolding opts_ok_def by blast
    have "b_opts b AND c = (b_opts b AND localSupported (s_config b)) AND c" by (simp only: bb)
    also have "\<dots> = b_opts b AND (localSupported (s_config b) AND c)" by (simp add: and.assoc)
    finally show ?thesis using that by (simp add: has_def)
  qed
  with localSupported_no_asc [of "s_config b"] o show ?thesis unfolding opts_ok_def by blast
qed

end
