(* ===== verification/Hydra_TxContract.thy ===== *)
theory Hydra_TxContract
  imports Hydra_Gate
begin

section \<open>What the sender promises the application and the peer\<close>

text \<open>
  The contract of \<open>SendHandler\<close> and \<open>FileOffer\<close> as an automaton over the event log: between
  two answers of \<open>NextFile\<close> the offered file is read, repositioned, closed and reported in
  the documented order, and every DATA frame carries the bytes last read from the source,
  at the position they were read from. The invariant says that the log is accepted and that
  the sender's variables agree with the automaton's state.
\<close>

subsection \<open>The contract\<close>

datatype hook = NoHook | Armed | Ran

text \<open>
  \<open>SFile ofr h pos blk\<close>: the file in flight (its hook field cleared), the state of its
  \<open>Close\<close> hook, the position of the source if it is known, the last block read from it.
\<close>

datatype send_phase = SIdle | SFile FileOffer hook "int option" "(int \<times> byte list) option"

definition unhooked :: "FileOffer \<Rightarrow> FileOffer" where "unhooked ofr = ofr\<lparr>fo_Close := False\<rparr>"

fun send_step :: "send_phase \<Rightarrow> event \<Rightarrow> send_phase option" where
  "send_step SIdle (EvNextFile None) = Some SIdle"
| "send_step SIdle (EvNextFile (Some ofr)) =
     Some (SFile (unhooked ofr) (if fo_Close ofr then Armed else NoHook) (Some 0) None)"
| "send_step SIdle (EvOfferClose ofr) = None"
| "send_step SIdle (EvRead h buf e) = None"
| "send_step SIdle (EvSeek h off e) = None"
| "send_step SIdle (EvSendProgress info n) = None"
| "send_step SIdle (EvSendCompleted info n e) = None"
| "send_step SIdle (EvSend s r) = (if pkt_typ (sn_packet s) = pktDATA then None else Some SIdle)"
| "send_step (SFile ofr h pos blk) (EvNextFile a) = None"
| "send_step (SFile ofr h pos blk) (EvOfferClose ofr') =
     (if h = Armed \<and> unhooked ofr' = ofr then Some (SFile ofr Ran pos blk) else None)"
| "send_step (SFile ofr h pos blk) (EvRead src buf e) =
     (case pos of
        Some p \<Rightarrow>
          (if h \<noteq> Ran \<and> fo_Reader ofr = Some src
           then Some (SFile ofr h (if e = None \<or> e = Some IoEOF \<or> e = Some IoUnexpectedEOF
                                   then Some (p + int (length buf)) else None) (Some (p, buf)))
           else None)
      | None \<Rightarrow> None)"
| "send_step (SFile ofr h pos blk) (EvSeek src off e) =
     (if h \<noteq> Ran \<and> fo_Seeker ofr \<and> fo_Reader ofr = Some src \<and> 0 \<le> off \<and> off \<le> fo_Size ofr
      then Some (SFile ofr h (if e = None then Some off else None) None) else None)"
| "send_step (SFile ofr h pos blk) (EvSendProgress info n) =
     (if info = offerInfo ofr \<and> pos = Some n then Some (SFile ofr h pos blk) else None)"
| "send_step (SFile ofr h pos blk) (EvSendCompleted info n e) =
     (if info = offerInfo ofr \<and> h \<noteq> Armed \<and> (e = None \<longrightarrow> pos = Some n) then Some SIdle else None)"
| "send_step (SFile ofr h pos blk) (EvSend s r) =
     (if pkt_typ (sn_packet s) = pktDATA
      then (if h \<noteq> Ran \<and> (\<exists>p buf. blk = Some (p, buf) \<and> 0 \<le> p \<and> p + int (length buf) \<le> SafeMaxOffset
                 \<and> pkt_payload (sn_packet s) = marshalData p buf)
            then Some (SFile ofr h pos blk) else None)
      else Some (SFile ofr h pos blk))"
| "send_step ph e = Some ph"

definition send_trace :: "event list \<Rightarrow> send_phase option" where
  "send_trace es = foldl (\<lambda>p e. Option.bind p (\<lambda>ph. send_step ph e)) (Some SIdle) es"

lemma send_trace_snoc: "send_trace (es @ [e]) = Option.bind (send_trace es) (\<lambda>ph. send_step ph e)"
  by (simp add: send_trace_def)

definition sends :: "batch \<Rightarrow> send_phase option" where
  "sends b = send_trace (s_log b)"

lemma sends_emit [simp]: "sends (emit e b) = Option.bind (sends b) (\<lambda>ph. send_step ph e)"
  by (simp add: sends_def emit_def send_trace_snoc)

text \<open>Events the contract does not constrain.\<close>

definition tx_neutral :: "event \<Rightarrow> bool" where
  "tx_neutral e \<longleftrightarrow> (case e of
       EvNextFile a \<Rightarrow> False | EvOfferClose a \<Rightarrow> False | EvRead a b c \<Rightarrow> False | EvSeek a b c \<Rightarrow> False
     | EvSendProgress a b \<Rightarrow> False | EvSendCompleted a b c \<Rightarrow> False
     | EvSend s r \<Rightarrow> pkt_typ (sn_packet s) \<noteq> pktDATA | _ \<Rightarrow> True)"

lemma send_step_neutral: "tx_neutral e \<Longrightarrow> send_step ph e = Some ph"
  by (cases ph; cases e) (auto simp: tx_neutral_def)

subsection \<open>The invariant\<close>

definition tx_weak :: "batch \<Rightarrow> bool" where
  "tx_weak b \<longleftrightarrow> (case b_txOffer b of
       None \<Rightarrow> sends b = Some SIdle
     | Some ofr \<Rightarrow> b_txInfo b = offerInfo ofr \<and>
         (\<exists>h pos blk. sends b = Some (SFile (unhooked ofr) h pos blk) \<and> (fo_Close ofr \<longleftrightarrow> h = Armed)))"

definition tx_file :: "batch \<Rightarrow> bool" where
  \<comment> \<open>the variables of the file in flight\<close>
  "tx_file b \<longleftrightarrow> (case b_txOffer b of
       None \<Rightarrow> sends b = Some SIdle
     | Some ofr \<Rightarrow> b_txInfo b = offerInfo ofr \<and> b_txReader b = fo_Reader ofr \<and> fo_Reader ofr \<noteq> None
         \<and> b_txSeeker b = (if fo_Seeker ofr then fo_Reader ofr else None)
         \<and> 0 \<le> fo_Size ofr \<and> fo_Size ofr \<le> SafeMaxOffset \<and> 0 \<le> b_txPos b \<and> b_txPos b \<le> SafeMaxOffset
         \<and> (\<exists>h pos blk. sends b = Some (SFile (unhooked ofr) h pos blk)
              \<and> h = (if fo_Close ofr then Armed else NoHook) \<and> (b_txSkip b \<or> pos = Some (b_txPos b))))"

definition tx_phase :: "batch \<Rightarrow> bool" where
  \<comment> \<open>how the state, the pending announcement and the acknowledgement flags go together\<close>
  "tx_phase b \<longleftrightarrow>
     (b_finfoAckWait b \<longrightarrow> b_lastFinfo b \<noteq> None)
     \<and> (if in_transfer (b_txState b)
        then b_txOffer b \<noteq> None \<and> b_lastFinfo b = None \<and> \<not> b_finfoAckWait b
        else \<not> b_eofAckWait b
           \<and> (if b_txState b = htxFinfo \<or> b_txState b = htxFinfoAck
              then (case b_lastFinfo b of
                      None \<Rightarrow> b_txOffer b = None \<and> b_txState b = htxFinfo
                    | Some p \<Rightarrow> (b_txEOB b \<longleftrightarrow> b_txOffer b = None)
                        \<and> (b_txOffer b \<noteq> None \<longrightarrow> b_txPos b = 0 \<and> \<not> b_txSkip b))
              else b_txOffer b = None \<and> b_lastFinfo b = None))"

definition tx_ok :: "batch \<Rightarrow> bool" where
  "tx_ok b \<longleftrightarrow> tx_file b \<and> tx_phase b \<and> blk_inv (b_blk b)"

lemma tx_ok_weak: "tx_ok b \<Longrightarrow> tx_weak b"
  by (auto simp: tx_ok_def tx_file_def tx_weak_def split: option.splits)

text \<open>The fields the invariant does not mention.\<close>

definition tx_view where
  "tx_view b = (b_txState b, b_txOffer b, b_txReader b, b_txSeeker b, b_txInfo b, b_txPos b, b_txSkip b,
     b_txEOB b, b_lastFinfo b, b_finfoAckWait b, b_eofAckWait b)"

lemma tx_file_view: "sends b = sends b' \<Longrightarrow> tx_view b = tx_view b' \<Longrightarrow> tx_file b = tx_file b'"
  by (simp only: tx_view_def prod.inject tx_file_def cong: option.case_cong)

lemma tx_phase_view: "tx_view b = tx_view b' \<Longrightarrow> tx_phase b = tx_phase b'"
  by (simp only: tx_view_def prod.inject tx_phase_def cong: option.case_cong)

lemma tx_ok_view:
  "sends b = sends b' \<Longrightarrow> tx_view b = tx_view b' \<Longrightarrow> b_blk b = b_blk b' \<Longrightarrow> tx_ok b = tx_ok b'"
  by (simp add: tx_ok_def tx_file_view [of b b'] tx_phase_view [of b b'])

lemma tx_ok_blk: "tx_ok b \<Longrightarrow> blk_inv k \<Longrightarrow> tx_ok (b\<lparr>b_blk := k\<rparr>)"
proof -
  have "sends (b\<lparr>b_blk := k\<rparr>) = sends b" "tx_view (b\<lparr>b_blk := k\<rparr>) = tx_view b"
    by (simp_all add: sends_def tx_view_def)
  from tx_file_view [OF this] tx_phase_view [OF this(2)]
  show "tx_ok b \<Longrightarrow> blk_inv k \<Longrightarrow> tx_ok (b\<lparr>b_blk := k\<rparr>)" by (simp add: tx_ok_def)
qed

lemma tx_weak_view: "sends b = sends b' \<Longrightarrow> tx_view b = tx_view b' \<Longrightarrow> tx_weak b = tx_weak b'"
  by (simp only: tx_view_def prod.inject tx_weak_def cong: option.case_cong)

lemma tx_ok_frame [simp]:
  "tx_ok (b\<lparr>s_config := x0\<rparr>) = tx_ok b" "tx_ok (b\<lparr>s_rxOpts := x1\<rparr>) = tx_ok b"
  "tx_ok (b\<lparr>s_effOpts := x2\<rparr>) = tx_ok b" "tx_ok (b\<lparr>s_negotiated := x3\<rparr>) = tx_ok b"
  "tx_ok (b\<lparr>s_inbox := x4\<rparr>) = tx_ok b" "tx_ok (b\<lparr>s_readErr := x5\<rparr>) = tx_ok b"
  "tx_ok (b\<lparr>s_readerDone := x6\<rparr>) = tx_ok b" "tx_ok (b\<lparr>s_devQ := x7\<rparr>) = tx_ok b"
  "tx_ok (b\<lparr>s_aborted := x8\<rparr>) = tx_ok b" "tx_ok (b\<lparr>s_err := x9\<rparr>) = tx_ok b"
  "tx_ok (b\<lparr>s_started := x10\<rparr>) = tx_ok b" "tx_ok (b\<lparr>s_runActive := x11\<rparr>) = tx_ok b"
  "tx_ok (b\<lparr>s_closerSet := x12\<rparr>) = tx_ok b" "tx_ok (b\<lparr>s_closed := x13\<rparr>) = tx_ok b"
  "tx_ok (b\<lparr>s_ctx := x14\<rparr>) = tx_ok b" "tx_ok (b\<lparr>s_clk := x15\<rparr>) = tx_ok b"
  "tx_ok (b\<lparr>b_opts := x16\<rparr>) = tx_ok b" "tx_ok (b\<lparr>b_txWindow := x17\<rparr>) = tx_ok b"
  "tx_ok (b\<lparr>b_rxWindow := x18\<rparr>) = tx_ok b" "tx_ok (b\<lparr>b_prefix := x19\<rparr>) = tx_ok b"
  "tx_ok (b\<lparr>b_productive := x20\<rparr>) = tx_ok b" "tx_ok (b\<lparr>b_txTimer := x21\<rparr>) = tx_ok b"
  "tx_ok (b\<lparr>b_devTimer := x22\<rparr>) = tx_ok b" "tx_ok (b\<lparr>b_braindead := x23\<rparr>) = tx_ok b"
  "tx_ok (b\<lparr>b_txRetries := x24\<rparr>) = tx_ok b" "tx_ok (b\<lparr>b_txSyncID := x25\<rparr>) = tx_ok b"
  "tx_ok (b\<lparr>b_txLastAck := x26\<rparr>) = tx_ok b" "tx_ok (b\<lparr>b_peerAcked := x27\<rparr>) = tx_ok b"
  "tx_ok (b\<lparr>b_hdxlink := x28\<rparr>) = tx_ok b" "tx_ok (b\<lparr>b_txErr := x29\<rparr>) = tx_ok b"
  "tx_ok (b\<lparr>b_filesSent := x30\<rparr>) = tx_ok b" "tx_ok (b\<lparr>b_batchEnded := x31\<rparr>) = tx_ok b"
  "tx_ok (b\<lparr>b_rxState := x32\<rparr>) = tx_ok b" "tx_ok (b\<lparr>b_filesRcvd := x33\<rparr>) = tx_ok b"
  "tx_ok (b\<lparr>b_lastRefusedFinfo := x34\<rparr>) = tx_ok b" "tx_ok (b\<lparr>b_lastRefusedAck := x35\<rparr>) = tx_ok b"
  "tx_ok (b\<lparr>b_rxWriter := x36\<rparr>) = tx_ok b" "tx_ok (b\<lparr>b_rxOpen := x37\<rparr>) = tx_ok b"
  "tx_ok (b\<lparr>b_rxInfo := x38\<rparr>) = tx_ok b" "tx_ok (b\<lparr>b_rxPos := x39\<rparr>) = tx_ok b"
  "tx_ok (b\<lparr>b_rxRetries := x40\<rparr>) = tx_ok b" "tx_ok (b\<lparr>b_rxSyncID := x41\<rparr>) = tx_ok b"
  "tx_ok (b\<lparr>b_rxLastSync := x42\<rparr>) = tx_ok b" "tx_ok (b\<lparr>b_rxTimer := x43\<rparr>) = tx_ok b"
  "tx_ok (b\<lparr>b_rxBlkLen := x44\<rparr>) = tx_ok b" "tx_ok (b\<lparr>b_devState := x45\<rparr>) = tx_ok b"
  "tx_ok (b\<lparr>b_devRetries := x46\<rparr>) = tx_ok b" "tx_ok (b\<lparr>b_devTxID := x47\<rparr>) = tx_ok b"
  "tx_ok (b\<lparr>b_devRxID := x48\<rparr>) = tx_ok b" "tx_ok (b\<lparr>b_devPending := x49\<rparr>) = tx_ok b"
  "tx_ok (b\<lparr>b_devQueue := x50\<rparr>) = tx_ok b"
  by (rule tx_ok_view; simp add: tx_view_def sends_def)+

lemma tx_weak_frame [simp]:
  "tx_weak (b\<lparr>s_config := x0\<rparr>) = tx_weak b" "tx_weak (b\<lparr>s_rxOpts := x1\<rparr>) = tx_weak b"
  "tx_weak (b\<lparr>s_effOpts := x2\<rparr>) = tx_weak b" "tx_weak (b\<lparr>s_negotiated := x3\<rparr>) = tx_weak b"
  "tx_weak (b\<lparr>s_inbox := x4\<rparr>) = tx_weak b" "tx_weak (b\<lparr>s_readErr := x5\<rparr>) = tx_weak b"
  "tx_weak (b\<lparr>s_readerDone := x6\<rparr>) = tx_weak b" "tx_weak (b\<lparr>s_devQ := x7\<rparr>) = tx_weak b"
  "tx_weak (b\<lparr>s_aborted := x8\<rparr>) = tx_weak b" "tx_weak (b\<lparr>s_err := x9\<rparr>) = tx_weak b"
  "tx_weak (b\<lparr>s_started := x10\<rparr>) = tx_weak b" "tx_weak (b\<lparr>s_runActive := x11\<rparr>) = tx_weak b"
  "tx_weak (b\<lparr>s_closerSet := x12\<rparr>) = tx_weak b" "tx_weak (b\<lparr>s_closed := x13\<rparr>) = tx_weak b"
  "tx_weak (b\<lparr>s_ctx := x14\<rparr>) = tx_weak b" "tx_weak (b\<lparr>s_clk := x15\<rparr>) = tx_weak b"
  "tx_weak (b\<lparr>b_opts := x16\<rparr>) = tx_weak b" "tx_weak (b\<lparr>b_txWindow := x17\<rparr>) = tx_weak b"
  "tx_weak (b\<lparr>b_rxWindow := x18\<rparr>) = tx_weak b" "tx_weak (b\<lparr>b_prefix := x19\<rparr>) = tx_weak b"
  "tx_weak (b\<lparr>b_productive := x20\<rparr>) = tx_weak b" "tx_weak (b\<lparr>b_txTimer := x21\<rparr>) = tx_weak b"
  "tx_weak (b\<lparr>b_devTimer := x22\<rparr>) = tx_weak b" "tx_weak (b\<lparr>b_braindead := x23\<rparr>) = tx_weak b"
  "tx_weak (b\<lparr>b_txRetries := x24\<rparr>) = tx_weak b" "tx_weak (b\<lparr>b_txSyncID := x25\<rparr>) = tx_weak b"
  "tx_weak (b\<lparr>b_txLastAck := x26\<rparr>) = tx_weak b" "tx_weak (b\<lparr>b_peerAcked := x27\<rparr>) = tx_weak b"
  "tx_weak (b\<lparr>b_hdxlink := x28\<rparr>) = tx_weak b" "tx_weak (b\<lparr>b_txErr := x29\<rparr>) = tx_weak b"
  "tx_weak (b\<lparr>b_filesSent := x30\<rparr>) = tx_weak b" "tx_weak (b\<lparr>b_batchEnded := x31\<rparr>) = tx_weak b"
  "tx_weak (b\<lparr>b_rxState := x32\<rparr>) = tx_weak b" "tx_weak (b\<lparr>b_filesRcvd := x33\<rparr>) = tx_weak b"
  "tx_weak (b\<lparr>b_lastRefusedFinfo := x34\<rparr>) = tx_weak b" "tx_weak (b\<lparr>b_lastRefusedAck := x35\<rparr>) = tx_weak b"
  "tx_weak (b\<lparr>b_rxWriter := x36\<rparr>) = tx_weak b" "tx_weak (b\<lparr>b_rxOpen := x37\<rparr>) = tx_weak b"
  "tx_weak (b\<lparr>b_rxInfo := x38\<rparr>) = tx_weak b" "tx_weak (b\<lparr>b_rxPos := x39\<rparr>) = tx_weak b"
  "tx_weak (b\<lparr>b_rxRetries := x40\<rparr>) = tx_weak b" "tx_weak (b\<lparr>b_rxSyncID := x41\<rparr>) = tx_weak b"
  "tx_weak (b\<lparr>b_rxLastSync := x42\<rparr>) = tx_weak b" "tx_weak (b\<lparr>b_rxTimer := x43\<rparr>) = tx_weak b"
  "tx_weak (b\<lparr>b_rxBlkLen := x44\<rparr>) = tx_weak b" "tx_weak (b\<lparr>b_devState := x45\<rparr>) = tx_weak b"
  "tx_weak (b\<lparr>b_devRetries := x46\<rparr>) = tx_weak b" "tx_weak (b\<lparr>b_devTxID := x47\<rparr>) = tx_weak b"
  "tx_weak (b\<lparr>b_devRxID := x48\<rparr>) = tx_weak b" "tx_weak (b\<lparr>b_devPending := x49\<rparr>) = tx_weak b"
  "tx_weak (b\<lparr>b_devQueue := x50\<rparr>) = tx_weak b"
  by (rule tx_weak_view; simp add: tx_view_def sends_def)+

lemma sends_neutral: "tx_neutral e \<Longrightarrow> sends (emit e b) = sends b"
  by (cases "sends b") (simp_all add: send_step_neutral)

lemma tx_ok_neutral: "tx_neutral e \<Longrightarrow> tx_ok (emit e b) = tx_ok b"
  by (rule tx_ok_view [OF sends_neutral]) (simp_all add: tx_view_def emit_def)

lemma tx_weak_neutral: "tx_neutral e \<Longrightarrow> tx_weak (emit e b) = tx_weak b"
  by (rule tx_weak_view [OF sends_neutral]) (simp_all add: tx_view_def emit_def)

subsection \<open>Steps of the other machines\<close>

lemma tx_neutral_simps [simp]:
  "tx_neutral (EvRecv p)" "tx_neutral (EvRaw bs r)" "tx_neutral (EvAccept i w off herr)" "tx_neutral (EvWrite h d r)"
  "tx_neutral (EvWriterClose h)" "tx_neutral (EvRecvProgress i n)" "tx_neutral (EvRecvCompleted i n e)"
  "tx_neutral (EvDevice nm q)" "tx_neutral EvTransportClose"
  "tx_neutral (EvSend s r) \<longleftrightarrow> pkt_typ (sn_packet s) \<noteq> pktDATA"
  by (simp_all add: tx_neutral_def)

lemma tx_ok_tick [simp]: "tx_ok (tick b) = tx_ok b"
  by (simp add: tick_def)

lemma tx_ok_feed [simp]: "tx_ok (feedBraindead E b) = tx_ok b"
  by (simp add: feedBraindead_def)

lemma tx_ok_timers [simp]: "tx_ok (set_txTimer E d b) = tx_ok b" "tx_ok (armTx E b) = tx_ok b"
  by (simp_all add: set_txTimer_def armTx_def Let_def)

lemma tx_ok_writer: "tx_ok b \<Longrightarrow> pkt_typ (sn_packet s) \<noteq> pktDATA \<Longrightarrow> post tx_ok tx_ok (writer_write E s b)"
  by (simp add: post_writer_write tx_ok_neutral split: option.split)

lemma tx_ok_write [simp]: "tx_ok b \<Longrightarrow> t \<noteq> pktDATA \<Longrightarrow> post tx_ok tx_ok (batch_write E t p b)"
  by (simp add: batch_write_def tx_ok_writer)

lemma tx_ok_times: "tx_ok b \<Longrightarrow> t \<noteq> pktDATA \<Longrightarrow> post tx_ok tx_ok (write_times n E t b)"
proof (induction n arbitrary: b)
  case (Suc n)
  show ?case unfolding write_times.simps
    by (rule post_andThen [OF tx_ok_write [OF Suc.prems] Suc.IH [OF _ Suc.prems(2)]])
qed simp

lemma tx_ok_rx_blocks [simp]:
  "tx_ok (closeWriter w b) = tx_ok b" "tx_ok (recvCompleted i n e b) = tx_ok b"
  by (simp_all add: closeWriter_def recvCompleted_def tx_ok_neutral split: option.split)

lemma tx_ok_rxClose [simp]: "tx_ok (rxCloseFile e b) = tx_ok b"
  by (simp add: rxCloseFile_def Let_def)

lemma tx_ok_devices:
  "tx_ok (queueDev req b) = tx_ok b" "tx_ok b \<Longrightarrow> tx_ok (devDack pkt b)"
  "tx_ok b \<Longrightarrow> post tx_ok tx_ok (devTimeout b)" "tx_ok b \<Longrightarrow> post tx_ok tx_ok (devRx E pkt b)"
  by (simp_all add: queueDev_def devDack_def devTimeout_def devRx_def Let_def tx_ok_neutral
      split: sum.split option.split)

lemma tx_ok_promote [simp]: "tx_ok (devPromote b) = tx_ok b"
  by (simp add: devPromote_def split: list.split)

lemma tx_ok_devAction: "tx_ok b \<Longrightarrow> post tx_ok tx_ok (devAction E b)"
proof -
  assume b: "tx_ok b"
  then have "post tx_ok tx_ok (andThen (batch_write E pktDEVDATA (marshalDevData d) (devPromote b)) (\<lambda>b.
        fine ((tick (b\<lparr>b_devTimer := Some (time_now E b + cf_Timeout (s_config b))\<rparr>))\<lparr>b_devState := htdDack\<rparr>)))" for d
    by (intro post_andThen [where J = tx_ok]) simp_all
  with b show ?thesis by (simp add: devAction_def Let_def split: option.split)
qed

lemma tx_ok_rxInit: "tx_ok b \<Longrightarrow> post tx_ok tx_ok (rxInit E pkt b)"
proof -
  assume b: "tx_ok b"
  then have "post tx_ok tx_ok (andThen (negotiate p b) (\<lambda>b. fine (b\<lparr>b_rxState := hrxFinfo\<rparr>)))" for p
    by (intro post_andThen [where J = tx_ok]) (simp_all add: negotiate_def Let_def)
  with b have "post tx_ok tx_ok (if b_rxState b = hrxInit then
          (case parseInit (pkt_payload pkt) of
             Inl _ \<Rightarrow> fine b
           | Inr p \<Rightarrow> andThen (negotiate p b) (\<lambda>b. fine (b\<lparr>b_rxState := hrxFinfo\<rparr>)))
        else fine b)"
    by (simp split: sum.split)
  then show ?thesis unfolding rxInit_def by (rule post_andThen) simp
qed

lemma tx_ok_acceptFinfo: "tx_ok b \<Longrightarrow> tx_ok (snd (acceptFinfo E payload b))"
  by (simp add: acceptFinfo_def Let_def tx_ok_neutral split: sum.split option.split prod.split)

lemma tx_ok_rxFinfo: "tx_ok b \<Longrightarrow> post tx_ok tx_ok (rxFinfo E pkt b)"
proof -
  assume b: "tx_ok b"
  then have "acceptFinfo E (pkt_payload pkt) (feedBraindead E b) = (ack, b') \<Longrightarrow> tx_ok b'" for ack b'
    using tx_ok_acceptFinfo [of "feedBraindead E b" E "pkt_payload pkt"] by simp
  with b show ?thesis
    by (simp add: rxFinfo_def Let_def split: rxState.split prod.split)
qed

lemma tx_ok_badPosition: "tx_ok b \<Longrightarrow> post tx_ok tx_ok (badPosition E off eof b)"
  by (simp add: badPosition_def Let_def split: option.split)

lemma tx_ok_requestSkip: "tx_ok b \<Longrightarrow> post tx_ok tx_ok (requestSkip E e b)"
  by (simp add: requestSkip_def Let_def)

lemma tx_ok_rxWrite: "rxWrite E data b = (b', r) \<Longrightarrow> tx_ok b' = tx_ok b"
  by (auto simp: rxWrite_def Let_def tx_ok_neutral split: option.splits)

lemma tx_ok_rxData: "tx_ok b \<Longrightarrow> post tx_ok tx_ok (rxData E pkt b)"
proof -
  assume b: "tx_ok b"
  have "tx_ok b'" if "rxWrite E data ((feedBraindead E b)\<lparr>b_rxBlkLen := n\<rparr>) = (b', r)" for data n b' r
    using tx_ok_rxWrite [OF that] b by simp
  with b show ?thesis
    by (auto simp: rxData_def Let_def tx_ok_badPosition tx_ok_requestSkip tx_ok_neutral
        split: sum.split prod.split option.split)
qed

lemma tx_ok_rxEOF: "tx_ok b \<Longrightarrow> post tx_ok tx_ok (rxEOF E pkt b)"
  by (simp add: rxEOF_def tx_ok_badPosition split: rxState.split sum.split)

lemma tx_ok_absorb: "tx_ok b \<Longrightarrow> tx_ok (absorb E x b)"
  by (cases x)
    (simp_all add: SendDevice_def Abort_def Close_def session_close_def courtesyCancel_def triggerAbort_def
      recordError_def writeRaw_def tx_ok_neutral Let_def split: prod.split bool.split)

subsection \<open>Changes of the transmit state\<close>

lemma tx_ok_transfer:
  "tx_ok b \<Longrightarrow> in_transfer (b_txState b) \<Longrightarrow> in_transfer st \<Longrightarrow> tx_ok (b\<lparr>b_txState := st\<rparr>)"
  by (auto simp: tx_ok_def tx_file_def tx_phase_def sends_def cong: option.case_cong)

lemma tx_ok_same: "tx_ok b \<Longrightarrow> b_txState b = st \<Longrightarrow> tx_ok (b\<lparr>b_txState := st\<rparr>)"
  by (auto simp: tx_ok_def tx_file_def tx_phase_def sends_def cong: option.case_cong)

definition tx_apart :: "txState \<Rightarrow> bool" where
  \<comment> \<open>no file and no announcement in flight\<close>
  "tx_apart st \<longleftrightarrow> \<not> in_transfer st \<and> st \<noteq> htxFinfo \<and> st \<noteq> htxFinfoAck"

lemma tx_ok_apart:
  "tx_ok b \<Longrightarrow> tx_apart (b_txState b) \<Longrightarrow> tx_apart st \<or> st = htxFinfo \<Longrightarrow> tx_ok (b\<lparr>b_txState := st\<rparr>)"
  by (auto simp: tx_ok_def tx_file_def tx_phase_def sends_def tx_apart_def in_transfer_def cong: option.case_cong)

lemma tx_ok_refinfo: "tx_ok b \<Longrightarrow> b_txState b = htxFinfoAck \<Longrightarrow> tx_ok (b\<lparr>b_txState := htxFinfo\<rparr>)"
  by (auto simp: tx_ok_def tx_file_def tx_phase_def sends_def in_transfer_def cong: option.case_cong split: option.splits)

lemma tx_states [simp]:
  "in_transfer htxXdata" "in_transfer htxDataAck" "in_transfer htxXwait" "in_transfer htxEOF" "in_transfer htxEOFAck"
  "\<not> in_transfer htxFinfo" "\<not> in_transfer htxFinfoAck" "\<not> in_transfer htxRend"
  "tx_apart htxStart" "tx_apart htxSwait" "tx_apart htxInit" "tx_apart htxInitAck" "tx_apart htxRinit"
  "tx_apart htxRend" "tx_apart htxEnd" "tx_apart htxEndAck" "tx_apart htxDone"
  by (simp_all add: in_transfer_def tx_apart_def)

lemma tx_ok_sync: "tx_ok b \<Longrightarrow> tx_ok (batch_sync E b)"
  by (auto simp: batch_sync_def tx_ok_apart tx_ok_transfer set_txTimer_def tick_def)

lemma tx_ok_txTimeout: "tx_ok b \<Longrightarrow> post tx_ok tx_ok (txTimeout E b)"
proof -
  assume b: "tx_ok b"
  have "post tx_ok tx_ok (andThen (batch_write E pktIDLE [] b) (\<lambda>b. fine (set_txTimer E (batch_idle b) b)))"
    by (rule post_andThen [where J = tx_ok]) (use b in simp_all)
  moreover have "tx_ok (b\<lparr>b_txRetries := n, b_txState := retry_state (b_txState b)\<rparr>)" for n
    using b by (cases "b_txState b") (simp_all add: retry_state_def tx_ok_apart tx_ok_transfer tx_ok_refinfo tx_ok_same)
  ultimately show ?thesis
    using b by (simp add: txTimeout_def Let_def tx_ok_transfer tx_ok_apart)
qed

lemma tx_ok_txDataAck: "tx_ok b \<Longrightarrow> tx_ok (txDataAck pkt b)"
  by (simp add: txDataAck_def Let_def tx_ok_transfer split: sum.split)

lemma tx_ok_txIdle: "tx_ok b \<Longrightarrow> tx_ok (txIdle E b)"
  by (simp add: txIdle_def tx_ok_transfer)

subsection \<open>Finishing a file\<close>

lemma unhooked_simps [simp]:
  "offerInfo (unhooked ofr) = offerInfo ofr" "fo_Reader (unhooked ofr) = fo_Reader ofr"
  "fo_Seeker (unhooked ofr) = fo_Seeker ofr" "fo_Size (unhooked ofr) = fo_Size ofr"
  "unhooked (unhooked ofr) = unhooked ofr" "fo_Close (unhooked ofr) = False"
  "offerInfo (ofr\<lparr>fo_Close := False\<rparr>) = offerInfo ofr"
  by (simp_all add: unhooked_def offerInfo_def)

lemma closeTx_fields [simp]:
  "b_txInfo (closeTxOffer b) = b_txInfo b" "b_txPos (closeTxOffer b) = b_txPos b"
  "b_txSkip (closeTxOffer b) = b_txSkip b" "b_txErr (closeTxOffer b) = b_txErr b"
  "b_blk (closeTxOffer b) = b_blk b" "b_txOffer (closeTxOffer b) = map_option unhooked (b_txOffer b)"
  by (simp_all add: closeTxOffer_def closeOffer_def emit_def unhooked_def split: option.split)

lemma completed_fields [simp]:
  "b_blk (sendCompleted n e b) = b_blk b" "b_txOffer (sendCompleted n e b) = b_txOffer b"
  by (simp_all add: sendCompleted_def emit_def)

lemma complete_file:
  assumes "b_txOffer b = Some ofr" and "b_txInfo b = offerInfo ofr"
    and "sends b = Some (SFile (unhooked ofr) h pos blk)" and "fo_Close ofr \<longleftrightarrow> h = Armed"
    and "e = None \<Longrightarrow> pos = Some n"
  shows "sends (sendCompleted n e (closeTxOffer b)) = Some SIdle"
proof -
  have "sends (closeOffer ofr b) = Some (SFile (unhooked ofr) (if h = Armed then Ran else h) pos blk)"
    using assms(3,4) by (simp add: closeOffer_def)
  then have "sends (closeTxOffer b) = Some (SFile (unhooked ofr) (if h = Armed then Ran else h) pos blk)"
    using assms(1) by (simp add: closeTxOffer_def sends_def)
  with assms(2,5) show ?thesis by (cases e) (auto simp: sendCompleted_def)
qed

lemma sends_closeTx_again: "\<not> (\<exists>ofr. b_txOffer b = Some ofr \<and> fo_Close ofr) \<Longrightarrow> sends (closeTxOffer b) = sends b"
  by (auto simp: closeTxOffer_def closeOffer_def sends_def split: option.split)

lemma tx_ok_finish:
  assumes "sends b = Some SIdle" and "\<not> (\<exists>ofr. b_txOffer b = Some ofr \<and> fo_Close ofr)" and "blk_inv (b_blk b)"
  shows "tx_ok (finishTxFile b)"
  using assms sends_closeTx_again [OF assms(2)]
  by (simp add: finishTxFile_def Let_def tx_ok_def tx_file_def tx_phase_def sends_def)

lemma tx_ok_complete:
  assumes "tx_weak b" and "b_txOffer b \<noteq> None" and "blk_inv (b_blk b)" and "e \<noteq> None"
  shows "tx_ok (finishTxFile (sendCompleted n e (closeTxOffer b)))"
proof -
  from assms(2) obtain ofr where ofr: "b_txOffer b = Some ofr" by blast
  with assms(1) obtain h pos blk where ph: "b_txInfo b = offerInfo ofr"
    "sends b = Some (SFile (unhooked ofr) h pos blk)" "fo_Close ofr \<longleftrightarrow> h = Armed"
    by (auto simp: tx_weak_def)
  show ?thesis
    by (rule tx_ok_finish) (use complete_file [OF ofr ph] ofr assms in auto)
qed

lemma tx_ok_txEOFAck: "tx_ok b \<Longrightarrow> tx_ok (txEOFAck E b)"
proof -
  assume b: "tx_ok b"
  show ?thesis
  proof (cases "b_eofAckWait b \<and> (b_txState b = htxEOF \<or> b_txState b = htxEOFAck)")
    case False
    with b show ?thesis by (auto simp: txEOFAck_def)
  next
    case True
    define b1 where "b1 = feedBraindead E (b\<lparr>b_eofAckWait := False\<rparr>)"
    from b True obtain ofr where ofr: "b_txOffer b = Some ofr"
      by (auto simp: tx_ok_def tx_phase_def)
    with b obtain h pos blk where ph: "b_txInfo b = offerInfo ofr"
      "sends b = Some (SFile (unhooked ofr) h pos blk)" "h = (if fo_Close ofr then Armed else NoHook)"
      "b_txSkip b \<or> pos = Some (b_txPos b)"
      by (auto simp: tx_ok_def tx_file_def)
    have same: "sends b1 = sends b" "b_txOffer b1 = b_txOffer b" "b_txInfo b1 = b_txInfo b"
      "b_txPos b1 = b_txPos b" "b_txSkip b1 = b_txSkip b" "b_blk b1 = b_blk b"
      by (simp_all add: b1_def feedBraindead_def tick_def sends_def)
    define e where "e = (if b_txSkip b1 then Some (case b_txErr b1 of None \<Rightarrow> ErrSkip | Some e \<Rightarrow> e) else None)"
    have "sends (sendCompleted (b_txPos b1) e (closeTxOffer b1)) = Some SIdle"
      by (rule complete_file [of b1 ofr h pos blk]) (use ofr ph same in \<open>auto simp: e_def split: if_splits\<close>)
    then have "tx_ok (finishTxFile (sendCompleted (b_txPos b1) e (closeTxOffer b1)))"
      by (rule tx_ok_finish) (use ofr same b in \<open>simp_all add: tx_ok_def\<close>)
    moreover have "txEOFAck E b = finishTxFile (sendCompleted (b_txPos b1) e (closeTxOffer b1))"
    proof -
      have g: "(\<not> b_eofAckWait b \<or> (b_txState b \<noteq> htxEOF \<and> b_txState b \<noteq> htxEOFAck)) = False" using True by auto
      show ?thesis unfolding txEOFAck_def g if_False by (simp add: Let_def e_def b1_def [symmetric])
    qed
    ultimately show ?thesis by simp
  qed
qed

subsection \<open>Acknowledgement and reposition\<close>

text \<open>The state right after a seek of the file in flight.\<close>

lemma tx_ok_seek:
  assumes b: "tx_ok b" and tr: "in_transfer (b_txState b)" and h: "b_txSeeker b = Some h"
    and off: "0 \<le> off" "off \<le> fi_Size (b_txInfo b)" and st: "in_transfer st"
  shows "serr = None \<Longrightarrow> tx_ok ((emit (EvSeek h off serr) b)\<lparr>b_txPos := off, b_txState := st\<rparr>)"
    and "tx_ok (skipToEOF e (emit (EvSeek h off serr) b))"
    and "tx_ok (skipToEOF e ((emit (EvSeek h off serr) b)\<lparr>b_txPos := off\<rparr>))"
proof -
  from b tr obtain ofr where ofr: "b_txOffer b = Some ofr" by (auto simp: tx_ok_def tx_phase_def)
  with b obtain hk pos blk where f: "b_txInfo b = offerInfo ofr" "b_txReader b = fo_Reader ofr" "fo_Reader ofr \<noteq> None"
      "b_txSeeker b = (if fo_Seeker ofr then fo_Reader ofr else None)" "0 \<le> fo_Size ofr" "fo_Size ofr \<le> SafeMaxOffset"
      "sends b = Some (SFile (unhooked ofr) hk pos blk)" "hk = (if fo_Close ofr then Armed else NoHook)"
      "0 \<le> b_txPos b" "b_txPos b \<le> SafeMaxOffset"
    by (auto simp: tx_ok_def tx_file_def)
  have seek: "fo_Seeker ofr" "fo_Reader ofr = Some h" using f(4) h by (auto split: if_splits)
  have size: "off \<le> fo_Size ofr" using off(2) f(1) by (simp add: offerInfo_def)
  have ph: "sends (emit (EvSeek h off serr) b)
      = Some (SFile (unhooked ofr) hk (if serr = None then Some off else None) None)"
    using f(7,8) seek size off(1) by simp
  have log: "sends (emit (EvSeek h off serr) b\<lparr>b_txPos := off, b_txState := st\<rparr>) = sends (emit (EvSeek h off serr) b)"
    "sends (skipToEOF e (emit (EvSeek h off serr) b)) = sends (emit (EvSeek h off serr) b)"
    "sends (skipToEOF e ((emit (EvSeek h off serr) b)\<lparr>b_txPos := off\<rparr>)) = sends (emit (EvSeek h off serr) b)"
    by (simp_all add: sends_def skipToEOF_def)
  show "serr = None \<Longrightarrow> tx_ok ((emit (EvSeek h off serr) b)\<lparr>b_txPos := off, b_txState := st\<rparr>)"
    unfolding tx_ok_def tx_file_def log ph
    using b tr ofr f seek off size st by (simp add: tx_ok_def tx_phase_def) (simp add: emit_def)
  show "tx_ok (skipToEOF e (emit (EvSeek h off serr) b))"
    unfolding tx_ok_def tx_file_def log ph
    using b tr ofr f seek by (simp add: tx_ok_def tx_phase_def) (simp add: emit_def skipToEOF_def)
  show "tx_ok (skipToEOF e ((emit (EvSeek h off serr) b)\<lparr>b_txPos := off\<rparr>))"
    unfolding tx_ok_def tx_file_def log ph
    using b tr ofr f seek off size by (simp add: tx_ok_def tx_phase_def) (simp add: emit_def skipToEOF_def)
qed

text \<open>The state right after the announcement was acknowledged, with the state already moved on.\<close>

lemma tx_ok_acked:
  assumes b: "tx_ok b" and st: "b_txState b = htxFinfo \<or> b_txState b = htxFinfoAck" and w: "b_finfoAckWait b"
    and neob: "\<not> b_txEOB b" and st': "in_transfer st'"
  shows "tx_ok (b\<lparr>b_finfoAckWait := False, b_lastFinfo := None, b_txState := st'\<rparr>)"
  using assms
  by (auto simp: tx_ok_def tx_file_def tx_phase_def sends_def cong: option.case_cong split: option.splits)

lemma tx_ok_skip: "tx_ok b \<Longrightarrow> in_transfer (b_txState b) \<Longrightarrow> tx_ok (skipToEOF e b)"
  by (auto simp: skipToEOF_def tx_ok_def tx_file_def tx_phase_def sends_def cong: option.case_cong)

lemma tx_ok_skip_pos:
  "tx_ok b \<Longrightarrow> in_transfer (b_txState b) \<Longrightarrow> 0 \<le> off \<Longrightarrow> off \<le> fi_Size (b_txInfo b) \<Longrightarrow>
    tx_ok (skipToEOF e (b\<lparr>b_txPos := off\<rparr>))"
  by (auto simp: skipToEOF_def tx_ok_def tx_file_def tx_phase_def sends_def offerInfo_def
      cong: option.case_cong split: option.splits)

lemma tx_ok_txRpos: "tx_ok b \<Longrightarrow> post tx_ok tx_ok (txRpos E pkt b)"
proof -
  assume b: "tx_ok b"
  show ?thesis
  proof (cases "in_transfer (b_txState b)")
    case False
    with b show ?thesis by (simp add: txRpos_def)
  next
    case tr: True
    have inv: "blk_inv (b_blk b)" using b by (simp add: tx_ok_def)
    show ?thesis
    proof (cases "parseRpos (pkt_payload pkt)")
      case (Inl e)
      with b tr show ?thesis by (simp add: txRpos_def)
    next
      case (Inr rp)
      define b1 where "b1 = b\<lparr>b_txSyncID := rp_id rp, b_txRetries := 1, b_txTimer := None\<rparr>"
      define b2 where "b2 = b1\<lparr>b_blk := bs_rpos (rp_blocksize rp) (b_blk b1)\<rparr>"
      have b1: "tx_ok b1" "in_transfer (b_txState b1)" "blk_inv (b_blk b1)"
        using b tr inv by (simp_all add: b1_def)
      have b2: "tx_ok b2" "in_transfer (b_txState b2)"
        using b1 by (simp_all add: b2_def tx_ok_blk blk_inv_rpos)
      have seek: "b_txSeeker b2 = Some h \<Longrightarrow> 0 \<le> rp_offset rp \<Longrightarrow> rp_offset rp \<le> fi_Size (b_txInfo b2) \<Longrightarrow>
          in_transfer st \<Longrightarrow> tx_ok ((emit (EvSeek h (rp_offset rp) None) b2)\<lparr>b_txPos := rp_offset rp, b_txState := st\<rparr>)"
        "b_txSeeker b2 = Some h \<Longrightarrow> 0 \<le> rp_offset rp \<Longrightarrow> rp_offset rp \<le> fi_Size (b_txInfo b2) \<Longrightarrow>
          tx_ok (skipToEOF e (emit (EvSeek h (rp_offset rp) serr) b2))" for h st serr e
        using tx_ok_seek(1) [OF b2] tx_ok_seek(2) [OF b2, where st = htxXdata] by auto
      have stay: "(emit ev b2)\<lparr>b_txPos := off\<rparr> = (emit ev b2)\<lparr>b_txPos := off, b_txState := b_txState b2\<rparr>" for ev off
        by (simp add: emit_def)
      have seek_stay: "b_txSeeker b2 = Some h \<Longrightarrow> 0 \<le> rp_offset rp \<Longrightarrow> rp_offset rp \<le> fi_Size (b_txInfo b2) \<Longrightarrow>
          tx_ok ((emit (EvSeek h (rp_offset rp) None) b2)\<lparr>b_txPos := rp_offset rp\<rparr>)" for h
        by (subst stay) (rule seek(1), simp_all add: b2)
      have dup: "tx_ok (b\<lparr>b_txRetries := n\<rparr>)" for n using b by simp
      show ?thesis
        using tr Inr dup b1 b2 tx_ok_skip seek seek_stay
        by (simp add: txRpos_def Let_def b1_def [symmetric] b2_def [symmetric] split: option.split)
    qed
  qed
qed

lemma feed_tx_fields [simp]:
  "b_txEOB (feedBraindead E b) = b_txEOB b" "b_txInfo (feedBraindead E b) = b_txInfo b"
  "b_txSeeker (feedBraindead E b) = b_txSeeker b"
  by (simp_all add: feedBraindead_def tick_def)

text \<open>
  What \<open>txFinfoAck\<close> can leave behind, for any property \<open>I\<close> of the state: \<open>acked\<close> is the state once
  the acknowledgement is taken, \<open>resumed\<close> the one at the position it names.
\<close>

definition waits :: "batch \<Rightarrow> bool" where
  "waits b \<longleftrightarrow> b_finfoAckWait b \<and> (b_txState b = htxFinfo \<or> b_txState b = htxFinfoAck)"

definition acked :: "env \<Rightarrow> batch \<Rightarrow> batch" where
  "acked E b = feedBraindead E (b\<lparr>b_finfoAckWait := False\<rparr>)\<lparr>b_txRetries := 0, b_txTimer := None, b_lastFinfo := None\<rparr>"

definition resumed :: "env \<Rightarrow> int \<Rightarrow> batch \<Rightarrow> batch" where
  "resumed E v b = (acked E b)\<lparr>b_txPos := v, b_txLastAck := v\<rparr>"

lemma acked_simps [simp]:
  "s_log (acked E b) = s_log b" "sends (acked E b) = sends b" "s_config (acked E b) = s_config b" "b_txOffer (acked E b) = b_txOffer b"
  "b_txInfo (acked E b) = b_txInfo b" "b_txEOB (acked E b) = b_txEOB b" "b_txSeeker (acked E b) = b_txSeeker b" "b_blk (acked E b) = b_blk b"
  "b_txState (acked E b) = b_txState b" "b_txPos (acked E b) = b_txPos b" "b_batchEnded (acked E b) = b_batchEnded b"
  "s_log (resumed E v b) = s_log b" "b_txSeeker (resumed E v b) = b_txSeeker b" "b_txInfo (resumed E v b) = b_txInfo b"
  by (simp_all add: acked_def resumed_def feedBraindead_def tick_def sends_def)

lemma txFinfoAck_rule:
  assumes idle: "\<not> waits b \<or> \<not> b_txEOB b \<and> (\<exists>e. parseOffset (pkt_payload pkt) = Inl e) \<Longrightarrow> I b"
    and eob: "\<And>d. waits b \<Longrightarrow> b_txEOB b \<Longrightarrow> I ((set_txTimer E d (acked E b))\<lparr>b_txState := htxRend\<rparr>)"
    and refused: "\<And>v e. waits b \<Longrightarrow> \<not> b_txEOB b \<Longrightarrow> parseOffset (pkt_payload pkt) = Inr v \<Longrightarrow> v < 0 \<Longrightarrow>
      e = (if v = ackHaveFile then ErrSkip else ErrDefer) \<Longrightarrow> I (finishTxFile (sendCompleted 0 (Some e) (closeTxOffer (acked E b))))"
    and beyond: "\<And>v. waits b \<Longrightarrow> \<not> b_txEOB b \<Longrightarrow> parseOffset (pkt_payload pkt) = Inr v \<Longrightarrow> 0 \<le> v \<Longrightarrow>
      I (skipToEOF (Some ErrResumeOutOfRange) (acked E b))"
    and start: "\<And>v. waits b \<Longrightarrow> \<not> b_txEOB b \<Longrightarrow> parseOffset (pkt_payload pkt) = Inr v \<Longrightarrow> v = 0 \<Longrightarrow>
      I ((resumed E v b)\<lparr>b_txState := htxXdata\<rparr>)"
    and unseekable: "\<And>v. waits b \<Longrightarrow> \<not> b_txEOB b \<Longrightarrow> parseOffset (pkt_payload pkt) = Inr v \<Longrightarrow> 0 \<le> v \<Longrightarrow> v \<le> fi_Size (b_txInfo b) \<Longrightarrow>
      I (skipToEOF (Some ErrResumeOutOfRange) (resumed E v b))"
    and sought: "\<And>v h. waits b \<Longrightarrow> \<not> b_txEOB b \<Longrightarrow> parseOffset (pkt_payload pkt) = Inr v \<Longrightarrow> 0 \<le> v \<Longrightarrow> v \<le> fi_Size (b_txInfo b) \<Longrightarrow>
      b_txSeeker b = Some h \<Longrightarrow> I ((emit (EvSeek h v None) (resumed E v b))\<lparr>b_txState := htxXdata\<rparr>)"
    and unsought: "\<And>v h e. waits b \<Longrightarrow> \<not> b_txEOB b \<Longrightarrow> parseOffset (pkt_payload pkt) = Inr v \<Longrightarrow> 0 \<le> v \<Longrightarrow> v \<le> fi_Size (b_txInfo b) \<Longrightarrow>
      b_txSeeker b = Some h \<Longrightarrow> I (skipToEOF e (emit (EvSeek h v e) (resumed E v b)))"
  shows "post I F (txFinfoAck E pkt b)"
proof (cases "waits b")
  case False
  then have "txFinfoAck E pkt b = fine b" by (auto simp: txFinfoAck_def waits_def)
  with False idle show ?thesis by simp
next
  case True
  then have g: "(\<not> b_finfoAckWait b \<or> (b_txState b \<noteq> htxFinfo \<and> b_txState b \<noteq> htxFinfoAck)) = False" by (auto simp: waits_def)
  note body = txFinfoAck_def [of E pkt b, unfolded g if_False Let_def, folded acked_def]
  show ?thesis
  proof (cases "b_txEOB b")
    case eob': True
    then show ?thesis using eob [OF True eob'] by (simp add: body)
  next
    case neob: False
    show ?thesis
    proof (cases "parseOffset (pkt_payload pkt)")
      case (Inl e)
      with neob idle show ?thesis by (simp add: body)
    next
      case (Inr v)
      note at = True neob Inr
      show ?thesis
        using neob Inr refused [OF at] beyond [OF at] start [OF at] unseekable [OF at] sought [OF at] unsought [OF at]
        by (auto simp: body resumed_def [symmetric] split: option.split)
    qed
  qed
qed

lemma tx_ok_acked_moved:
  "tx_ok b \<Longrightarrow> waits b \<Longrightarrow> \<not> b_txEOB b \<Longrightarrow> in_transfer st \<Longrightarrow> tx_ok ((acked E b)\<lparr>b_txState := st\<rparr>)"
  using tx_ok_acked [of b st]
  by (subst tx_ok_view [of _ "b\<lparr>b_finfoAckWait := False, b_lastFinfo := None, b_txState := st\<rparr>"])
    (simp_all add: waits_def acked_def feedBraindead_def tick_def sends_def tx_view_def)

lemma tx_ok_resumed_seek:
  assumes b: "tx_ok b" "waits b" "\<not> b_txEOB b" and h: "b_txSeeker b = Some h" and v: "0 \<le> v" "v \<le> fi_Size (b_txInfo b)"
  shows "tx_ok ((emit (EvSeek h v None) (resumed E v b))\<lparr>b_txState := htxXdata\<rparr>)"
    and "tx_ok (skipToEOF e (emit (EvSeek h v e) (resumed E v b)))"
proof -
  let ?m = "(acked E b)\<lparr>b_txState := htxXdata\<rparr>"
  have m: "tx_ok ?m" "in_transfer (b_txState ?m)" "b_txSeeker ?m = Some h" "v \<le> fi_Size (b_txInfo ?m)"
    using tx_ok_acked_moved [OF b, of htxXdata] h v by simp_all
  have "tx_ok ((emit (EvSeek h v None) ?m)\<lparr>b_txPos := v, b_txState := htxXdata\<rparr>)"
    by (rule tx_ok_seek(1) [OF m(1-3) v(1) m(4)]) simp_all
  then show "tx_ok ((emit (EvSeek h v None) (resumed E v b))\<lparr>b_txState := htxXdata\<rparr>)"
    by (subst tx_ok_view [of _ "(emit (EvSeek h v None) ?m)\<lparr>b_txPos := v, b_txState := htxXdata\<rparr>"])
      (simp_all add: resumed_def sends_def tx_view_def emit_def)
  have "tx_ok (skipToEOF e ((emit (EvSeek h v e) ?m)\<lparr>b_txPos := v\<rparr>))"
    by (rule tx_ok_seek(3) [OF m(1-3) v(1) m(4), where st = htxXdata]) simp
  then show "tx_ok (skipToEOF e (emit (EvSeek h v e) (resumed E v b)))"
    by (subst tx_ok_view [of _ "skipToEOF e ((emit (EvSeek h v e) ?m)\<lparr>b_txPos := v\<rparr>)"])
      (simp_all add: resumed_def sends_def tx_view_def skipToEOF_def emit_def)
qed

lemma tx_ok_txFinfoAck: "tx_ok b \<Longrightarrow> post tx_ok tx_ok (txFinfoAck E pkt b)"
proof (rule txFinfoAck_rule)
  assume b: "tx_ok b"
  show "tx_ok b" by (rule b)
  fix d assume w: "waits b" and eob: "b_txEOB b"
  have "tx_ok ((acked E b)\<lparr>b_txState := htxRend\<rparr>)"
    using b w eob by (auto simp: acked_def waits_def feedBraindead_def tick_def tx_ok_def tx_file_def tx_phase_def sends_def split: option.splits)
  then show "tx_ok ((set_txTimer E d (acked E b))\<lparr>b_txState := htxRend\<rparr>)"
    by (subst tx_ok_view [of _ "(acked E b)\<lparr>b_txState := htxRend\<rparr>"]) (simp_all add: set_txTimer_def tick_def sends_def tx_view_def)
next
  fix v assume b: "tx_ok b" "waits b" "\<not> b_txEOB b"
  note moved = tx_ok_acked_moved [OF b]
  have offer: "b_txOffer b \<noteq> None" "b_txPos b = 0"
    using b by (auto simp: tx_ok_def tx_phase_def waits_def in_transfer_def split: option.splits)
  have "tx_weak (acked E b)" using tx_ok_weak [OF b(1)] by (simp add: tx_weak_def cong: option.case_cong)
  then show "tx_ok (finishTxFile (sendCompleted 0 (Some e) (closeTxOffer (acked E b))))" for e
    using offer b(1) by (intro tx_ok_complete) (simp_all add: tx_ok_def)
  show "tx_ok (skipToEOF (Some ErrResumeOutOfRange) (acked E b))"
    using tx_ok_skip [OF moved [of htxEOF]] by (simp add: skipToEOF_def)
  show "v = 0 \<Longrightarrow> tx_ok ((resumed E v b)\<lparr>b_txState := htxXdata\<rparr>)"
    using moved [of htxXdata] offer(2)
    by (subst tx_ok_view [of _ "(acked E b)\<lparr>b_txState := htxXdata\<rparr>"]) (simp_all add: resumed_def sends_def tx_view_def)
  assume v: "0 \<le> v" "v \<le> fi_Size (b_txInfo b)"
  have "tx_ok (skipToEOF e (((acked E b)\<lparr>b_txState := htxXdata\<rparr>)\<lparr>b_txPos := v\<rparr>))" for e
    by (rule tx_ok_skip_pos [OF moved]) (use v in simp_all)
  then show "tx_ok (skipToEOF (Some ErrResumeOutOfRange) (resumed E v b))"
    by (subst tx_ok_view [of _ "skipToEOF (Some ErrResumeOutOfRange) (((acked E b)\<lparr>b_txState := htxXdata\<rparr>)\<lparr>b_txPos := v\<rparr>)"])
      (simp_all add: resumed_def sends_def tx_view_def skipToEOF_def)
qed (simp_all add: tx_ok_resumed_seek)

subsection \<open>Sending data\<close>

lemma tx_ok_fileI:
  assumes "in_transfer (b_txState b)" "b_txOffer b = Some ofr" "b_lastFinfo b = None" "\<not> b_finfoAckWait b"
    "b_txInfo b = offerInfo ofr" "b_txReader b = fo_Reader ofr" "fo_Reader ofr \<noteq> None"
    "b_txSeeker b = (if fo_Seeker ofr then fo_Reader ofr else None)" "0 \<le> fo_Size ofr" "fo_Size ofr \<le> SafeMaxOffset"
    "0 \<le> b_txPos b" "b_txPos b \<le> SafeMaxOffset" "blk_inv (b_blk b)"
    "sends b = Some (SFile (unhooked ofr) (if fo_Close ofr then Armed else NoHook) pos blk)"
    "b_txSkip b \<or> pos = Some (b_txPos b)"
  shows "tx_ok b"
  using assms by (simp add: tx_ok_def tx_file_def tx_phase_def)

lemma tx_ok_fileE:
  assumes "tx_ok b" and "in_transfer (b_txState b)"
  obtains ofr pos blk where "b_txOffer b = Some ofr" "b_lastFinfo b = None" "\<not> b_finfoAckWait b"
    "b_txInfo b = offerInfo ofr" "b_txReader b = fo_Reader ofr" "fo_Reader ofr \<noteq> None"
    "b_txSeeker b = (if fo_Seeker ofr then fo_Reader ofr else None)" "0 \<le> fo_Size ofr" "fo_Size ofr \<le> SafeMaxOffset"
    "0 \<le> b_txPos b" "b_txPos b \<le> SafeMaxOffset" "blk_inv (b_blk b)"
    "sends b = Some (SFile (unhooked ofr) (if fo_Close ofr then Armed else NoHook) pos blk)"
    "b_txSkip b \<or> pos = Some (b_txPos b)"
proof -
  from assms obtain ofr where ofr: "b_txOffer b = Some ofr" by (auto simp: tx_ok_def tx_phase_def)
  with assms obtain h pos blk where
    "sends b = Some (SFile (unhooked ofr) h pos blk)" "h = (if fo_Close ofr then Armed else NoHook)"
    "b_txSkip b \<or> pos = Some (b_txPos b)"
    by (auto simp: tx_ok_def tx_file_def)
  with ofr assms show ?thesis
    by (intro that [of ofr pos blk]) (auto simp: tx_ok_def tx_file_def tx_phase_def)
qed

text \<open>The state after a successful DATA frame, before the window test.\<close>

definition data_sent :: "int \<Rightarrow> batch \<Rightarrow> batch" where
  "data_sent n b =
     (let b = b\<lparr>b_txPos := b_txPos b + n, b_blk := bs_good n (b_blk b)\<rparr>
      in emit (EvSendProgress (b_txInfo b) (b_txPos b)) b)"

text \<open>
  What \<open>sendData\<close> can leave behind: \<open>block\<close> is what it reads of the source, \<open>read_in\<close> the state
  after the read.
\<close>

definition read_ok :: "err option \<Rightarrow> bool" where
  "read_ok e \<longleftrightarrow> e = None \<or> e = Some IoEOF \<or> e = Some IoUnexpectedEOF"

definition block :: "env \<Rightarrow> nat \<Rightarrow> batch \<Rightarrow> byte list \<times> err option" where
  "block E src b = (let k = nat (bs_size (b_blk b)); s = en_source E (s_log b) src k in read_full (fst s) (snd s) k)"

definition read_in :: "env \<Rightarrow> nat \<Rightarrow> batch \<Rightarrow> batch" where
  "read_in E src b = emit (EvRead src (fst (block E src b)) (snd (block E src b))) b"

lemma read_in_simps [simp]:
  "b_txOffer (read_in E src b) = b_txOffer b" "b_lastFinfo (read_in E src b) = b_lastFinfo b"
  "b_finfoAckWait (read_in E src b) = b_finfoAckWait b" "b_txInfo (read_in E src b) = b_txInfo b"
  "b_txReader (read_in E src b) = b_txReader b" "b_txSeeker (read_in E src b) = b_txSeeker b" "b_txPos (read_in E src b) = b_txPos b"
  "b_blk (read_in E src b) = b_blk b" "b_txSkip (read_in E src b) = b_txSkip b" "b_txState (read_in E src b) = b_txState b"
  "s_config (read_in E src b) = s_config b" "b_batchEnded (read_in E src b) = b_batchEnded b"
  "s_log (read_in E src b) = s_log b @ [EvRead src (fst (block E src b)) (snd (block E src b))]"
  by (simp_all add: read_in_def emit_def)

lemma sendData_rule:
  assumes src: "b_txReader b = Some src"
    and skipped: "b_txSkip b \<Longrightarrow> I (b\<lparr>b_txState := htxEOF, b_productive := True\<rparr>)"
    and broken: "\<And>e. \<not> b_txSkip b \<Longrightarrow> I ((skipToEOF e (read_in E src b))\<lparr>b_productive := True\<rparr>)"
    and ended: "\<not> b_txSkip b \<Longrightarrow> fst (block E src b) = [] \<Longrightarrow> read_ok (snd (block E src b)) \<Longrightarrow>
      I ((read_in E src b)\<lparr>b_txState := htxEOF, b_productive := True\<rparr>)"
    and data: "\<not> b_txSkip b \<Longrightarrow> read_ok (snd (block E src b)) \<Longrightarrow> b_txPos b + int (length (fst (block E src b))) \<le> SafeMaxOffset \<Longrightarrow>
      post I F (andThen (batch_write E pktDATA (marshalData (b_txPos b) (fst (block E src b))) (read_in E src b))
        (sendData_sent E (int (length (fst (block E src b))))))"
  shows "post I F (sendData E b)"
proof (cases "b_txSkip b")
  case True
  with skipped show ?thesis by (simp add: sendData_def)
next
  case False
  define rd where "rd = block E src b"
  have "sendData E b =
      (if snd rd \<noteq> None \<and> snd rd \<noteq> Some IoUnexpectedEOF \<and> snd rd \<noteq> Some IoEOF
       then fine ((skipToEOF (snd rd) (read_in E src b))\<lparr>b_productive := True\<rparr>)
       else if int (length (fst rd)) = 0 then fine ((read_in E src b)\<lparr>b_txState := htxEOF, b_productive := True\<rparr>)
       else if b_txPos (read_in E src b) + int (length (fst rd)) > SafeMaxOffset
       then fine ((skipToEOF (Some ErrFileTooLarge) (read_in E src b))\<lparr>b_productive := True\<rparr>)
       else andThen (batch_write E pktDATA (marshalData (b_txPos (read_in E src b)) (fst rd)) (read_in E src b))
         (sendData_sent E (int (length (fst rd)))))"
    unfolding rd_def read_in_def block_def using False src by (simp only: sendData_def option.case Let_def if_False)
  then show ?thesis
    using broken [OF False] ended [OF False] data [OF False] by (auto simp: rd_def [symmetric] read_ok_def)
qed

text \<open>The second half, shared by every invariant that tolerates the wait for a window.\<close>

lemma sendData_written:
  assumes w: "post (\<lambda>b'. I (data_sent n b') \<and> b_txState b' = htxXdata) F (batch_write E t p b)"
    and arm: "\<And>b. I b \<Longrightarrow> b_txState b = htxXdata \<Longrightarrow> I ((armTx E b)\<lparr>b_txState := htxDataAck\<rparr>)"
    and prod: "\<And>b. I b \<Longrightarrow> I (b\<lparr>b_productive := True\<rparr>)"
  shows "post I F (andThen (batch_write E t p b) (sendData_sent E n))"
proof (rule post_andThen [OF w])
  fix b' assume b': "I (data_sent n b') \<and> b_txState b' = htxXdata"
  then have "b_txState (data_sent n b') = htxXdata" by (simp add: data_sent_def emit_def Let_def)
  with b' show "post I F (sendData_sent E n b')"
    using arm prod by (simp add: sendData_sent_def data_sent_def Let_def)
qed

lemma tx_ok_data_sent:
  assumes f: "b_txOffer b = Some ofr" "b_lastFinfo b = None" "\<not> b_finfoAckWait b"
    "b_txInfo b = offerInfo ofr" "b_txReader b = fo_Reader ofr" "fo_Reader ofr \<noteq> None"
    "b_txSeeker b = (if fo_Seeker ofr then fo_Reader ofr else None)" "0 \<le> fo_Size ofr" "fo_Size ofr \<le> SafeMaxOffset"
    "0 \<le> b_txPos b" "b_txPos b \<le> SafeMaxOffset" "blk_inv (b_blk b)" "b_txState b = htxXdata"
    and ph: "sends b = Some (SFile (unhooked ofr) (if fo_Close ofr then Armed else NoHook) (Some (b_txPos b + n)) (Some (b_txPos b, buf)))"
    and n: "n = int (length buf)" "b_txPos b + n \<le> SafeMaxOffset"
  shows "post (\<lambda>b'. tx_ok (data_sent n b') \<and> b_txState b' = htxXdata) tx_weak (batch_write E pktDATA (marshalData (b_txPos b) buf) b)"
proof -
  let ?s = "\<lparr>sn_packet = \<lparr>pkt_typ = pktDATA, pkt_payload = marshalData (b_txPos b) buf\<rparr>, sn_opts = b_opts b, sn_prefix = b_prefix b\<rparr>"
  have sent: "sends (emit (EvSend ?s r) b) = sends b" for r using ph f(10) n by simp
  have "sends (data_sent n (emit (EvSend ?s None) b)) = sends b"
    unfolding data_sent_def Let_def sends_emit using sent ph f by (simp add: sends_def emit_def)
  then have "tx_ok (data_sent n (emit (EvSend ?s None) b))"
    using f ph n
    by (intro tx_ok_fileI [where ofr = ofr and pos = "Some (b_txPos b + n)" and blk = "Some (b_txPos b, buf)"])
      (simp_all add: data_sent_def emit_def Let_def blk_inv_good)
  moreover have "tx_weak (emit (EvSend ?s r) b)" for r
  proof -
    have "b_txOffer (emit e b) = Some ofr" "b_txInfo (emit e b) = offerInfo ofr" for e using f by (simp_all add: emit_def)
    then show ?thesis unfolding tx_weak_def sent ph by simp
  qed
  ultimately show ?thesis
    using f(13) by (simp add: batch_write_def post_writer_write split: option.split) (simp add: emit_def)
qed

lemma tx_ok_sendData:
  assumes b: "tx_ok b" and st: "b_txState b = htxXdata"
  shows "post tx_ok tx_weak (sendData E b)"
proof -
  have tr: "in_transfer (b_txState b)" using st by simp
  obtain ofr pos blk where f: "b_txOffer b = Some ofr" "b_lastFinfo b = None" "\<not> b_finfoAckWait b"
    "b_txInfo b = offerInfo ofr" "b_txReader b = fo_Reader ofr" "fo_Reader ofr \<noteq> None"
    "b_txSeeker b = (if fo_Seeker ofr then fo_Reader ofr else None)" "0 \<le> fo_Size ofr" "fo_Size ofr \<le> SafeMaxOffset"
    "0 \<le> b_txPos b" "b_txPos b \<le> SafeMaxOffset" "blk_inv (b_blk b)"
    and ph0: "sends b = Some (SFile (unhooked ofr) (if fo_Close ofr then Armed else NoHook) pos blk)" "b_txSkip b \<or> pos = Some (b_txPos b)"
    using tx_ok_fileE [OF b tr] .
  obtain src where src: "b_txReader b = Some src" "fo_Reader ofr = Some src" using f(5,6) by auto
  let ?b1 = "read_in E src b" and ?buf = "fst (block E src b)" and ?e = "snd (block E src b)"
  have ph: "sends ?b1 = Some (SFile (unhooked ofr) (if fo_Close ofr then Armed else NoHook)
      (if read_ok ?e then Some (b_txPos b + int (length ?buf)) else None) (Some (b_txPos b, ?buf)))" if "\<not> b_txSkip b"
    using ph0 src(2) that by (simp add: read_in_def read_ok_def)
  show ?thesis
  proof (rule sendData_rule [OF src(1)])
    show "b_txSkip b \<Longrightarrow> tx_ok (b\<lparr>b_txState := htxEOF, b_productive := True\<rparr>)" using b st by (simp add: tx_ok_transfer)
  next
    fix e assume n: "\<not> b_txSkip b"
    have "sends (skipToEOF e ?b1) = sends ?b1" by (simp add: sends_def skipToEOF_def)
    then have "tx_ok (skipToEOF e ?b1)" using f ph [OF n] by (intro tx_ok_fileI [of _ ofr]) (simp_all add: skipToEOF_def)
    then show "tx_ok ((skipToEOF e ?b1)\<lparr>b_productive := True\<rparr>)" by simp
  next
    assume n: "\<not> b_txSkip b" and e: "?buf = []" "read_ok ?e"
    have "sends (?b1\<lparr>b_txState := htxEOF, b_productive := True\<rparr>) = sends ?b1" by (simp add: sends_def)
    then show "tx_ok (?b1\<lparr>b_txState := htxEOF, b_productive := True\<rparr>)"
      using f ph [OF n] e by (intro tx_ok_fileI [where ofr = ofr and pos = "Some (b_txPos b)" and blk = "Some (b_txPos b, [])"]) simp_all
  next
    assume n: "\<not> b_txSkip b" and e: "read_ok ?e" "b_txPos b + int (length ?buf) \<le> SafeMaxOffset"
    have "post (\<lambda>b'. tx_ok (data_sent (int (length ?buf)) b') \<and> b_txState b' = htxXdata) tx_weak
        (batch_write E pktDATA (marshalData (b_txPos ?b1) ?buf) ?b1)"
      by (rule tx_ok_data_sent [of _ ofr]) (use f st ph [OF n] e in simp_all)
    then show "post tx_ok tx_weak (andThen (batch_write E pktDATA (marshalData (b_txPos b) ?buf) ?b1) (sendData_sent E (int (length ?buf))))"
      by (intro sendData_written) (simp_all add: tx_ok_transfer)
  qed
qed

subsection \<open>All steps\<close>

lemma tx_ok_txEnd: "tx_ok b \<Longrightarrow> post tx_ok tx_ok (txEnd E b)"
proof -
  assume b: "tx_ok b"
  have "post tx_ok tx_ok (andThen (write_times endResponseCount E pktEND b) (\<lambda>b.
        fine (b\<lparr>b_txTimer := None, b_txState := htxDone\<rparr>)))" if "tx_apart (b_txState b)"
  proof (rule post_andThen [where J = "\<lambda>b. tx_ok b \<and> tx_apart (b_txState b)"])
    have "post (\<lambda>b. tx_ok b \<and> tx_apart (b_txState b)) tx_ok (write_times n E pktEND b)" for n
      using b that
    proof (induction n arbitrary: b)
      case (Suc n)
      show ?case unfolding write_times.simps
      proof (rule post_andThen [where J = "\<lambda>b. tx_ok b \<and> tx_apart (b_txState b)"])
        show "post (\<lambda>b. tx_ok b \<and> tx_apart (b_txState b)) tx_ok (batch_write E pktEND [] b)"
          using Suc.prems by (simp add: batch_write_def post_writer_write tx_ok_neutral split: option.split)
            (simp add: emit_def)
      qed (use Suc.IH in blast)
    qed simp
    then show "post (\<lambda>b. tx_ok b \<and> tx_apart (b_txState b)) tx_ok (write_times endResponseCount E pktEND b)" .
  qed (simp add: tx_ok_apart)
  with b show ?thesis by (auto simp: txEnd_def)
qed

lemma tx_ok_packet: "tx_ok b \<Longrightarrow> post tx_ok tx_ok (handlePacket E pkt b)"
proof -
  assume "tx_ok b"
  then have b: "tx_ok (emit (EvRecv pkt) b)" by (simp add: tx_ok_neutral)
  have "b_txState b = htxStart \<or> b_txState b = htxSwait \<Longrightarrow>
      tx_ok ((feedBraindead E (emit (EvRecv pkt) b))\<lparr>b_txTimer := None, b_txRetries := 0, b_txState := htxInit\<rparr>)"
    "b_txState b = htxInit \<or> b_txState b = htxInitAck \<Longrightarrow>
      tx_ok ((feedBraindead E (emit (EvRecv pkt) b))\<lparr>b_txTimer := None, b_txRetries := 0, b_txState := htxRinit\<rparr>)"
    using b by (auto intro!: tx_ok_apart simp: emit_def)
  then show ?thesis
    using tx_ok_rxInit [OF b] tx_ok_rxFinfo [OF b] tx_ok_txFinfoAck [OF b] tx_ok_rxData [OF b] tx_ok_txDataAck [OF b]
      tx_ok_txRpos [OF b] tx_ok_rxEOF [OF b] tx_ok_txEOFAck [OF b] tx_ok_txIdle [OF b] tx_ok_txEnd [OF b]
      tx_ok_devices(2,4) [OF b] b
    by (simp add: handlePacket_def Let_def) (simp add: emit_def)
qed

text \<open>The offer loop and the announcement.\<close>

lemma tx_ok_reject:
  assumes "sends b = Some SIdle" and "b_txOffer b = None"
  shows "sends (rejectOffer ofr e (emit (EvNextFile (Some ofr)) b)) = Some SIdle
    \<and> b_txOffer (rejectOffer ofr e (emit (EvNextFile (Some ofr)) b)) = None"
  using assms by (simp add: rejectOffer_def closeOffer_def unhooked_def) (simp add: emit_def offerInfo_def)

text \<open>What the loop needs and keeps: no file in flight, no announcement, the FINFO state.\<close>

definition tx_ready :: "batch \<Rightarrow> bool" where
  "tx_ready b \<longleftrightarrow> sends b = Some SIdle \<and> b_txOffer b = None \<and> b_lastFinfo b = None \<and> b_txState b = htxFinfo
     \<and> \<not> b_eofAckWait b \<and> \<not> b_finfoAckWait b \<and> blk_inv (b_blk b)"

definition tx_pulled :: "batch \<Rightarrow> bool" where
  "tx_pulled b \<longleftrightarrow> b_lastFinfo b = None \<and> b_txState b = htxFinfo \<and> \<not> b_eofAckWait b \<and> \<not> b_finfoAckWait b
     \<and> blk_inv (b_blk b)
     \<and> (case b_txOffer b of None \<Rightarrow> sends b = Some SIdle
        | Some ofr \<Rightarrow> 0 \<le> fo_Size ofr \<and> fo_Size ofr \<le> SafeMaxOffset \<and> fo_Reader ofr \<noteq> None
           \<and> sends b = Some (SFile (unhooked ofr) (if fo_Close ofr then Armed else NoHook) (Some 0) None))"

lemma tx_pull: "pullOffers E b = Some b' \<Longrightarrow> tx_ready b \<Longrightarrow> tx_pulled b'"
proof (rule pullOffers_rule [where I = tx_ready and J = tx_pulled])
  fix b ofr e assume r: "tx_ready b" and n: "b_txOffer b = None"
  then show "tx_ready (rejectOffer ofr e (emit (EvNextFile (Some ofr)) b))"
    using tx_ok_reject [of b ofr e] by (simp add: tx_ready_def) (simp add: rejectOffer_def closeOffer_def emit_def)
next
  fix b assume r: "tx_ready b"
  have "sends ((emit (EvNextFile None) b)\<lparr>b_batchEnded := True\<rparr>) = sends (emit (EvNextFile None) b)"
    by (simp add: sends_def)
  with r show "tx_pulled ((emit (EvNextFile None) b)\<lparr>b_batchEnded := True\<rparr>)"
    by (simp add: tx_ready_def tx_pulled_def) (simp add: emit_def)
next
  fix b and ofr :: FileOffer assume r: "tx_ready b" "0 \<le> fo_Size ofr" "fo_Size ofr \<le> SafeMaxOffset" "fo_Reader ofr \<noteq> None"
  have "sends ((emit (EvNextFile (Some ofr)) b)\<lparr>b_txOffer := Some ofr\<rparr>) = sends (emit (EvNextFile (Some ofr)) b)"
    by (simp add: sends_def)
  with r show "tx_pulled ((emit (EvNextFile (Some ofr)) b)\<lparr>b_txOffer := Some ofr\<rparr>)"
    by (simp add: tx_ready_def tx_pulled_def) (simp add: emit_def)
next
  fix b assume "tx_ready b" then show "tx_pulled b" by (simp add: tx_ready_def tx_pulled_def)
qed

lemma prepareFinfo_sends: "sends (prepareFinfo b) = sends b"
  by (simp add: prepareFinfo_def sends_def split: option.split)

definition tx_announced :: "batch \<Rightarrow> bool" where
  "tx_announced b \<longleftrightarrow> tx_ok b \<and> b_txState b = htxFinfo \<and> b_lastFinfo b \<noteq> None"

lemma tx_prepared: "tx_pulled b \<Longrightarrow> tx_announced (prepareFinfo b)"
  using prepareFinfo_sends [of b]
  by (auto simp: tx_pulled_def tx_announced_def prepareFinfo_def tx_ok_def tx_file_def tx_phase_def split: option.splits)

lemma tx_announced_write: "tx_announced b \<Longrightarrow> post tx_announced tx_ok (batch_write E pktFINFO p b)"
  by (simp add: tx_announced_def batch_write_def post_writer_write tx_ok_neutral split: option.split) (simp add: emit_def)

lemma tx_announced_wait: "tx_announced b \<Longrightarrow> tx_ok ((armTx E (b\<lparr>b_finfoAckWait := True\<rparr>))\<lparr>b_txState := htxFinfoAck\<rparr>)"
proof -
  assume b: "tx_announced b"
  have s: "sends (b\<lparr>b_finfoAckWait := True, b_txState := htxFinfoAck\<rparr>) = sends b" by (simp add: sends_def)
  have "tx_ok (b\<lparr>b_finfoAckWait := True, b_txState := htxFinfoAck\<rparr>)"
    using b s by (auto simp: tx_announced_def tx_ok_def tx_file_def tx_phase_def cong: option.case_cong split: option.splits)
  then show ?thesis
    by (subst tx_ok_view [of _ "b\<lparr>b_finfoAckWait := True, b_txState := htxFinfoAck\<rparr>"])
      (simp_all add: armTx_def set_txTimer_def tick_def sends_def tx_view_def Let_def)
qed

lemma tx_ok_eofWait:
  "tx_ok b \<Longrightarrow> in_transfer (b_txState b) \<Longrightarrow> tx_ok ((armTx E (b\<lparr>b_eofAckWait := True\<rparr>))\<lparr>b_txState := htxEOFAck\<rparr>)"
proof -
  assume b: "tx_ok b" "in_transfer (b_txState b)"
  then have "tx_ok (b\<lparr>b_eofAckWait := True\<rparr>)"
    by (auto simp: tx_ok_def tx_file_def tx_phase_def sends_def cong: option.case_cong)
  then show ?thesis
    using b(2) by (intro tx_ok_transfer) (simp_all add: armTx_def set_txTimer_def tick_def Let_def)
qed

lemma post_keep_state:
  "tx_ok b \<Longrightarrow> t \<noteq> pktDATA \<Longrightarrow>
    post (\<lambda>b'. tx_ok b' \<and> b_txState b' = b_txState b) tx_weak (batch_write E t p b)"
  using tx_ok_weak by (auto simp: batch_write_def post_writer_write tx_ok_neutral split: option.split) (simp_all add: emit_def)

lemma tx_ok_action_start:
  assumes b: "tx_ok b" and st: "b_txState b = htxStart" and r: "txAction E b = Some r"
  shows "post tx_ok tx_weak r"
proof -
  have "post (\<lambda>b. tx_ok b \<and> b_txState b = htxStart) tx_weak (writeRaw E autostart b)"
    using b st tx_ok_weak by (auto simp: post_writeRaw tx_ok_neutral split: option.split) (simp_all add: emit_def)
  then have "post tx_ok tx_weak (andThen (writeRaw E autostart b) (\<lambda>b.
        andThen (batch_write E pktSTART [] b) (\<lambda>b.
        fine ((set_txTimer E startInterval b)\<lparr>b_txState := htxSwait\<rparr>))))"
  proof (rule post_andThen)
    fix b assume b: "tx_ok b \<and> b_txState b = htxStart"
    show "post tx_ok tx_weak (andThen (batch_write E pktSTART [] b) (\<lambda>b.
        fine ((set_txTimer E startInterval b)\<lparr>b_txState := htxSwait\<rparr>)))"
      by (rule post_andThen [OF post_keep_state]) (use b in \<open>auto intro!: tx_ok_apart\<close>)
  qed
  with st r show ?thesis by (simp add: txAction_def)
qed

lemma tx_ok_action_finfo:
  assumes b: "tx_ok b" and st: "b_txState b = htxFinfo" and r: "txAction E b = Some r"
  shows "post tx_ok tx_weak r"
proof -
  from st r obtain r1 where r1: "sendFinfo E b = Some r1"
    "r = andThen r1 (\<lambda>b. fine ((armTx E (b\<lparr>b_finfoAckWait := True\<rparr>))\<lparr>b_txState := htxFinfoAck\<rparr>))"
    by (auto simp: txAction_def)
  from r1(1) obtain b1 where b1: "(if b_lastFinfo b = None then map_option prepareFinfo (pullOffers E b) else Some b) = Some b1"
    "r1 = batch_write E pktFINFO (case b_lastFinfo b1 of Some p \<Rightarrow> p | None \<Rightarrow> []) b1"
    by (auto simp: sendFinfo_def split: option.splits)
  have "b_lastFinfo b = None \<Longrightarrow> tx_ready b"
    using b st by (auto simp: tx_ready_def tx_ok_def tx_file_def tx_phase_def)
  then have "tx_announced b1"
    using b1(1) b st tx_pull tx_prepared by (auto simp: tx_announced_def split: if_splits)
  then have "post tx_announced tx_ok r1"
    unfolding b1(2) by (rule tx_announced_write)
  then have "post tx_announced tx_weak r1"
    by (rule post_mono) (simp_all add: tx_ok_weak)
  then show ?thesis unfolding r1(2) by (rule post_andThen) (simp add: tx_announced_wait)
qed

lemma tx_ok_action_end:
  assumes b: "tx_ok b" and st: "b_txState b = htxEnd" and r: "txAction E b = Some r"
  shows "post tx_ok tx_weak r"
proof -
  have "post tx_ok tx_weak (andThen (batch_write E pktEND [] b) (\<lambda>b. andThen (batch_write E pktEND [] b) (\<lambda>b.
        fine ((set_txTimer E (cf_Timeout (s_config b) div 2) b)\<lparr>b_txState := htxEndAck\<rparr>))))"
  proof (rule post_andThen [OF post_keep_state [OF b]])
    fix b' assume b': "tx_ok b' \<and> b_txState b' = b_txState b"
    then show "post tx_ok tx_weak (andThen (batch_write E pktEND [] b') (\<lambda>b.
        fine ((set_txTimer E (cf_Timeout (s_config b) div 2) b)\<lparr>b_txState := htxEndAck\<rparr>)))"
      by (intro post_andThen [OF post_keep_state]) (use st in \<open>auto intro!: tx_ok_apart\<close>)
  qed simp
  moreover have "andThen (write_times endInitialCount E pktEND b) f
      = andThen (batch_write E pktEND [] b) (\<lambda>b. andThen (batch_write E pktEND [] b) f)" for f
    by (simp add: numeral_2_eq_2 andThen_def fine_def split: option.split prod.split)
  ultimately show ?thesis using st r by (auto simp: txAction_def)
qed

lemma tx_ok_txAction:
  assumes b: "tx_ok b" and r: "txAction E b = Some r"
  shows "post tx_ok tx_weak r"
proof (cases "b_txState b")
  case htxStart
  with b r show ?thesis by (intro tx_ok_action_start)
next
  case htxInit
  have "post (\<lambda>b. tx_ok b \<and> b_txState b = htxInit) tx_weak (sendInit E b)"
    using b htxInit tx_ok_weak
    by (auto simp: sendInit_def Let_def post_writer_write tx_ok_neutral split: option.split) (simp_all add: emit_def)
  then have "post tx_ok tx_weak (andThen (sendInit E b) (\<lambda>b.
        fine ((set_txTimer E (cf_Timeout (s_config b) div 2) b)\<lparr>b_txState := htxInitAck\<rparr>)))"
    by (rule post_andThen) (auto intro!: tx_ok_apart)
  with htxInit r show ?thesis by (simp add: txAction_def)
next
  case htxFinfo
  with b r show ?thesis by (intro tx_ok_action_finfo)
next
  case htxXdata
  with b r show ?thesis by (auto simp: txAction_def tx_ok_sendData)
next
  case htxEOF
  have "post tx_ok tx_weak (andThen (batch_write E pktEOF p b) (\<lambda>b.
        fine ((armTx E (b\<lparr>b_eofAckWait := True\<rparr>))\<lparr>b_txState := htxEOFAck\<rparr>)))" for p
    by (rule post_andThen [OF post_keep_state [OF b]]) (use htxEOF in \<open>auto intro!: tx_ok_eofWait\<close>)
  with htxEOF r show ?thesis by (auto simp: txAction_def)
next
  case htxEnd
  with b r show ?thesis by (intro tx_ok_action_end)
qed (use b r in \<open>auto simp: txAction_def\<close>)

lemma tx_ok_idle:
  "tx_ok b \<Longrightarrow> tx_ok (tick b) \<and> tx_ok (b\<lparr>s_inbox := q\<rparr>) \<and> tx_ok (b\<lparr>s_readErr := None\<rparr>) \<and> tx_ok (b\<lparr>b_productive := False\<rparr>)"
  by simp

interpretation tx: batch_invariant E tx_ok tx_weak for E
proof unfold_locales
  fix b pkt assume "tx_ok b"
  then show "post tx_ok tx_weak (handlePacket E pkt b)"
    by (rule post_mono [OF tx_ok_packet]) (simp_all add: tx_ok_weak)
next
  fix b assume "tx_ok b"
  then have "tx_ok (b\<lparr>b_txTimer := None\<rparr>)" "tx_ok (b\<lparr>b_devTimer := None\<rparr>)" by simp_all
  then show "post tx_ok tx_weak (txTimeout E (b\<lparr>b_txTimer := None\<rparr>))"
    "post tx_ok tx_weak (devTimeout (b\<lparr>b_devTimer := None\<rparr>))"
    by (auto intro: post_mono [OF tx_ok_txTimeout] post_mono [OF tx_ok_devices(3)] tx_ok_weak)
next
  fix b assume "tx_ok b"
  then show "post tx_ok tx_weak (devAction E b)"
    by (rule post_mono [OF tx_ok_devAction]) (simp_all add: tx_ok_weak)
next
  fix b req dq assume "tx_ok b"
  then show "tx_ok (queueDev req (b\<lparr>s_devQ := dq\<rparr>))" by (simp add: tx_ok_devices(1))
qed (simp_all add: tx_ok_weak tx_ok_absorb tx_ok_sync tx_ok_txAction)

subsection \<open>Start and end of a batch\<close>

lemma tx_ok_new: "send_trace (s_log s) = Some SIdle \<Longrightarrow> tx_ok (newBatch s)"
  by (simp add: newBatch_def session.defs tx_ok_def tx_file_def tx_phase_def sends_def in_transfer_def blk_inv_new Let_def)

lemma tx_ok_reachable: "send_trace (s_log s) = Some SIdle \<Longrightarrow> reachable E s b \<Longrightarrow> tx_ok b"
  unfolding reachable_def batch_start_def using tx.breach_keeps tx_ok_new by (metis tx_ok_feed)

lemma tx_weak_closeWriter [simp]: "tx_weak (closeWriter w b) = tx_weak b"
  by (simp add: closeWriter_def tx_weak_neutral split: option.split)

lemma tx_weak_rxClose [simp]: "tx_weak (rxCloseFile e b) = tx_weak b"
  by (simp add: rxCloseFile_def recvCompleted_def Let_def tx_weak_neutral)

lemma teardown_sends: "tx_weak b \<Longrightarrow> sends (teardown e b) = Some SIdle"
proof -
  assume "tx_weak b"
  define b1 where "b1 = rxCloseFile (Some (case e of None \<Rightarrow> ErrSessionAborted | Some e \<Rightarrow> e)) b"
  have b1: "tx_weak b1" using \<open>tx_weak b\<close> by (simp add: b1_def)
  have t: "teardown e b = (if b_txOffer b1 \<noteq> None
      then (sendCompleted (b_txPos b1) (Some (case e of None \<Rightarrow> ErrSessionAborted | Some e \<Rightarrow> e)) (closeTxOffer b1))
        \<lparr>b_txOffer := None\<rparr> else b1)"
    by (simp add: teardown_def Let_def b1_def)
  show ?thesis
  proof (cases "b_txOffer b1")
    case None
    with b1 t show ?thesis by (simp add: tx_weak_def)
  next
    case (Some ofr)
    with b1 obtain h pos blk where ph: "b_txInfo b1 = offerInfo ofr"
      "sends b1 = Some (SFile (unhooked ofr) h pos blk)" "fo_Close ofr \<longleftrightarrow> h = Armed"
      by (auto simp: tx_weak_def)
    have "sends (sendCompleted n (Some x) (closeTxOffer b1)) = Some SIdle" for n x
      by (rule complete_file [OF Some ph]) simp
    with Some t show ?thesis by (simp add: sends_def)
  qed
qed

lemma batch_run_sends:
  assumes "send_trace (s_log s) = Some SIdle" and "batch_run E (newBatch s) = Some r"
  shows "sends (fst r) = Some SIdle"
proof -
  from assms(2) obtain r1 where r1: "run_loop E (feedBraindead E (newBatch s)) = Some r1"
    "r = (teardown (snd r1) (fst r1), snd r1)"
    by (auto simp: batch_run_def)
  have "post tx_ok tx_weak r1"
    by (rule tx.run_loop_keeps [OF r1(1)]) (simp add: tx_ok_new assms(1))
  then have "tx_weak (fst r1)" by (auto simp: post_def tx_ok_weak split: option.splits)
  then show ?thesis using r1(2) teardown_sends by simp
qed

subsection \<open>Reading the contract off a log\<close>

text \<open>Offers and completions balance.\<close>

definition is_offer :: "event \<Rightarrow> bool" where
  "is_offer e \<longleftrightarrow> (case e of EvNextFile (Some ofr) \<Rightarrow> True | _ \<Rightarrow> False)"

definition is_completed :: "event \<Rightarrow> bool" where
  "is_completed e \<longleftrightarrow> (case e of EvSendCompleted i n r \<Rightarrow> True | _ \<Rightarrow> False)"

definition is_hooked :: "event \<Rightarrow> bool" where
  "is_hooked e \<longleftrightarrow> (case e of EvNextFile (Some ofr) \<Rightarrow> fo_Close ofr | _ \<Rightarrow> False)"

definition is_close :: "event \<Rightarrow> bool" where
  "is_close e \<longleftrightarrow> (case e of EvOfferClose ofr \<Rightarrow> True | _ \<Rightarrow> False)"

lemma send_step_counts:
  assumes "send_step ph e = Some ph'"
  shows "of_bool (is_offer e) + of_bool (ph \<noteq> SIdle) = of_bool (is_completed e) + (of_bool (ph' \<noteq> SIdle) :: nat)
    \<and> of_bool (is_hooked e) + of_bool (\<exists>o1 p k. ph = SFile o1 Armed p k)
      = of_bool (is_close e) + (of_bool (\<exists>o1 p k. ph' = SFile o1 Armed p k) :: nat)"
  using assms
  by (induction ph e rule: send_step.induct)
    (auto simp: is_offer_def is_completed_def is_hooked_def is_close_def split: if_splits option.splits)

lemma send_trace_counts:
  "send_trace es = Some ph \<Longrightarrow>
    length (filter is_offer es) = length (filter is_completed es) + of_bool (ph \<noteq> SIdle)
    \<and> length (filter is_hooked es) = length (filter is_close es) + of_bool (\<exists>o1 p k. ph = SFile o1 Armed p k)"
proof (induction es arbitrary: ph rule: rev_induct)
  case Nil
  then show ?case by (simp add: send_trace_def)
next
  case (snoc e es)
  then obtain ph0 where "send_trace es = Some ph0" "send_step ph0 e = Some ph"
    by (auto simp: send_trace_snoc bind_eq_Some_conv)
  note step = send_step_counts [OF this(2)] and IH = snoc.IH [OF this(1)]
  have cnt: "length (filter P (es @ [e])) = length (filter P es) + of_bool (P e)" for P by simp
  show ?case unfolding cnt using step IH by (intro conjI) linarith+
qed

lemma send_trace_split:
  assumes "send_trace (es @ e # fs) \<noteq> None"
  obtains ph where "send_trace es = Some ph" "send_step ph e \<noteq> None"
proof -
  have none: "foldl (\<lambda>p e. Option.bind p (\<lambda>ph. send_step ph e)) None xs = None" for xs
    by (induction xs) simp_all
  have "send_trace (es @ [e]) \<noteq> None"
    using assms none [of fs] by (cases "Option.bind (send_trace es) (\<lambda>ph. send_step ph e)") (simp_all add: send_trace_def)
  with that show ?thesis by (auto simp: send_trace_snoc split: bind_splits)
qed

subsection \<open>The properties\<close>

text \<open>
  Property C6. Exactly-once completion on the send side: however a batch ends (cleanly, by an
  error, by a cancellation or a hang-up, at any point), every file \<open>NextFile\<close> offered was
  reported by \<open>FileCompleted\<close> exactly once, every \<open>Close\<close> hook ran exactly once, before its
  report, and nothing was read from a file after its hook had run.
\<close>

theorem send_files_completed_once:
  assumes "send_trace (s_log s) = Some SIdle" and "batch_run E (newBatch s) = Some (b, err)"
  shows "send_trace (s_log b) = Some SIdle
    \<and> length (filter is_offer (s_log b)) = length (filter is_completed (s_log b))
    \<and> length (filter is_hooked (s_log b)) = length (filter is_close (s_log b))"
  using batch_run_sends [OF assms] send_trace_counts [of "s_log b" SIdle] by (simp add: sends_def)

lemma demo_idle: "send_trace (s_log demoSession) = Some SIdle"
  by (simp add: demoSession_def run_setup_def NewSession_def send_trace_def)

lemma sent_data_read:
  assumes "send_trace (s_log s) = Some SIdle" and "reachable E s b"
    and "s_log b = es @ EvSend f r # fs" and "pkt_typ (sn_packet f) = pktDATA"
  shows "\<exists>ofr h pos p buf. send_trace es = Some (SFile ofr h pos (Some (p, buf))) \<and> h \<noteq> Ran
    \<and> 0 \<le> p \<and> p + int (length buf) \<le> SafeMaxOffset \<and> pkt_payload (sn_packet f) = marshalData p buf"
proof -
  have "send_trace (s_log b) \<noteq> None"
    using tx_ok_reachable [OF assms(1,2)] by (auto simp: tx_ok_def tx_file_def sends_def split: option.splits)
  then obtain ph where ph: "send_trace es = Some ph" "send_step ph (EvSend f r) \<noteq> None"
    unfolding assms(3) by (rule send_trace_split)
  with assms(4) show ?thesis by (cases ph) (auto split: if_splits)
qed

text \<open>
  Property C5. What the sender puts on the wire is the file: at every moment of a batch, a DATA
  frame in the log was sent for an open offer, within the offset range, and its payload is
  the offset and the bytes of the last read of that offer's source, the offset being the
  position of that read (counted from the start or from the last successful seek).
\<close>

theorem data_frames_faithful:
  assumes "send_trace (s_log s) = Some SIdle" and "reachable E s b"
    and "s_log b = es @ EvSend f r # fs" and "pkt_typ (sn_packet f) = pktDATA"
  shows "\<exists>ofr h pos p buf. send_trace es = Some (SFile ofr h pos (Some (p, buf))) \<and> h \<noteq> Ran
    \<and> 0 \<le> p \<and> p + int (length buf) \<le> SafeMaxOffset \<and> pkt_payload (sn_packet f) = marshalData p buf"
  using sent_data_read [OF assms] .

text \<open>
  Property C24. No nil dereference and no wait without a deadline: in every state of a batch
  the source and the offer exist while a file is transferred, an in-flight datagram exists
  while the device machine is busy, the transmit position is a valid offset, the block size
  fits the buffer and the watchdog is armed.
\<close>

theorem batch_memory_safe:
  assumes "fresh s" and "send_trace (s_log s) = Some SIdle" and "reachable E s b"
  shows "(b_devState b = htdDone \<longleftrightarrow> b_devPending b = None) \<and> b_braindead b \<noteq> None \<and> nearestDeadline b \<noteq> None
    \<and> 1 \<le> bs_size (b_blk b) \<and> bs_size (b_blk b) \<le> int DataBufMax
    \<and> (in_transfer (b_txState b) \<longrightarrow> b_txOffer b \<noteq> None \<and> b_txReader b \<noteq> None
         \<and> 0 \<le> b_txPos b \<and> b_txPos b \<le> SafeMaxOffset)"
proof -
  have core: "core_ok b" by (rule core_ok_reachable [OF assms(1,3)])
  have tx: "tx_ok b" by (rule tx_ok_reachable [OF assms(2,3)])
  have "nearestDeadline b \<noteq> None"
    using core_okD(4) [OF core] by (auto simp: nearestDeadline_def Let_def split: option.splits)
  moreover have "in_transfer (b_txState b) \<Longrightarrow> b_txOffer b \<noteq> None \<and> b_txReader b \<noteq> None
         \<and> 0 \<le> b_txPos b \<and> b_txPos b \<le> SafeMaxOffset"
    by (erule tx_ok_fileE [OF tx]) simp
  ultimately show ?thesis
    using core_okD [OF core] tx bs_size_bounds [of "b_blk b"] by (simp add: tx_ok_def)
qed
end
