(* ===== verification/Hydra_RxContract.thy ===== *)
theory Hydra_RxContract
  imports Hydra_TxContract
begin

section \<open>What the receiver promises the application\<close>

text \<open>
  The contract of \<open>RecvHandler\<close> as an automaton over the event log: what follows an answer of
  \<open>AcceptFile\<close>, that the bytes of a DATA packet are written only at their own position, that
  the writer is closed before the one report, and that success is reported only for the
  position the peer's EOF names.
\<close>

subsection \<open>The contract\<close>

text \<open>
  \<open>ROpen info w pos p\<close>: a file accepted and open, the next position, the last packet
  received. \<open>RBroken\<close>: its writer failed. \<open>RClosed\<close>: its writer is closed, the report is due.
  \<open>RRefused info w\<close>: the application refused, a writer it returned nevertheless is to be
  closed.
\<close>

datatype recv_phase =
    RIdle
  | RRefused FileInfo "nat option"
  | ROpen FileInfo nat int "packet option"
  | RBroken FileInfo nat int
  | RClosed FileInfo int "packet option"

definition is_data_at :: "int \<Rightarrow> byte list \<Rightarrow> packet option \<Rightarrow> bool" where
  "is_data_at pos data p \<longleftrightarrow> (case p of None \<Rightarrow> False
     | Some q \<Rightarrow> pkt_typ q = pktDATA \<and> parseData (pkt_payload q) = Inr (pos, data))"

definition is_eof_at :: "int \<Rightarrow> packet option \<Rightarrow> bool" where
  "is_eof_at pos p \<longleftrightarrow> (case p of None \<Rightarrow> False
     | Some q \<Rightarrow> pkt_typ q = pktEOF \<and> parseOffset (pkt_payload q) = Inr pos)"

definition resume_ok :: "FileInfo \<Rightarrow> int \<Rightarrow> bool" where
  "resume_ok info off \<longleftrightarrow> 0 \<le> off \<and> off \<le> SafeMaxOffset \<and> (fi_Size info > 0 \<longrightarrow> off \<le> fi_Size info)"

fun recv_step :: "recv_phase \<Rightarrow> event \<Rightarrow> recv_phase option" where
  "recv_step RIdle (EvAccept info w off herr) =
     (if fi_Size info > SafeMaxOffset then None
      else Some (case w of
        Some h \<Rightarrow> if herr = None \<and> resume_ok info off then ROpen info h off None else RRefused info w
      | None \<Rightarrow> RRefused info None))"
| "recv_step RIdle (EvRecvCompleted info n e) =
     (if n = 0 \<and> e = Some ErrFileTooLarge \<and> fi_Size info > SafeMaxOffset then Some RIdle else None)"
| "recv_step RIdle (EvWrite h data r) = None"
| "recv_step RIdle (EvWriterClose h) = None"
| "recv_step RIdle (EvRecvProgress info n) = None"
| "recv_step (RRefused info w) (EvWriterClose h) = (if w = Some h then Some (RRefused info None) else None)"
| "recv_step (RRefused info w) (EvRecvCompleted info' n e) =
     (if w = None \<and> info' = info \<and> n = 0 \<and> e \<noteq> None then Some RIdle else None)"
| "recv_step (RRefused info w) e = None"
| "recv_step (ROpen info h pos p) (EvRecv q) = Some (ROpen info h pos (Some q))"
| "recv_step (ROpen info h pos p) (EvWrite h' data r) =
     (if h' = h \<and> is_data_at pos data p then
        Some (if r = None then ROpen info h (pos + int (length data)) p else RBroken info h pos)
      else None)"
| "recv_step (ROpen info h pos p) (EvRecvProgress info' n) =
     (if info' = info \<and> n = pos then Some (ROpen info h pos p) else None)"
| "recv_step (ROpen info h pos p) (EvWriterClose h') = (if h' = h then Some (RClosed info pos p) else None)"
| "recv_step (ROpen info h pos p) (EvRecvCompleted info' n e) = None"
| "recv_step (ROpen info h pos p) (EvAccept info' w off herr) = None"
| "recv_step (RBroken info h pos) (EvWriterClose h') = (if h' = h then Some (RClosed info pos None) else None)"
| "recv_step (RBroken info h pos) e = None"
| "recv_step (RClosed info pos p) (EvRecvCompleted info' n e) =
     (if info' = info \<and> n = pos \<and> (e = None \<longrightarrow> is_eof_at pos p) then Some RIdle else None)"
| "recv_step (RClosed info pos p) e = None"
| "recv_step ph e = Some ph"

definition recv_trace :: "event list \<Rightarrow> recv_phase option" where
  "recv_trace es = foldl (\<lambda>p e. Option.bind p (\<lambda>ph. recv_step ph e)) (Some RIdle) es"

lemma recv_trace_snoc: "recv_trace (es @ [e]) = Option.bind (recv_trace es) (\<lambda>ph. recv_step ph e)"
  by (simp add: recv_trace_def)

definition recvs :: "batch \<Rightarrow> recv_phase option" where
  "recvs b = recv_trace (s_log b)"

lemma recvs_emit [simp]: "recvs (emit e b) = Option.bind (recvs b) (\<lambda>ph. recv_step ph e)"
  by (simp add: recvs_def emit_def recv_trace_snoc)

text \<open>Events the contract does not constrain while no report is due.\<close>

definition rx_neutral :: "event \<Rightarrow> bool" where
  "rx_neutral e \<longleftrightarrow> (case e of
       EvRecv p \<Rightarrow> False | EvAccept a b c d \<Rightarrow> False | EvWrite a b c \<Rightarrow> False | EvWriterClose a \<Rightarrow> False
     | EvRecvProgress a b \<Rightarrow> False | EvRecvCompleted a b c \<Rightarrow> False | _ \<Rightarrow> True)"

lemma rx_neutral_simps [simp]:
  "rx_neutral (EvSend s r)" "rx_neutral (EvRaw bs r)" "rx_neutral (EvNextFile a)" "rx_neutral (EvOfferClose f)"
  "rx_neutral (EvRead h d r)" "rx_neutral (EvSeek h n r)" "rx_neutral (EvSendProgress i n)"
  "rx_neutral (EvSendCompleted i n e)" "rx_neutral (EvDevice nm q)" "rx_neutral EvTransportClose"
  by (simp_all add: rx_neutral_def)

subsection \<open>The invariant\<close>

text \<open>
  \<open>rx_at p b\<close>: the variables of the receive machine agree with the automaton, and a file is
  open only in \<open>hrxData\<close>; the last packet, if a file is open, satisfies \<open>Q\<close>.
\<close>

definition rx_at :: "(packet option \<Rightarrow> bool) \<Rightarrow> batch \<Rightarrow> bool" where
  "rx_at Q b \<longleftrightarrow>
     (if b_rxOpen b
      then b_rxState b = hrxData \<and> 0 \<le> b_rxPos b \<and> b_rxPos b \<le> SafeMaxOffset
         \<and> (\<exists>h p. b_rxWriter b = Some h \<and> recvs b = Some (ROpen (b_rxInfo b) h (b_rxPos b) p) \<and> Q p)
      else b_rxWriter b = None \<and> recvs b = Some RIdle \<and> (b_rxState b = hrxData \<longrightarrow> b_rxPos b = - 2))"

abbreviation rx_ok :: "batch \<Rightarrow> bool" where
  "rx_ok \<equiv> rx_at (\<lambda>_. True)"

lemma rx_at_weaken: "rx_at Q b \<Longrightarrow> rx_ok b"
  by (auto simp: rx_at_def)

definition rx_view where
  "rx_view b = (b_rxState b, b_rxWriter b, b_rxOpen b, b_rxInfo b, b_rxPos b)"

lemma rx_at_view: "recvs b = recvs b' \<Longrightarrow> rx_view b = rx_view b' \<Longrightarrow> rx_at Q b = rx_at Q b'"
  by (simp only: rx_view_def prod.inject rx_at_def)

text \<open>The fields the invariant does not mention.\<close>

lemma rx_at_frame [simp]:
  "rx_at Q (b\<lparr>s_config := x0\<rparr>) = rx_at Q b" "rx_at Q (b\<lparr>s_rxOpts := x1\<rparr>) = rx_at Q b"
  "rx_at Q (b\<lparr>s_effOpts := x2\<rparr>) = rx_at Q b" "rx_at Q (b\<lparr>s_negotiated := x3\<rparr>) = rx_at Q b"
  "rx_at Q (b\<lparr>s_inbox := x4\<rparr>) = rx_at Q b" "rx_at Q (b\<lparr>s_readErr := x5\<rparr>) = rx_at Q b"
  "rx_at Q (b\<lparr>s_readerDone := x6\<rparr>) = rx_at Q b" "rx_at Q (b\<lparr>s_devQ := x7\<rparr>) = rx_at Q b"
  "rx_at Q (b\<lparr>s_aborted := x8\<rparr>) = rx_at Q b" "rx_at Q (b\<lparr>s_err := x9\<rparr>) = rx_at Q b"
  "rx_at Q (b\<lparr>s_started := x10\<rparr>) = rx_at Q b" "rx_at Q (b\<lparr>s_runActive := x11\<rparr>) = rx_at Q b"
  "rx_at Q (b\<lparr>s_closerSet := x12\<rparr>) = rx_at Q b" "rx_at Q (b\<lparr>s_closed := x13\<rparr>) = rx_at Q b"
  "rx_at Q (b\<lparr>s_ctx := x14\<rparr>) = rx_at Q b" "rx_at Q (b\<lparr>s_clk := x15\<rparr>) = rx_at Q b"
  "rx_at Q (b\<lparr>b_opts := x16\<rparr>) = rx_at Q b" "rx_at Q (b\<lparr>b_txWindow := x17\<rparr>) = rx_at Q b"
  "rx_at Q (b\<lparr>b_rxWindow := x18\<rparr>) = rx_at Q b" "rx_at Q (b\<lparr>b_prefix := x19\<rparr>) = rx_at Q b"
  "rx_at Q (b\<lparr>b_productive := x20\<rparr>) = rx_at Q b" "rx_at Q (b\<lparr>b_txTimer := x21\<rparr>) = rx_at Q b"
  "rx_at Q (b\<lparr>b_devTimer := x22\<rparr>) = rx_at Q b" "rx_at Q (b\<lparr>b_braindead := x23\<rparr>) = rx_at Q b"
  "rx_at Q (b\<lparr>b_txState := x24\<rparr>) = rx_at Q b" "rx_at Q (b\<lparr>b_txRetries := x25\<rparr>) = rx_at Q b"
  "rx_at Q (b\<lparr>b_txSyncID := x26\<rparr>) = rx_at Q b" "rx_at Q (b\<lparr>b_blk := x27\<rparr>) = rx_at Q b"
  "rx_at Q (b\<lparr>b_txLastAck := x28\<rparr>) = rx_at Q b" "rx_at Q (b\<lparr>b_peerAcked := x29\<rparr>) = rx_at Q b"
  "rx_at Q (b\<lparr>b_hdxlink := x30\<rparr>) = rx_at Q b" "rx_at Q (b\<lparr>b_txOffer := x31\<rparr>) = rx_at Q b"
  "rx_at Q (b\<lparr>b_txReader := x32\<rparr>) = rx_at Q b" "rx_at Q (b\<lparr>b_txSeeker := x33\<rparr>) = rx_at Q b"
  "rx_at Q (b\<lparr>b_txInfo := x34\<rparr>) = rx_at Q b" "rx_at Q (b\<lparr>b_txPos := x35\<rparr>) = rx_at Q b"
  "rx_at Q (b\<lparr>b_txSkip := x36\<rparr>) = rx_at Q b" "rx_at Q (b\<lparr>b_txErr := x37\<rparr>) = rx_at Q b"
  "rx_at Q (b\<lparr>b_txEOB := x38\<rparr>) = rx_at Q b" "rx_at Q (b\<lparr>b_lastFinfo := x39\<rparr>) = rx_at Q b"
  "rx_at Q (b\<lparr>b_filesSent := x40\<rparr>) = rx_at Q b" "rx_at Q (b\<lparr>b_batchEnded := x41\<rparr>) = rx_at Q b"
  "rx_at Q (b\<lparr>b_finfoAckWait := x42\<rparr>) = rx_at Q b" "rx_at Q (b\<lparr>b_eofAckWait := x43\<rparr>) = rx_at Q b"
  "rx_at Q (b\<lparr>b_filesRcvd := x44\<rparr>) = rx_at Q b" "rx_at Q (b\<lparr>b_lastRefusedFinfo := x45\<rparr>) = rx_at Q b"
  "rx_at Q (b\<lparr>b_lastRefusedAck := x46\<rparr>) = rx_at Q b" "rx_at Q (b\<lparr>b_rxRetries := x47\<rparr>) = rx_at Q b"
  "rx_at Q (b\<lparr>b_rxSyncID := x48\<rparr>) = rx_at Q b" "rx_at Q (b\<lparr>b_rxLastSync := x49\<rparr>) = rx_at Q b"
  "rx_at Q (b\<lparr>b_rxTimer := x50\<rparr>) = rx_at Q b" "rx_at Q (b\<lparr>b_rxBlkLen := x51\<rparr>) = rx_at Q b"
  "rx_at Q (b\<lparr>b_devState := x52\<rparr>) = rx_at Q b" "rx_at Q (b\<lparr>b_devRetries := x53\<rparr>) = rx_at Q b"
  "rx_at Q (b\<lparr>b_devTxID := x54\<rparr>) = rx_at Q b" "rx_at Q (b\<lparr>b_devRxID := x55\<rparr>) = rx_at Q b"
  "rx_at Q (b\<lparr>b_devPending := x56\<rparr>) = rx_at Q b" "rx_at Q (b\<lparr>b_devQueue := x57\<rparr>) = rx_at Q b"
  by (rule rx_at_view; simp add: rx_view_def recvs_def)+

lemma rx_at_neutral: "rx_neutral e \<Longrightarrow> rx_at Q b \<Longrightarrow> rx_at Q (emit e b)"
proof -
  assume e: "rx_neutral e" and b: "rx_at Q b"
  from b have "recvs b = Some RIdle \<or> (\<exists>i h pos p. recvs b = Some (ROpen i h pos p))"
    by (auto simp: rx_at_def split: if_splits)
  with e have "recvs (emit e b) = recvs b"
    by (cases e) (auto simp: rx_neutral_def)
  then have "rx_at Q (emit e b) = rx_at Q b"
    by (rule rx_at_view) (simp add: rx_view_def emit_def)
  with b show ?thesis by simp
qed

lemma rx_at_recv: "rx_ok b \<Longrightarrow> rx_at (\<lambda>p. p = Some pkt) (emit (EvRecv pkt) b)"
  by (auto simp: rx_at_def split: if_splits) (simp_all add: emit_def)

subsection \<open>Steps of the other machines\<close>

lemma rx_ok_tick [simp]: "rx_at Q (tick b) = rx_at Q b"
  by (simp add: tick_def)

lemma rx_ok_feed [simp]: "rx_at Q (feedBraindead E b) = rx_at Q b"
  by (simp add: feedBraindead_def)

lemma rx_ok_timers [simp]: "rx_at Q (set_txTimer E d b) = rx_at Q b" "rx_at Q (armTx E b) = rx_at Q b"
  by (simp_all add: set_txTimer_def armTx_def Let_def)

lemma rx_ok_writer [simp]: "rx_at Q b \<Longrightarrow> post (rx_at Q) (rx_at Q) (writer_write E s b)"
  by (simp add: post_writer_write rx_at_neutral split: option.split)

lemma rx_ok_write [simp]: "rx_at Q b \<Longrightarrow> post (rx_at Q) (rx_at Q) (batch_write E t p b)"
  by (simp add: batch_write_def)

lemma rx_ok_times: "rx_ok b \<Longrightarrow> post rx_ok rx_ok (write_times n E t b)"
proof (induction n arbitrary: b)
  case (Suc n)
  show ?case unfolding write_times.simps
    by (rule post_andThen [OF rx_ok_write [OF Suc.prems] Suc.IH])
qed simp

lemma rx_ok_tx_blocks:
  "rx_ok b \<Longrightarrow> rx_ok (closeTxOffer b)" "rx_ok b \<Longrightarrow> rx_ok (sendCompleted n e b)"
  "rx_ok b \<Longrightarrow> rx_ok (skipToEOF e' b)" "rx_ok b \<Longrightarrow> rx_ok (queueDev req b)"
  "rx_ok b \<Longrightarrow> rx_ok (devDack pkt b)" "rx_ok b \<Longrightarrow> rx_ok (devPromote b)"
  by (simp_all add: closeTxOffer_def closeOffer_def sendCompleted_def skipToEOF_def queueDev_def devDack_def
      devPromote_def Let_def rx_at_neutral split: option.split sum.split list.split)

lemma rx_ok_finish: "rx_ok b \<Longrightarrow> rx_ok (finishTxFile b)"
  by (simp add: finishTxFile_def Let_def rx_ok_tx_blocks)

lemma rx_ok_devices:
  "rx_ok b \<Longrightarrow> post rx_ok rx_ok (devTimeout b)" "rx_ok b \<Longrightarrow> post rx_ok rx_ok (devRx E pkt b)"
  by (simp_all add: devTimeout_def devRx_def Let_def rx_at_neutral split: sum.split)

lemma rx_ok_devAction: "rx_ok b \<Longrightarrow> post rx_ok rx_ok (devAction E b)"
proof -
  assume "rx_ok b"
  then have b: "rx_ok (devPromote b)" by (rule rx_ok_tx_blocks)
  then have "post rx_ok rx_ok (andThen (batch_write E pktDEVDATA (marshalDevData d) (devPromote b)) (\<lambda>b.
        fine ((tick (b\<lparr>b_devTimer := Some (time_now E b + cf_Timeout (s_config b))\<rparr>))\<lparr>b_devState := htdDack\<rparr>)))" for d
    by (intro post_andThen [where J = rx_ok]) simp_all
  with b show ?thesis by (simp add: devAction_def Let_def split: option.split)
qed

lemma rx_ok_txFinfoAck: "rx_ok b \<Longrightarrow> post rx_ok rx_ok (txFinfoAck E pkt b)"
  by (auto simp: txFinfoAck_def Let_def rx_at_neutral rx_ok_tx_blocks rx_ok_finish split: sum.split option.split)

lemma rx_ok_txDataAck: "rx_ok b \<Longrightarrow> rx_ok (txDataAck pkt b)"
  by (simp add: txDataAck_def Let_def split: sum.split)

lemma rx_ok_txRpos: "rx_ok b \<Longrightarrow> post rx_ok rx_ok (txRpos E pkt b)"
  by (simp add: txRpos_def Let_def rx_at_neutral rx_ok_tx_blocks split: sum.split option.split)

lemma rx_ok_txEOFAck: "rx_ok b \<Longrightarrow> rx_ok (txEOFAck E b)"
  by (auto simp: txEOFAck_def Let_def rx_ok_tx_blocks rx_ok_finish)

lemma rx_ok_txIdle: "rx_ok b \<Longrightarrow> rx_ok (txIdle E b)"
  by (simp add: txIdle_def)

lemma rx_ok_txEnd: "rx_ok b \<Longrightarrow> post rx_ok rx_ok (txEnd E b)"
proof -
  assume b: "rx_ok b"
  then have "post rx_ok rx_ok (andThen (write_times endResponseCount E pktEND b) (\<lambda>b.
        fine (b\<lparr>b_txTimer := None, b_txState := htxDone\<rparr>)))"
    by (intro post_andThen [OF rx_ok_times]) simp_all
  with b show ?thesis by (simp add: txEnd_def)
qed

lemma rx_ok_txTimeout: "rx_ok b \<Longrightarrow> post rx_ok rx_ok (txTimeout E b)"
proof -
  assume b: "rx_ok b"
  then have "post rx_ok rx_ok (andThen (batch_write E pktIDLE [] b) (\<lambda>b. fine (set_txTimer E (batch_idle b) b)))"
    by (intro post_andThen [OF rx_ok_write]) simp_all
  with b show ?thesis by (simp add: txTimeout_def Let_def)
qed

lemma rx_ok_sendData: "rx_ok b \<Longrightarrow> post rx_ok rx_ok (sendData E b)"
proof -
  assume b: "rx_ok b"
  have "post rx_ok rx_ok (andThen (batch_write E pktDATA p b') (sendData_sent E n))" if "rx_ok b'" for b' p n
    by (rule post_andThen [OF rx_ok_write [OF that]])
      (simp add: sendData_sent_def Let_def rx_at_neutral)
  with b show ?thesis by (simp add: sendData_def Let_def rx_at_neutral rx_ok_tx_blocks split: option.split)
qed

lemma rx_ok_pull: "pullOffers E b = Some b' \<Longrightarrow> rx_ok b \<Longrightarrow> rx_ok b'"
  by (erule pullOffers_rule [where I = rx_ok])
    (simp_all add: rejectOffer_def closeOffer_def rx_at_neutral)

lemma rx_ok_prepare: "rx_ok (prepareFinfo b) = rx_ok b"
  by (simp add: prepareFinfo_def split: option.split)

lemma rx_ok_txAction: "rx_ok b \<Longrightarrow> txAction E b = Some r \<Longrightarrow> post rx_ok rx_ok r"
proof -
  assume b: "rx_ok b" and r: "txAction E b = Some r"
  have sends: "post rx_ok rx_ok (andThen (batch_write E t p b') (\<lambda>b. fine (f b)))"
    if "rx_ok b'" "\<And>b. rx_ok b \<Longrightarrow> rx_ok (f b)" for t p b' f
    by (rule post_andThen [OF rx_ok_write [OF that(1)]]) (use that(2) in simp)
  show ?thesis
  proof (cases "b_txState b")
    case htxStart
    have "post rx_ok rx_ok (writeRaw E autostart b)"
      using b by (simp add: post_writeRaw rx_at_neutral split: option.split)
    then have "post rx_ok rx_ok (andThen (writeRaw E autostart b) (\<lambda>b.
          andThen (batch_write E pktSTART [] b) (\<lambda>b.
          fine ((set_txTimer E startInterval b)\<lparr>b_txState := htxSwait\<rparr>))))"
      by (rule post_andThen) (rule sends; simp)
    with htxStart r show ?thesis by (simp add: txAction_def)
  next
    case htxInit
    have "post rx_ok rx_ok (andThen (sendInit E b) (\<lambda>b.
          fine ((set_txTimer E (cf_Timeout (s_config b) div 2) b)\<lparr>b_txState := htxInitAck\<rparr>)))"
      by (rule post_andThen [where J = rx_ok]) (use b in \<open>simp_all add: sendInit_def Let_def\<close>)
    with htxInit r show ?thesis by (simp add: txAction_def)
  next
    case htxFinfo
    from htxFinfo r obtain r1 where r1: "sendFinfo E b = Some r1"
      "r = andThen r1 (\<lambda>b. fine ((armTx E (b\<lparr>b_finfoAckWait := True\<rparr>))\<lparr>b_txState := htxFinfoAck\<rparr>))"
      by (auto simp: txAction_def)
    from r1(1) obtain b1 where b1: "(if b_lastFinfo b = None then map_option prepareFinfo (pullOffers E b) else Some b) = Some b1"
      "r1 = batch_write E pktFINFO (case b_lastFinfo b1 of Some p \<Rightarrow> p | None \<Rightarrow> []) b1"
      by (auto simp: sendFinfo_def split: option.splits)
    have "rx_ok b1"
      using b1(1) b rx_ok_pull rx_ok_prepare by (auto split: if_splits)
    then show ?thesis unfolding r1(2) b1(2) by (intro sends) simp_all
  next
    case htxXdata
    with b r show ?thesis by (auto simp: txAction_def rx_ok_sendData)
  next
    case htxEOF
    with b have "post rx_ok rx_ok (andThen (batch_write E pktEOF p b) (\<lambda>b.
          fine ((armTx E (b\<lparr>b_eofAckWait := True\<rparr>))\<lparr>b_txState := htxEOFAck\<rparr>)))" for p
      by (intro sends) simp_all
    with htxEOF r show ?thesis by (auto simp: txAction_def)
  next
    case htxEnd
    have "post rx_ok rx_ok (andThen (write_times endInitialCount E pktEND b) (\<lambda>b.
          fine ((set_txTimer E (cf_Timeout (s_config b) div 2) b)\<lparr>b_txState := htxEndAck\<rparr>)))"
      by (rule post_andThen [OF rx_ok_times [OF b]]) simp
    with htxEnd r show ?thesis by (auto simp: txAction_def)
  qed (use b r in \<open>auto simp: txAction_def\<close>)
qed

lemma rx_ok_absorb: "rx_ok b \<Longrightarrow> rx_ok (absorb E x b)"
  by (cases x)
    (simp_all add: SendDevice_def Abort_def Close_def session_close_def courtesyCancel_def triggerAbort_def
      recordError_def writeRaw_def rx_at_neutral Let_def split: prod.split bool.split)

lemma rx_ok_sync: "rx_ok b \<Longrightarrow> rx_ok (batch_sync E b)"
  by (simp add: batch_sync_def)

subsection \<open>The receive machine\<close>

lemma rx_ok_rxInit: "rx_ok b \<Longrightarrow> post rx_ok rx_ok (rxInit E pkt b)"
proof -
  assume b: "rx_ok b"
  have "rx_ok (b'\<lparr>b_rxState := hrxFinfo\<rparr>)" if "rx_ok b'" "b_rxState b' = hrxInit" for b'
    using that by (auto simp: rx_at_def recvs_def split: if_splits)
  then have "b_rxState b = hrxInit \<Longrightarrow> post rx_ok rx_ok (andThen (negotiate p b) (\<lambda>b. fine (b\<lparr>b_rxState := hrxFinfo\<rparr>)))" for p
    by (intro post_andThen [where J = "\<lambda>b. rx_ok b \<and> b_rxState b = hrxInit"])
      (use b in \<open>simp_all add: negotiate_def Let_def\<close>)
  with b have "post rx_ok rx_ok (if b_rxState b = hrxInit then
          (case parseInit (pkt_payload pkt) of
             Inl _ \<Rightarrow> fine b
           | Inr p \<Rightarrow> andThen (negotiate p b) (\<lambda>b. fine (b\<lparr>b_rxState := hrxFinfo\<rparr>)))
        else fine b)"
    by (simp split: sum.split)
  then show ?thesis unfolding rxInit_def by (rule post_andThen) simp
qed

text \<open>A state without an open file, in which only the phase matters.\<close>

lemma rx_closed:
  "rx_ok b \<Longrightarrow> b_rxState b \<noteq> hrxData \<Longrightarrow> \<not> b_rxOpen b \<and> b_rxWriter b = None \<and> recvs b = Some RIdle"
  by (auto simp: rx_at_def split: if_splits)

lemma rx_ok_idleI:
  "\<not> b_rxOpen b \<Longrightarrow> b_rxWriter b = None \<Longrightarrow> recvs b = Some RIdle \<Longrightarrow> b_rxState b \<noteq> hrxData \<Longrightarrow> rx_ok b"
  by (simp add: rx_at_def)

lemma rx_emit_fields [simp]:
  "b_rxOpen (emit e b) = b_rxOpen b" "b_rxWriter (emit e b) = b_rxWriter b" "b_rxState (emit e b) = b_rxState b"
  "b_rxPos (emit e b) = b_rxPos b" "b_rxInfo (emit e b) = b_rxInfo b"
  by (simp_all add: emit_def)

lemma refused:
  assumes "recvs b = Some (RRefused info w)" and "e \<noteq> None"
  shows "recvs (recvCompleted info 0 e (closeWriter w b)) = Some RIdle"
  using assms by (cases w) (simp_all add: recvCompleted_def closeWriter_def)

lemma closeWriter_fields [simp]:
  "b_rxOpen (closeWriter w b) = b_rxOpen b" "b_rxWriter (closeWriter w b) = b_rxWriter b"
  "b_rxPos (closeWriter w b) = b_rxPos b" "b_rxInfo (closeWriter w b) = b_rxInfo b"
  "b_rxOpen (recvCompleted i n e b) = b_rxOpen b" "b_rxWriter (recvCompleted i n e b) = b_rxWriter b"
  by (simp_all add: closeWriter_def recvCompleted_def split: option.split)

text \<open>
  An offer comes to one of four ends: its body is not a file description, the
  file is longer than the protocol can carry, the handler does not take it (or
  answers against its contract), or the receive file is open at the resume offset.
\<close>

definition taken :: "FileInfo \<Rightarrow> nat \<Rightarrow> int \<Rightarrow> batch \<Rightarrow> batch" where
  "taken info h off b =
     b\<lparr>b_filesRcvd := b_filesRcvd b + 1, b_rxWriter := Some h, b_rxOpen := True,
       b_rxInfo := info, b_rxPos := off, b_rxRetries := 0, b_rxSyncID := 0,
       b_rxLastSync := 0, b_rxTimer := None, b_rxState := hrxData\<rparr>"

lemma taken_simps [simp]:
  "b_rxWriter (taken info h off b) = Some h" "b_rxOpen (taken info h off b)" "b_rxInfo (taken info h off b) = info"
  "b_rxPos (taken info h off b) = off" "b_rxState (taken info h off b) = hrxData" "s_log (taken info h off b) = s_log b"
  "recvs (taken info h off b) = recvs b"
  by (simp_all add: taken_def recvs_def)

lemma acceptFinfo_rule:
  assumes r: "acceptFinfo E payload b = (ack, b')"
    and garbled: "\<And>e. parseFinfo payload = Inl e \<Longrightarrow> P ackDefer b"
    and large: "\<And>meta info. parseFinfo payload = Inr meta \<Longrightarrow> info = finfo_info meta (b_filesRcvd b) \<Longrightarrow>
      SafeMaxOffset < fi_Size info \<Longrightarrow> P ackDefer (recvCompleted info 0 (Some ErrFileTooLarge) b)"
    and refused: "\<And>meta info w off herr e n. parseFinfo payload = Inr meta \<Longrightarrow> info = finfo_info meta (b_filesRcvd b) \<Longrightarrow>
      fi_Size info \<le> SafeMaxOffset \<Longrightarrow> en_accept E (s_log b) info = (w, off, herr) \<Longrightarrow>
      \<not> (herr = None \<and> w \<noteq> None \<and> resume_ok info off) \<Longrightarrow> n = ackHaveFile \<or> n = ackDefer \<Longrightarrow>
      P n (recvCompleted info 0 (Some e) (closeWriter w (emit (EvAccept info w off herr) b)))"
    and accepted: "\<And>meta info h off. parseFinfo payload = Inr meta \<Longrightarrow> info = finfo_info meta (b_filesRcvd b) \<Longrightarrow>
      fi_Size info \<le> SafeMaxOffset \<Longrightarrow> en_accept E (s_log b) info = (Some h, off, None) \<Longrightarrow> resume_ok info off \<Longrightarrow>
      P (to_int32 off) (taken info h off (emit (EvAccept info (Some h) off None) b))"
  shows "P ack b'"
proof (cases "parseFinfo payload")
  case (Inl e)
  with r garbled show ?thesis by (auto simp: acceptFinfo_def)
next
  case (Inr meta)
  define info where "info = finfo_info meta (b_filesRcvd b)"
  note facts = Inr info_def
  obtain w off herr where ans: "en_accept E (s_log b) info = (w, off, herr)" by (metis prod.collapse)
  have bounds: "(off < 0 \<or> off > SafeMaxOffset \<or> (fm_size meta > 0 \<and> off > fm_size meta)) \<longleftrightarrow> \<not> resume_ok info off"
    by (auto simp: resume_ok_def info_def finfo_info_def)
  have none: "closeWriter None b = b" for b by (simp add: closeWriter_def)
  show ?thesis
  proof (cases "SafeMaxOffset < fi_Size info")
    case True
    with r large [OF facts True] show ?thesis by (simp add: acceptFinfo_def Inr Let_def info_def [symmetric])
  next
    case False
    then have fits: "fi_Size info \<le> SafeMaxOffset" by simp
    note ref = refused [OF facts fits ans] and acc = accepted [OF facts fits]
    have r': "(ack, b') = (case herr of
          Some e \<Rightarrow> (if errors_is e ErrSkip then ackHaveFile else ackDefer,
            recvCompleted info 0 (Some e) (closeWriter w (emit (EvAccept info w off herr) b)))
        | None \<Rightarrow>
            (case w of
               None \<Rightarrow> (ackDefer, recvCompleted info 0 (Some ErrHandlerContract) (closeWriter w (emit (EvAccept info w off herr) b)))
             | Some h \<Rightarrow>
                 if \<not> resume_ok info off
                 then (ackDefer, recvCompleted info 0 (Some ErrResumeOutOfRange) (closeWriter w (emit (EvAccept info w off herr) b)))
                 else (to_int32 off, taken info h off (emit (EvAccept info w off herr) b))))"
      using False unfolding r [symmetric] acceptFinfo_def Inr sum.case Let_def info_def [symmetric] ans prod.case bounds taken_def
      by (simp add: none split: option.split)
    show ?thesis
    proof (cases "herr = None \<and> w \<noteq> None \<and> resume_ok info off")
      case True
      then obtain h where "w = Some h" by auto
      with True acc [of h off] ans r' show ?thesis by simp
    next
      case False
      with r' obtain n e where n: "n = ackHaveFile \<or> n = ackDefer"
        and "(ack, b') = (n, recvCompleted info 0 (Some e) (closeWriter w (emit (EvAccept info w off herr) b)))"
        by (simp split: option.splits if_splits)
      then show ?thesis using ref [OF False n, of e] by (simp only: prod.inject)
    qed
  qed
qed

lemma rx_ok_acceptFinfo:
  assumes b: "rx_ok b" and st: "b_rxState b = hrxFinfo" and r: "acceptFinfo E payload b = (ack, b')"
  shows "rx_ok b'"
proof -
  from rx_closed [OF b] st have c: "\<not> b_rxOpen b" "b_rxWriter b = None" "recvs b = Some RIdle" by auto
  show ?thesis
  proof (rule acceptFinfo_rule [OF r])
    fix info :: FileInfo assume "SafeMaxOffset < fi_Size info"
    then show "rx_ok (recvCompleted info 0 (Some ErrFileTooLarge) b)"
      using c st by (intro rx_ok_idleI) (simp_all add: recvCompleted_def)
  next
    fix info :: FileInfo and w :: "nat option" and off :: int and herr :: "err option" and e :: err
    assume "fi_Size info \<le> SafeMaxOffset" "\<not> (herr = None \<and> w \<noteq> None \<and> resume_ok info off)"
    with c have "recvs (emit (EvAccept info w off herr) b) = Some (RRefused info w)"
      by (auto split: option.split)
    then show "rx_ok (recvCompleted info 0 (Some e) (closeWriter w (emit (EvAccept info w off herr) b)))"
      using c st refused [of "emit (EvAccept info w off herr) b" info w "Some e"] by (intro rx_ok_idleI) simp_all
  next
    fix info :: FileInfo and h off assume "fi_Size info \<le> SafeMaxOffset" "resume_ok info off"
    with c show "rx_ok (taken info h off (emit (EvAccept info (Some h) off None) b))"
      by (simp add: rx_at_def) (simp add: resume_ok_def)
  qed (rule b)
qed

lemma rx_ok_rxState:
  "rx_ok b \<Longrightarrow> b_rxState b \<noteq> hrxData \<Longrightarrow> st \<noteq> hrxData \<Longrightarrow> rx_ok (b\<lparr>b_rxState := st\<rparr>)"
  by (auto simp: rx_at_def recvs_def split: if_splits)

lemma rx_ok_rxFinfo: "rx_ok b \<Longrightarrow> post rx_ok rx_ok (rxFinfo E pkt b)"
proof -
  assume b: "rx_ok b"
  then have "b_rxState b = hrxFinfo \<Longrightarrow> acceptFinfo E (pkt_payload pkt) (feedBraindead E b) = (ack, b') \<Longrightarrow> rx_ok b'" for ack b'
    using rx_ok_acceptFinfo [of "feedBraindead E b" E "pkt_payload pkt" ack b'] by simp
  with b show ?thesis
    by (simp add: rxFinfo_def Let_def rx_ok_rxState split: rxState.split prod.split)
qed

lemma rx_ok_badPosition: "rx_ok b \<Longrightarrow> post rx_ok rx_ok (badPosition E off eof b)"
  by (simp add: badPosition_def Let_def split: option.split)

text \<open>Closing the file from a state in which it is open or its writer failed.\<close>

lemma rxClose_report:
  assumes "b_rxOpen b" and "b_rxWriter b = Some h" and "0 \<le> b_rxPos b"
    and "recvs b = Some (ROpen (b_rxInfo b) h (b_rxPos b) p) \<or> recvs b = Some (RBroken (b_rxInfo b) h (b_rxPos b))"
    and "e = None \<longrightarrow> recvs b = Some (ROpen (b_rxInfo b) h (b_rxPos b) p) \<and> is_eof_at (b_rxPos b) p"
  shows "recvs (rxCloseFile e b) = Some RIdle" "\<not> b_rxOpen (rxCloseFile e b)" "b_rxWriter (rxCloseFile e b) = None"
proof -
  have "recvs (b\<lparr>b_rxOpen := False\<rparr>) = recvs b" by (simp add: recvs_def)
  then have "recvs (closeWriter (Some h) (b\<lparr>b_rxOpen := False\<rparr>)) =
      Some (RClosed (b_rxInfo b) (b_rxPos b) (if recvs b = Some (RBroken (b_rxInfo b) h (b_rxPos b)) then None else p))"
    using assms(4) by (auto simp: closeWriter_def)
  moreover have "recvs (b'\<lparr>b_rxWriter := None\<rparr>) = recvs b'" for b' by (simp add: recvs_def)
  ultimately show "recvs (rxCloseFile e b) = Some RIdle"
    using assms by (auto simp: rxCloseFile_def Let_def recvCompleted_def)
  show "\<not> b_rxOpen (rxCloseFile e b)" "b_rxWriter (rxCloseFile e b) = None"
    using assms by (simp_all add: rxCloseFile_def Let_def)
qed

lemma rx_ok_requestSkip:
  assumes "b_rxOpen b" and "b_rxWriter b = Some h" and "0 \<le> b_rxPos b"
    and "recvs b = Some (ROpen (b_rxInfo b) h (b_rxPos b) p) \<or> recvs b = Some (RBroken (b_rxInfo b) h (b_rxPos b))"
  shows "post rx_ok rx_ok (requestSkip E e b)"
proof -
  have c: "recvs (rxCloseFile (Some e) b) = Some RIdle" "\<not> b_rxOpen (rxCloseFile (Some e) b)"
    "b_rxWriter (rxCloseFile (Some e) b) = None"
    by (rule rxClose_report [OF assms]; simp)+
  have "rx_ok (rxCloseFile (Some e) b\<lparr>b_rxPos := - 2, b_rxRetries := 1, b_rxSyncID := i, b_rxTimer := t, s_clk := k\<rparr>)" for i t k
    using c by (simp add: rx_at_def recvs_def)
  then show ?thesis by (simp add: requestSkip_def Let_def tick_def)
qed

text \<open>
  What \<open>rxData\<close> can leave behind, for any property of the state. \<open>in_place\<close>: the packet carries
  data at the position reached; \<open>wrote\<close> is the state after the write, \<open>passed\<close> the one after the
  position moved on.
\<close>

definition in_place :: "packet \<Rightarrow> byte list \<Rightarrow> batch \<Rightarrow> bool" where
  "in_place pkt data b \<longleftrightarrow> b_rxState b = hrxData \<and> parseData (pkt_payload pkt) = Inr (b_rxPos b, data) \<and> 0 \<le> b_rxPos b"

definition write_result :: "env \<Rightarrow> nat \<Rightarrow> byte list \<Rightarrow> batch \<Rightarrow> err option" where
  "write_result E h data b = en_writeFile E (s_log b) h data"

definition wrote :: "env \<Rightarrow> nat \<Rightarrow> byte list \<Rightarrow> batch \<Rightarrow> batch" where
  "wrote E h data b = emit (EvWrite h data (write_result E h data b)) ((feedBraindead E b)\<lparr>b_rxBlkLen := int (length data)\<rparr>)"

definition passed :: "int \<Rightarrow> batch \<Rightarrow> batch" where
  "passed n b = b\<lparr>b_rxRetries := 0, b_rxTimer := None, b_rxLastSync := b_rxPos b, b_rxPos := b_rxPos b + n\<rparr>"

lemma wrote_simps [simp]:
  "b_rxOpen (wrote E h data b) = b_rxOpen b" "b_rxWriter (wrote E h data b) = b_rxWriter b" "b_rxPos (wrote E h data b) = b_rxPos b"
  "b_rxInfo (wrote E h data b) = b_rxInfo b" "b_rxState (wrote E h data b) = b_rxState b"
  "b_lastRefusedFinfo (wrote E h data b) = b_lastRefusedFinfo b" "s_log (wrote E h data b) = s_log b @ [EvWrite h data (write_result E h data b)]"
  by (simp_all add: wrote_def emit_def feedBraindead_def tick_def)

lemma passed_simps [simp]:
  "b_rxOpen (passed n b) = b_rxOpen b" "b_rxWriter (passed n b) = b_rxWriter b" "b_rxPos (passed n b) = b_rxPos b + n"
  "b_rxInfo (passed n b) = b_rxInfo b" "b_rxState (passed n b) = b_rxState b"
  "b_lastRefusedFinfo (passed n b) = b_lastRefusedFinfo b" "s_log (passed n b) = s_log b" "recvs (passed n b) = recvs b"
  by (simp_all add: passed_def recvs_def)

lemma rxData_rule:
  assumes I: "I b" and bad: "\<And>off. post I F (badPosition E off False b)"
    and writer: "\<And>data. in_place pkt data b \<Longrightarrow> b_rxWriter b = Some h"
    and broken: "\<And>data e. in_place pkt data b \<Longrightarrow> write_result E h data b = Some e \<Longrightarrow> post I F (requestSkip E e (wrote E h data b))"
    and large: "\<And>data. in_place pkt data b \<Longrightarrow> write_result E h data b = None \<Longrightarrow>
      post I F (requestSkip E ErrFileTooLarge (passed (int (length data)) (wrote E h data b)))"
    and goes_on: "\<And>data. in_place pkt data b \<Longrightarrow> write_result E h data b = None \<Longrightarrow> b_rxPos b + int (length data) \<le> SafeMaxOffset \<Longrightarrow>
      I (emit (EvRecvProgress (b_rxInfo b) (b_rxPos b + int (length data))) (passed (int (length data)) (wrote E h data b)))"
    and told: "\<And>b p. I b \<Longrightarrow> post I F (batch_write E pktDATAACK p b)"
  shows "post I F (rxData E pkt b)"
proof (cases "\<exists>data. in_place pkt data b")
  case False
  with I bad show ?thesis by (auto simp: rxData_def in_place_def split: sum.split prod.split)
next
  case True
  then obtain data where at: "in_place pkt data b" by blast
  then have g: "(b_rxState b \<noteq> hrxData) = False" "(b_rxPos b \<noteq> b_rxPos b \<or> b_rxPos b < 0) = False"
    and data: "parseData (pkt_payload pkt) = Inr (b_rxPos b, data)" by (auto simp: in_place_def)
  have w: "rxWrite E data ((feedBraindead E b)\<lparr>b_rxBlkLen := int (length data)\<rparr>) = (wrote E h data b, write_result E h data b)"
    using writer [OF at] by (simp add: rxWrite_def wrote_def write_result_def feedBraindead_def tick_def Let_def)
  show ?thesis
    unfolding rxData_def g if_False data sum.case prod.case w
    using broken [OF at] large [OF at] goes_on [OF at] told [OF goes_on [OF at]]
    by (auto simp: Let_def passed_def [symmetric] passed_def split: option.split)
qed

lemma rx_ok_rxData:
  assumes b: "rx_at (\<lambda>p. p = Some pkt) b" and t: "pkt_typ pkt = pktDATA"
  shows "post rx_ok rx_ok (rxData E pkt b)"
proof -
  from b have b0: "rx_ok b" by (rule rx_at_weaken)
  have o: "b_rxOpen b" "b_rxWriter b = Some (the (b_rxWriter b))"
    "recvs b = Some (ROpen (b_rxInfo b) (the (b_rxWriter b)) (b_rxPos b) (Some pkt))" if "in_place pkt data b" for data
    using b that by (auto simp: rx_at_def in_place_def split: if_splits)
  let ?h = "the (b_rxWriter b)"
  have wrote: "recvs (wrote E ?h data b) = Some (if write_result E ?h data b = None
      then ROpen (b_rxInfo b) ?h (b_rxPos b + int (length data)) (Some pkt) else RBroken (b_rxInfo b) ?h (b_rxPos b))"
    if "in_place pkt data b" for data
  proof -
    have "is_data_at (b_rxPos b) data (Some pkt)" using that t by (simp add: in_place_def is_data_at_def)
    moreover have "recvs (b'\<lparr>b_rxBlkLen := k\<rparr>) = recvs b'" "recvs (feedBraindead E b) = recvs b" for b' k
      by (simp_all add: recvs_def feedBraindead_def tick_def)
    ultimately show ?thesis using o [OF that] by (simp add: wrote_def)
  qed
  show ?thesis
  proof (rule rxData_rule [where h = ?h, OF b0 rx_ok_badPosition [OF b0] o(2)])
    fix data assume at: "in_place pkt data b"
    show "post rx_ok rx_ok (requestSkip E e (wrote E ?h data b))" if "write_result E ?h data b = Some e" for e
      using o [OF at] wrote [OF at] at that by (intro rx_ok_requestSkip [of _ ?h]) (simp_all add: in_place_def)
    assume r: "write_result E ?h data b = None"
    show "post rx_ok rx_ok (requestSkip E ErrFileTooLarge (passed (int (length data)) (wrote E ?h data b)))"
      using o [OF at] wrote [OF at] at r by (intro rx_ok_requestSkip [of _ ?h]) (simp_all add: in_place_def)
    show "rx_ok (emit (EvRecvProgress (b_rxInfo b) (b_rxPos b + int (length data))) (passed (int (length data)) (wrote E ?h data b)))"
      if "b_rxPos b + int (length data) \<le> SafeMaxOffset"
      using o [OF at] wrote [OF at] at r that by (simp add: rx_at_def in_place_def)
  qed simp_all
qed

lemma rx_ok_rxEOF:
  assumes b: "rx_at (\<lambda>p. p = Some pkt) b" and t: "pkt_typ pkt = pktEOF"
  shows "post rx_ok rx_ok (rxEOF E pkt b)"
proof -
  from b have b0: "rx_ok b" by (rule rx_at_weaken)
  have closed: "rx_ok (feedBraindead E (b'\<lparr>b_rxPos := n, b_rxState := hrxFinfo\<rparr>))"
    "rx_ok (feedBraindead E (b'\<lparr>b_rxState := hrxFinfo\<rparr>))"
    if "recvs b' = Some RIdle" "\<not> b_rxOpen b'" "b_rxWriter b' = None" for b' n
  proof -
    have "rx_ok (b'\<lparr>b_rxPos := n, b_rxState := hrxFinfo\<rparr>)" "rx_ok (b'\<lparr>b_rxState := hrxFinfo\<rparr>)"
      using that by (simp_all add: rx_at_def recvs_def)
    then show "rx_ok (feedBraindead E (b'\<lparr>b_rxPos := n, b_rxState := hrxFinfo\<rparr>))"
      "rx_ok (feedBraindead E (b'\<lparr>b_rxState := hrxFinfo\<rparr>))" by simp_all
  qed
  show ?thesis
  proof (cases "b_rxState b")
    case hrxData
    show ?thesis
    proof (cases "parseOffset (pkt_payload pkt)")
      case (Inl e)
      with b0 hrxData show ?thesis by (simp add: rxEOF_def)
    next
      case (Inr offset)
      have skip: "recvs (rxCloseFile (Some e) b) = Some RIdle \<and> \<not> b_rxOpen (rxCloseFile (Some e) b)
          \<and> b_rxWriter (rxCloseFile (Some e) b) = None" for e
      proof (cases "b_rxOpen b")
        case True
        with b0 obtain h p where "b_rxWriter b = Some h" "0 \<le> b_rxPos b"
          "recvs b = Some (ROpen (b_rxInfo b) h (b_rxPos b) p)"
          by (auto simp: rx_at_def)
        with True rxClose_report [of b h p "Some e"] show ?thesis by simp
      next
        case False
        with b0 show ?thesis by (simp add: rxCloseFile_def rx_at_def)
      qed
      have good: "recvs (rxCloseFile None b) = Some RIdle \<and> \<not> b_rxOpen (rxCloseFile None b)
          \<and> b_rxWriter (rxCloseFile None b) = None" if "0 \<le> offset" "offset = b_rxPos b"
      proof -
        from b that hrxData obtain h where h: "b_rxOpen b" "b_rxWriter b = Some h"
          "recvs b = Some (ROpen (b_rxInfo b) h (b_rxPos b) (Some pkt))"
          by (auto simp: rx_at_def split: if_splits)
        have "is_eof_at (b_rxPos b) (Some pkt)" using Inr t that by (simp add: is_eof_at_def)
        with h that rxClose_report [of b h "Some pkt" None] show ?thesis by simp
      qed
      show ?thesis
        using hrxData Inr closed(1) [of "rxCloseFile (Some ErrSenderSkip) b"] closed(2) [of "rxCloseFile None b"]
          skip good rx_ok_badPosition [OF b0]
        by (auto simp: rxEOF_def)
    qed
  qed (use b0 in \<open>simp_all add: rxEOF_def\<close>)
qed

subsection \<open>All steps\<close>

lemma rx_ok_packet: "rx_ok b \<Longrightarrow> post rx_ok rx_ok (handlePacket E pkt b)"
proof -
  assume b: "rx_ok b"
  have at: "rx_at (\<lambda>p. p = Some pkt) (emit (EvRecv pkt) b)" by (rule rx_at_recv [OF b])
  then have b1: "rx_ok (emit (EvRecv pkt) b)" by (rule rx_at_weaken)
  show ?thesis
    using rx_ok_rxInit [OF b1] rx_ok_rxFinfo [OF b1] rx_ok_txFinfoAck [OF b1] rx_ok_rxData [OF at] rx_ok_txDataAck [OF b1]
      rx_ok_txRpos [OF b1] rx_ok_rxEOF [OF at] rx_ok_txEOFAck [OF b1] rx_ok_txIdle [OF b1] rx_ok_txEnd [OF b1]
      rx_ok_devices(2) [OF b1] rx_ok_tx_blocks(5) [OF b1] b1
    by (simp add: handlePacket_def Let_def)
qed

interpretation rx: batch_invariant E rx_ok rx_ok for E
proof unfold_locales
  fix b assume "rx_ok b"
  then have "rx_ok (b\<lparr>b_txTimer := None\<rparr>)" "rx_ok (b\<lparr>b_devTimer := None\<rparr>)" by simp_all
  then show "post rx_ok rx_ok (txTimeout E (b\<lparr>b_txTimer := None\<rparr>))"
    "post rx_ok rx_ok (devTimeout (b\<lparr>b_devTimer := None\<rparr>))"
    by (simp_all add: rx_ok_txTimeout rx_ok_devices(1))
next
  fix b req dq assume "rx_ok b"
  then have "rx_ok (b\<lparr>s_devQ := dq\<rparr>)" by simp
  then show "rx_ok (queueDev req (b\<lparr>s_devQ := dq\<rparr>))" by (rule rx_ok_tx_blocks)
qed (simp_all add: rx_ok_absorb rx_ok_sync rx_ok_packet rx_ok_devAction rx_ok_txAction)

subsection \<open>Start and end of a batch\<close>

lemma rx_ok_new: "recv_trace (s_log s) = Some RIdle \<Longrightarrow> rx_ok (newBatch s)"
  by (simp add: newBatch_def session.defs rx_at_def recvs_def Let_def)

lemma rx_ok_reachable: "recv_trace (s_log s) = Some RIdle \<Longrightarrow> reachable E s b \<Longrightarrow> rx_ok b"
  unfolding reachable_def batch_start_def using rx.breach_keeps rx_ok_new by (metis rx_ok_feed)

lemma teardown_recvs: "rx_ok b \<Longrightarrow> recvs (teardown e b) = Some RIdle"
proof -
  assume b: "rx_ok b"
  define b1 where "b1 = rxCloseFile (Some (case e of None \<Rightarrow> ErrSessionAborted | Some e \<Rightarrow> e)) b"
  have c: "recvs b1 = Some RIdle"
  proof (cases "b_rxOpen b")
    case True
    with b obtain h p where "b_rxWriter b = Some h" "0 \<le> b_rxPos b"
      "recvs b = Some (ROpen (b_rxInfo b) h (b_rxPos b) p)"
      by (auto simp: rx_at_def)
    with True rxClose_report [of b h p] show ?thesis by (simp add: b1_def)
  next
    case False
    with b show ?thesis by (simp add: b1_def rxCloseFile_def rx_at_def)
  qed
  have "recvs (b'\<lparr>b_txOffer := x\<rparr>) = recvs b'" for b' x by (simp add: recvs_def)
  with c show ?thesis
    by (simp add: teardown_def Let_def b1_def [symmetric] sendCompleted_def closeTxOffer_def closeOffer_def
        split: option.split)
qed

lemma batch_run_recvs:
  assumes "recv_trace (s_log s) = Some RIdle" and "batch_run E (newBatch s) = Some r"
  shows "recvs (fst r) = Some RIdle"
proof -
  from assms(2) obtain r1 where r1: "run_loop E (feedBraindead E (newBatch s)) = Some r1"
    "r = (teardown (snd r1) (fst r1), snd r1)"
    by (auto simp: batch_run_def)
  have "post rx_ok rx_ok r1"
    by (rule rx.run_loop_keeps [OF r1(1)]) (simp add: rx_ok_new assms(1))
  then have "rx_ok (fst r1)" by (auto simp: post_def split: option.splits)
  then show ?thesis using r1(2) teardown_recvs by simp
qed

subsection \<open>Reading the contract off a log\<close>

definition is_accept :: "event \<Rightarrow> bool" where
  "is_accept e \<longleftrightarrow> (case e of EvAccept i w off herr \<Rightarrow> True | _ \<Rightarrow> False)"

definition is_report :: "event \<Rightarrow> bool" where
  \<comment> \<open>a report of a file the application was asked about\<close>
  "is_report e \<longleftrightarrow> (case e of EvRecvCompleted i n r \<Rightarrow> fi_Size i \<le> SafeMaxOffset | _ \<Rightarrow> False)"

definition is_given :: "event \<Rightarrow> bool" where
  \<comment> \<open>\<open>AcceptFile\<close> returned a writer\<close>
  "is_given e \<longleftrightarrow> (case e of EvAccept i w off herr \<Rightarrow> w \<noteq> None | _ \<Rightarrow> False)"

definition is_closed :: "event \<Rightarrow> bool" where
  "is_closed e \<longleftrightarrow> (case e of EvWriterClose h \<Rightarrow> True | _ \<Rightarrow> False)"

definition holds_writer :: "recv_phase \<Rightarrow> bool" where
  "holds_writer ph \<longleftrightarrow> (case ph of RIdle \<Rightarrow> False | RRefused i w \<Rightarrow> w \<noteq> None | ROpen i h n p \<Rightarrow> True
     | RBroken i h n \<Rightarrow> True | RClosed i n p \<Rightarrow> False)"

lemma recv_step_closes:
  assumes "recv_step ph e = Some ph'"
  shows "of_bool (is_given e) + of_bool (holds_writer ph) = of_bool (is_closed e) + (of_bool (holds_writer ph') :: nat)"
  using assms
  by (cases ph; cases e)
    (auto simp: is_given_def is_closed_def holds_writer_def split: if_splits option.splits)

lemma recv_trace_closes:
  "recv_trace es = Some ph \<Longrightarrow>
    length (filter is_given es) = length (filter is_closed es) + of_bool (holds_writer ph)"
proof (induction es arbitrary: ph rule: rev_induct)
  case Nil
  then show ?case by (simp add: recv_trace_def holds_writer_def)
next
  case (snoc e es)
  then obtain ph0 where "recv_trace es = Some ph0" "recv_step ph0 e = Some ph"
    by (auto simp: recv_trace_snoc bind_eq_Some_conv)
  note step = recv_step_closes [OF this(2)] and IH = snoc.IH [OF this(1)]
  have cnt: "length (filter P (es @ [e])) = length (filter P es) + of_bool (P e)" for P by simp
  show ?case unfolding cnt using step IH by linarith
qed

text \<open>Every file the application was asked about is reported once.\<close>

definition phase_info :: "recv_phase \<Rightarrow> FileInfo option" where
  "phase_info ph = (case ph of RIdle \<Rightarrow> None | RRefused i w \<Rightarrow> Some i | ROpen i h n p \<Rightarrow> Some i
     | RBroken i h n \<Rightarrow> Some i | RClosed i n p \<Rightarrow> Some i)"

definition small_info :: "recv_phase \<Rightarrow> bool" where
  "small_info ph \<longleftrightarrow> (case phase_info ph of None \<Rightarrow> True | Some i \<Rightarrow> fi_Size i \<le> SafeMaxOffset)"

lemma recv_step_reports:
  assumes "recv_step ph e = Some ph'" and "small_info ph"
  shows "small_info ph' \<and> of_bool (is_accept e) + of_bool (phase_info ph \<noteq> None)
      = of_bool (is_report e) + (of_bool (phase_info ph' \<noteq> None) :: nat)"
  using assms
  by (cases ph; cases e)
    (auto simp: is_accept_def is_report_def phase_info_def small_info_def split: if_splits option.splits)

lemma recv_trace_reports:
  "recv_trace es = Some ph \<Longrightarrow>
    small_info ph \<and> length (filter is_accept es) = length (filter is_report es) + of_bool (phase_info ph \<noteq> None)"
proof (induction es arbitrary: ph rule: rev_induct)
  case Nil
  then show ?case by (auto simp: recv_trace_def phase_info_def small_info_def)
next
  case (snoc e es)
  then obtain ph0 where "recv_trace es = Some ph0" "recv_step ph0 e = Some ph"
    by (auto simp: recv_trace_snoc bind_eq_Some_conv)
  note IH = snoc.IH [OF this(1)] and step = recv_step_reports [OF this(2)]
  have cnt: "length (filter P (es @ [e])) = length (filter P es) + of_bool (P e)" for P by simp
  from step IH have "small_info ph" by blast
  moreover have "length (filter is_accept es) + of_bool (is_accept e)
      = length (filter is_report es) + of_bool (is_report e) + (of_bool (phase_info ph \<noteq> None) :: nat)"
    using step [THEN conjunct2] IH by linarith
  ultimately show ?case unfolding cnt by simp
qed

lemma recv_trace_split:
  assumes "recv_trace (es @ e # fs) \<noteq> None"
  obtains ph where "recv_trace es = Some ph" "recv_step ph e \<noteq> None"
proof -
  have none: "foldl (\<lambda>p e. Option.bind p (\<lambda>ph. recv_step ph e)) None xs = None" for xs
    by (induction xs) simp_all
  have "recv_trace (es @ [e]) \<noteq> None"
    using assms none [of fs] by (cases "Option.bind (recv_trace es) (\<lambda>ph. recv_step ph e)") (simp_all add: recv_trace_def)
  with that show ?thesis by (auto simp: recv_trace_snoc split: bind_splits)
qed

subsection \<open>The properties\<close>

text \<open>
  Property C7. Exactly-once completion on the receive side: however a batch ends, every file
  \<open>AcceptFile\<close> was asked about is reported by \<open>FileCompleted\<close> exactly once, and every writer it
  returned (also with an error, also with a bad offset) is closed exactly once, before the
  report.
\<close>

theorem recv_files_completed_once:
  assumes "recv_trace (s_log s) = Some RIdle" and "batch_run E (newBatch s) = Some (b, err)"
  shows "recv_trace (s_log b) = Some RIdle
    \<and> length (filter is_accept (s_log b)) = length (filter is_report (s_log b))
    \<and> length (filter is_given (s_log b)) = length (filter is_closed (s_log b))"
  using batch_run_recvs [OF assms] recv_trace_reports [of "s_log b" RIdle] recv_trace_closes [of "s_log b" RIdle]
  by (simp add: recvs_def phase_info_def holds_writer_def)

text \<open>
  Property C3. Received data is written in place: whatever the peer sends, in whatever order,
  a write to a receive file puts exactly the payload of the DATA packet just received at
  exactly the offset the packet names, which is the resume offset plus all bytes written
  before; out-of-order and duplicate packets never reach the writer.
\<close>

theorem writes_in_place:
  assumes "recv_trace (s_log s) = Some RIdle" and "reachable E s b"
    and "s_log b = es @ EvWrite h data r # fs"
  shows "\<exists>info pos p. recv_trace es = Some (ROpen info h pos (Some p))
    \<and> pkt_typ p = pktDATA \<and> parseData (pkt_payload p) = Inr (pos, data)"
proof -
  have "recv_trace (s_log b) \<noteq> None"
    using rx_ok_reachable [OF assms(1,2)] by (auto simp: rx_at_def recvs_def split: if_splits)
  then obtain ph where ph: "recv_trace es = Some ph" "recv_step ph (EvWrite h data r) \<noteq> None"
    unfolding assms(3) by (rule recv_trace_split)
  then show ?thesis
    by (cases ph) (auto simp: is_data_at_def split: if_splits option.splits)
qed

text \<open>
  Property C4. Success is honest: \<open>FileCompleted\<close> reports a received file with a nil error
  only right after its writer was closed, when the last packet was the peer's EOF for
  exactly the position reached, and with that position as the byte count.
\<close>

theorem success_needs_matching_eof:
  assumes "recv_trace (s_log s) = Some RIdle" and "reachable E s b"
    and "s_log b = es @ EvRecvCompleted info n None # fs"
  shows "\<exists>p. recv_trace es = Some (RClosed info n (Some p))
    \<and> pkt_typ p = pktEOF \<and> parseOffset (pkt_payload p) = Inr n"
proof -
  have "recv_trace (s_log b) \<noteq> None"
    using rx_ok_reachable [OF assms(1,2)] by (auto simp: rx_at_def recvs_def split: if_splits)
  then obtain ph where ph: "recv_trace es = Some ph" "recv_step ph (EvRecvCompleted info n None) \<noteq> None"
    unfolding assms(3) by (rule recv_trace_split)
  then show ?thesis
    by (cases ph) (auto simp: is_eof_at_def split: if_splits option.splits)
qed
end
