(* ===== verification/Hydra_Progress.thy ===== *)
theory Hydra_Progress
  imports Hydra_Gate
begin

section \<open>Which packets feed the watchdog, and why a batch ends\<close>

text \<open>
  Two questions about time. Which packets extend the brain-dead deadline (session.go calls it
  narrow on purpose: acknowledgements and repositioning requests do not prove that data
  flows)? And does \<open>Run\<close> return when the peer falls silent, whatever the transport, the
  handlers and the transmit machine do? Both rest on one relation between the state before
  and after a piece of code: the inbox is untouched, the clock index does not go back, and the
  deadline is the same.
\<close>

subsection \<open>What a piece of code keeps\<close>

definition kept :: "bool \<Rightarrow> batch \<Rightarrow> batch \<Rightarrow> bool" where
  \<comment> \<open>the flag says whether the deadline is included\<close>
  "kept w b0 b \<longleftrightarrow> s_inbox b = s_inbox b0 \<and> s_clk b0 \<le> s_clk b \<and> (w \<longrightarrow> b_braindead b = b_braindead b0)"

lemma kept_refl [simp]: "kept w b b"
  by (simp add: kept_def)

lemma kept_False: "kept w b0 b \<Longrightarrow> kept False b0 b"
  by (simp add: kept_def)

text \<open>The fields the relation does not mention.\<close>

lemma kept_frame [simp]:
  "kept w b0 (b\<lparr>s_config := x0\<rparr>) = kept w b0 b" "kept w b0 (b\<lparr>s_rxOpts := x1\<rparr>) = kept w b0 b"
  "kept w b0 (b\<lparr>s_effOpts := x2\<rparr>) = kept w b0 b" "kept w b0 (b\<lparr>s_negotiated := x3\<rparr>) = kept w b0 b"
  "kept w b0 (b\<lparr>s_readErr := x4\<rparr>) = kept w b0 b" "kept w b0 (b\<lparr>s_readerDone := x5\<rparr>) = kept w b0 b"
  "kept w b0 (b\<lparr>s_devQ := x6\<rparr>) = kept w b0 b" "kept w b0 (b\<lparr>s_aborted := x7\<rparr>) = kept w b0 b"
  "kept w b0 (b\<lparr>s_err := x8\<rparr>) = kept w b0 b" "kept w b0 (b\<lparr>s_started := x9\<rparr>) = kept w b0 b"
  "kept w b0 (b\<lparr>s_runActive := x10\<rparr>) = kept w b0 b" "kept w b0 (b\<lparr>s_closerSet := x11\<rparr>) = kept w b0 b"
  "kept w b0 (b\<lparr>s_closed := x12\<rparr>) = kept w b0 b" "kept w b0 (b\<lparr>s_ctx := x13\<rparr>) = kept w b0 b"
  "kept w b0 (b\<lparr>s_log := x14\<rparr>) = kept w b0 b" "kept w b0 (b\<lparr>b_opts := x15\<rparr>) = kept w b0 b"
  "kept w b0 (b\<lparr>b_txWindow := x16\<rparr>) = kept w b0 b" "kept w b0 (b\<lparr>b_rxWindow := x17\<rparr>) = kept w b0 b"
  "kept w b0 (b\<lparr>b_prefix := x18\<rparr>) = kept w b0 b" "kept w b0 (b\<lparr>b_productive := x19\<rparr>) = kept w b0 b"
  "kept w b0 (b\<lparr>b_txTimer := x20\<rparr>) = kept w b0 b" "kept w b0 (b\<lparr>b_devTimer := x21\<rparr>) = kept w b0 b"
  "kept w b0 (b\<lparr>b_txState := x22\<rparr>) = kept w b0 b" "kept w b0 (b\<lparr>b_txRetries := x23\<rparr>) = kept w b0 b"
  "kept w b0 (b\<lparr>b_txSyncID := x24\<rparr>) = kept w b0 b" "kept w b0 (b\<lparr>b_blk := x25\<rparr>) = kept w b0 b"
  "kept w b0 (b\<lparr>b_txLastAck := x26\<rparr>) = kept w b0 b" "kept w b0 (b\<lparr>b_peerAcked := x27\<rparr>) = kept w b0 b"
  "kept w b0 (b\<lparr>b_hdxlink := x28\<rparr>) = kept w b0 b" "kept w b0 (b\<lparr>b_txOffer := x29\<rparr>) = kept w b0 b"
  "kept w b0 (b\<lparr>b_txReader := x30\<rparr>) = kept w b0 b" "kept w b0 (b\<lparr>b_txSeeker := x31\<rparr>) = kept w b0 b"
  "kept w b0 (b\<lparr>b_txInfo := x32\<rparr>) = kept w b0 b" "kept w b0 (b\<lparr>b_txPos := x33\<rparr>) = kept w b0 b"
  "kept w b0 (b\<lparr>b_txSkip := x34\<rparr>) = kept w b0 b" "kept w b0 (b\<lparr>b_txErr := x35\<rparr>) = kept w b0 b"
  "kept w b0 (b\<lparr>b_txEOB := x36\<rparr>) = kept w b0 b" "kept w b0 (b\<lparr>b_lastFinfo := x37\<rparr>) = kept w b0 b"
  "kept w b0 (b\<lparr>b_filesSent := x38\<rparr>) = kept w b0 b" "kept w b0 (b\<lparr>b_batchEnded := x39\<rparr>) = kept w b0 b"
  "kept w b0 (b\<lparr>b_finfoAckWait := x40\<rparr>) = kept w b0 b" "kept w b0 (b\<lparr>b_eofAckWait := x41\<rparr>) = kept w b0 b"
  "kept w b0 (b\<lparr>b_rxState := x42\<rparr>) = kept w b0 b" "kept w b0 (b\<lparr>b_filesRcvd := x43\<rparr>) = kept w b0 b"
  "kept w b0 (b\<lparr>b_lastRefusedFinfo := x44\<rparr>) = kept w b0 b" "kept w b0 (b\<lparr>b_lastRefusedAck := x45\<rparr>) = kept w b0 b"
  "kept w b0 (b\<lparr>b_rxWriter := x46\<rparr>) = kept w b0 b" "kept w b0 (b\<lparr>b_rxOpen := x47\<rparr>) = kept w b0 b"
  "kept w b0 (b\<lparr>b_rxInfo := x48\<rparr>) = kept w b0 b" "kept w b0 (b\<lparr>b_rxPos := x49\<rparr>) = kept w b0 b"
  "kept w b0 (b\<lparr>b_rxRetries := x50\<rparr>) = kept w b0 b" "kept w b0 (b\<lparr>b_rxSyncID := x51\<rparr>) = kept w b0 b"
  "kept w b0 (b\<lparr>b_rxLastSync := x52\<rparr>) = kept w b0 b" "kept w b0 (b\<lparr>b_rxTimer := x53\<rparr>) = kept w b0 b"
  "kept w b0 (b\<lparr>b_rxBlkLen := x54\<rparr>) = kept w b0 b" "kept w b0 (b\<lparr>b_devState := x55\<rparr>) = kept w b0 b"
  "kept w b0 (b\<lparr>b_devRetries := x56\<rparr>) = kept w b0 b" "kept w b0 (b\<lparr>b_devTxID := x57\<rparr>) = kept w b0 b"
  "kept w b0 (b\<lparr>b_devRxID := x58\<rparr>) = kept w b0 b" "kept w b0 (b\<lparr>b_devPending := x59\<rparr>) = kept w b0 b"
  "kept w b0 (b\<lparr>b_devQueue := x60\<rparr>) = kept w b0 b"
  by (simp_all add: kept_def)

lemma kept_emit [simp]: "kept w b0 (emit e b) = kept w b0 b"
  by (simp add: emit_def)

lemma kept_tick [simp]: "kept w b0 b \<Longrightarrow> kept w b0 (tick b)"
  by (simp add: tick_def kept_def)

lemma kept_feed [simp]: "kept False b0 b \<Longrightarrow> kept False b0 (feedBraindead E b)"
  by (simp add: feedBraindead_def tick_def kept_def)

lemma kept_timers [simp]:
  "kept w b0 b \<Longrightarrow> kept w b0 (set_txTimer E d b)" "kept w b0 b \<Longrightarrow> kept w b0 (armTx E b)"
  by (simp_all add: set_txTimer_def armTx_def Let_def)

abbreviation keeps :: "bool \<Rightarrow> batch \<Rightarrow> outcome \<Rightarrow> bool" where
  "keeps w b0 \<equiv> post (kept w b0) (\<lambda>_. True)"

lemma keeps_writer [simp]: "kept w b0 b \<Longrightarrow> keeps w b0 (writer_write E s b)"
  by (simp add: post_writer_write split: option.split)

lemma keeps_write [simp]: "kept w b0 b \<Longrightarrow> keeps w b0 (batch_write E t p b)"
  by (simp add: batch_write_def)

lemma keeps_then_fine:
  "keeps w b0 r \<Longrightarrow> (\<And>b. kept w b0 b \<Longrightarrow> kept w b0 (f b)) \<Longrightarrow> keeps w b0 (andThen r (\<lambda>b. fine (f b)))"
  by (rule post_andThen [where J = "kept w b0"]) simp_all

lemma keeps_times: "kept w b0 b \<Longrightarrow> keeps w b0 (write_times n E t b)"
proof (induction n arbitrary: b)
  case (Suc n)
  show ?case unfolding write_times.simps
    by (rule post_andThen [OF keeps_write [OF Suc.prems]]) (rule Suc.IH)
qed simp

lemma kept_rx_blocks [simp]:
  "kept w b0 (closeWriter x b) = kept w b0 b" "kept w b0 (recvCompleted i n e b) = kept w b0 b"
  "kept w b0 (rxCloseFile e b) = kept w b0 b"
  by (simp_all add: closeWriter_def recvCompleted_def rxCloseFile_def Let_def split: option.split)

lemma kept_tx_blocks [simp]:
  "kept w b0 (closeOffer ofr b) = kept w b0 b" "kept w b0 (closeTxOffer b) = kept w b0 b"
  "kept w b0 (sendCompleted n e b) = kept w b0 b" "kept w b0 (skipToEOF e b) = kept w b0 b"
  "kept w b0 (finishTxFile b) = kept w b0 b" "kept w b0 (rejectOffer ofr x b) = kept w b0 b"
  "kept w b0 (prepareFinfo b) = kept w b0 b" "kept w b0 (queueDev req b) = kept w b0 b"
  by (simp_all add: closeOffer_def closeTxOffer_def sendCompleted_def skipToEOF_def finishTxFile_def
      rejectOffer_def prepareFinfo_def queueDev_def Let_def split: option.split)

subsection \<open>Packets that do not feed the watchdog\<close>

lemma keeps_requestSkip: "kept w b0 b \<Longrightarrow> keeps w b0 (requestSkip E e b)"
  by (simp add: requestSkip_def Let_def)

lemma keeps_badPosition: "kept w b0 b \<Longrightarrow> keeps w b0 (badPosition E off eof b)"
  by (simp add: badPosition_def Let_def)

lemma keeps_rxInit: "kept w b0 b \<Longrightarrow> keeps w b0 (rxInit E pkt b)"
proof -
  assume b: "kept w b0 b"
  have neg: "keeps w b0 (negotiate p b)" for p
    using b by (simp add: negotiate_def Let_def)
  have "keeps w b0 (if b_rxState b = hrxInit then
          (case parseInit (pkt_payload pkt) of
             Inl _ \<Rightarrow> fine b
           | Inr p \<Rightarrow> andThen (negotiate p b) (\<lambda>b. fine (b\<lparr>b_rxState := hrxFinfo\<rparr>)))
        else fine b)"
    using b keeps_then_fine [OF neg] by (simp split: sum.split)
  then show ?thesis unfolding rxInit_def by (rule post_andThen) (rule keeps_write)
qed

lemma kept_txDataAck: "kept w b0 b \<Longrightarrow> kept w b0 (txDataAck pkt b)"
  by (simp add: txDataAck_def Let_def split: sum.split)

lemma keeps_txRpos: "kept w b0 b \<Longrightarrow> keeps w b0 (txRpos E pkt b)"
  by (simp add: txRpos_def Let_def split: sum.split option.split)

lemma keeps_txEnd: "kept w b0 b \<Longrightarrow> keeps w b0 (txEnd E b)"
  by (simp add: txEnd_def keeps_then_fine keeps_times)

lemma keeps_devRx: "kept w b0 b \<Longrightarrow> keeps w b0 (devRx E pkt b)"
  by (simp add: devRx_def Let_def split: sum.split)

lemma kept_devDack: "kept w b0 b \<Longrightarrow> kept w b0 (devDack pkt b)"
  by (simp add: devDack_def split: sum.split option.split)

subsection \<open>Packets that may feed it\<close>

lemma kept_acceptFinfo: "kept w b0 b \<Longrightarrow> acceptFinfo E payload b = (ack, b') \<Longrightarrow> kept w b0 b'"
  by (auto simp: acceptFinfo_def Let_def split: sum.splits prod.splits option.splits if_splits)

lemma keeps_rxFinfo: "kept False b0 b \<Longrightarrow> keeps False b0 (rxFinfo E pkt b)"
proof -
  assume b: "kept False b0 b"
  have "kept False b0 b'" if "acceptFinfo E p (feedBraindead E b) = (ack, b')" for p ack b'
    using kept_acceptFinfo [OF _ that] b by simp
  with b show ?thesis by (auto simp: rxFinfo_def Let_def split: rxState.split prod.split)
qed

lemma keeps_rxData: "kept False b0 b \<Longrightarrow> keeps False b0 (rxData E pkt b)"
proof -
  assume b: "kept False b0 b"
  have "kept False b0 b'" if "rxWrite E data ((feedBraindead E b)\<lparr>b_rxBlkLen := n\<rparr>) = (b', r)" for data n b' r
    using that b by (auto simp: rxWrite_def Let_def split: option.splits)
  with b show ?thesis
    by (auto simp: rxData_def Let_def keeps_badPosition keeps_requestSkip
        split: sum.split prod.split option.split)
qed

lemma keeps_rxEOF: "kept False b0 b \<Longrightarrow> keeps False b0 (rxEOF E pkt b)"
  by (simp add: rxEOF_def keeps_badPosition split: rxState.split sum.split)

lemma keeps_txFinfoAck: "kept False b0 b \<Longrightarrow> keeps False b0 (txFinfoAck E pkt b)"
  by (auto simp: txFinfoAck_def Let_def split: sum.split option.split)

lemma kept_txEOFAck: "kept False b0 b \<Longrightarrow> kept False b0 (txEOFAck E b)"
  by (simp add: txEOFAck_def Let_def split: option.split)

lemma kept_txIdle: "kept False b0 b \<Longrightarrow> kept False b0 (txIdle E b)"
  by (simp add: txIdle_def)

lemma keeps_packet: "kept False b0 b \<Longrightarrow> keeps False b0 (handlePacket E pkt b)"
  by (simp add: handlePacket_def Let_def keeps_rxInit keeps_rxFinfo keeps_txFinfoAck keeps_rxData
      kept_txDataAck keeps_txRpos keeps_rxEOF kept_txEOFAck kept_txIdle keeps_txEnd
      keeps_devRx kept_devDack)

subsection \<open>Actions and timers\<close>

lemma kept_sync: "kept w b0 b \<Longrightarrow> kept w b0 (batch_sync E b)"
  by (simp add: batch_sync_def)

lemma keeps_txTimeout: "kept w b0 b \<Longrightarrow> keeps w b0 (txTimeout E b)"
  by (simp add: txTimeout_def Let_def keeps_then_fine)

lemma keeps_devTimeout: "kept w b0 b \<Longrightarrow> keeps w b0 (devTimeout b)"
  by (simp add: devTimeout_def Let_def)

lemma keeps_devAction: "kept w b0 b \<Longrightarrow> keeps w b0 (devAction E b)"
proof -
  assume "kept w b0 b"
  then have "kept w b0 (devPromote b)" by (simp add: devPromote_def split: list.split)
  then show ?thesis by (simp add: devAction_def Let_def keeps_then_fine split: option.split)
qed

lemma kept_pull: "pullOffers E b = Some b' \<Longrightarrow> kept w b0 b \<Longrightarrow> kept w b0 b'"
  by (erule pullOffers_rule [where I = "kept w b0"]) simp_all

lemma keeps_sendData: "kept w b0 b \<Longrightarrow> keeps w b0 (sendData E b)"
proof -
  assume b: "kept w b0 b"
  have "keeps w b0 (sendData_sent E n b')" if "kept w b0 b'" for n b'
    using that by (simp add: sendData_sent_def Let_def)
  then have "keeps w b0 (andThen (batch_write E pktDATA p b') (sendData_sent E n))" if "kept w b0 b'" for p n b'
    using that post_andThen [OF keeps_write [OF that]] by blast
  with b show ?thesis by (simp add: sendData_def Let_def split: option.split)
qed

lemma keeps_sendFinfo: "kept w b0 b \<Longrightarrow> sendFinfo E b = Some r \<Longrightarrow> keeps w b0 r"
  using kept_pull [of E b _ w b0] by (auto simp: sendFinfo_def split: option.splits if_splits)

lemma keeps_txAction: "kept w b0 b \<Longrightarrow> txAction E b = Some r \<Longrightarrow> keeps w b0 r"
proof -
  assume b: "kept w b0 b" and r: "txAction E b = Some r"
  have raw: "keeps w b0 (writeRaw E autostart b)"
    using b by (simp add: post_writeRaw split: option.split)
  have init: "keeps w b0 (sendInit E b)"
    using b by (simp add: sendInit_def Let_def)
  have start: "keeps w b0 (andThen (writeRaw E autostart b) (\<lambda>b. andThen (batch_write E pktSTART [] b) (\<lambda>b.
      fine ((set_txTimer E startInterval b)\<lparr>b_txState := htxSwait\<rparr>))))"
    by (rule post_andThen [OF raw]) (simp add: keeps_then_fine)
  show ?thesis
  proof (cases "b_txState b")
    case htxFinfo
    then obtain r1 where "sendFinfo E b = Some r1"
      "r = andThen r1 (\<lambda>b. fine ((armTx E (b\<lparr>b_finfoAckWait := True\<rparr>))\<lparr>b_txState := htxFinfoAck\<rparr>))"
      using r by (auto simp: txAction_def)
    with b show ?thesis by (simp add: keeps_sendFinfo keeps_then_fine)
  qed (use b r start init in \<open>auto simp: txAction_def keeps_then_fine keeps_sendData keeps_times\<close>)
qed

subsection \<open>The narrow watchdog\<close>

definition productive_packet :: "packet \<Rightarrow> batch \<Rightarrow> bool" where
  \<comment> \<open>the packets that show progress in state \<open>b\<close>\<close>
  "productive_packet pkt b \<longleftrightarrow>
     (let t = pkt_typ pkt; p = pkt_payload pkt in
      (t = pktSTART \<and> (b_txState b = htxStart \<or> b_txState b = htxSwait))
      \<or> (t = pktINITACK \<and> (b_txState b = htxInit \<or> b_txState b = htxInitAck))
      \<or> (t = pktFINFO \<and> b_rxState b = hrxFinfo)
      \<or> (t = pktFINFOACK \<and> b_finfoAckWait b \<and> (b_txState b = htxFinfo \<or> b_txState b = htxFinfoAck))
      \<or> (t = pktDATA \<and> b_rxState b = hrxData \<and> map_sum id fst (parseData p) = Inr (b_rxPos b))
      \<or> (t = pktEOF \<and> b_rxState b = hrxData
          \<and> (case parseOffset p of Inl _ \<Rightarrow> False | Inr off \<Rightarrow> off < 0 \<or> off = b_rxPos b))
      \<or> (t = pktEOFACK \<and> b_eofAckWait b \<and> (b_txState b = htxEOF \<or> b_txState b = htxEOFAck))
      \<or> (t = pktIDLE \<and> htxFinfo \<le> b_txState b \<and> b_txState b < htxRend \<and> b_txState b \<noteq> htxXwait))"

lemma idle_packet_keeps:
  assumes "\<not> productive_packet pkt b"
  shows "keeps True b (handlePacket E pkt b)"
proof -
  let ?b = "emit (EvRecv pkt) b"
  have f: "b_txState ?b = b_txState b" "b_rxState ?b = b_rxState b" "b_finfoAckWait ?b = b_finfoAckWait b"
    "b_eofAckWait ?b = b_eofAckWait b" "b_rxPos ?b = b_rxPos b"
    by (simp_all add: emit_def)
  have finfo: "b_rxState b \<noteq> hrxFinfo \<Longrightarrow> keeps True b (rxFinfo E pkt ?b)"
    by (auto simp: rxFinfo_def Let_def f split: rxState.split)
  have ack: "\<not> (b_finfoAckWait b \<and> (b_txState b = htxFinfo \<or> b_txState b = htxFinfoAck)) \<Longrightarrow>
      keeps True b (txFinfoAck E pkt ?b)"
    by (auto simp: txFinfoAck_def f)
  have data: "\<not> (b_rxState b = hrxData \<and> map_sum id fst (parseData (pkt_payload pkt)) = Inr (b_rxPos b)) \<Longrightarrow>
      keeps True b (rxData E pkt ?b)"
    by (auto simp: rxData_def f keeps_badPosition split: sum.split)
  have eof: "\<not> (b_rxState b = hrxData
          \<and> (case parseOffset (pkt_payload pkt) of Inl _ \<Rightarrow> False | Inr off \<Rightarrow> off < 0 \<or> off = b_rxPos b)) \<Longrightarrow>
      keeps True b (rxEOF E pkt ?b)"
    by (auto simp: rxEOF_def f keeps_badPosition split: rxState.split sum.split)
  have eofack: "\<not> (b_eofAckWait b \<and> (b_txState b = htxEOF \<or> b_txState b = htxEOFAck)) \<Longrightarrow> kept True b (txEOFAck E ?b)"
    by (auto simp: txEOFAck_def f)
  have idle: "\<not> (htxFinfo \<le> b_txState b \<and> b_txState b < htxRend \<and> b_txState b \<noteq> htxXwait) \<Longrightarrow> kept True b (txIdle E ?b)"
    by (auto simp: txIdle_def f)
  have rest: "keeps True b (rxInit E pkt ?b)" "kept True b (txDataAck pkt ?b)" "keeps True b (txRpos E pkt ?b)"
    "keeps True b (txEnd E ?b)" "keeps True b (devRx E pkt ?b)" "kept True b (devDack pkt ?b)"
    by (simp_all add: keeps_rxInit kept_txDataAck keeps_txRpos keeps_txEnd keeps_devRx kept_devDack)
  show ?thesis
    using assms finfo ack data eof eofack idle rest
    by (simp add: handlePacket_def productive_packet_def Let_def f)
qed

text \<open>
  Property C13. The narrow watchdog: processing a packet changes the brain-dead deadline only if
  the packet shows progress in the current state; DATAACK, RPOS, END, the device channel,
  INIT, unknown types, repeated acknowledgements, data and EOF at a wrong position never do.
\<close>

theorem watchdog_fed_only_by_progress:
  assumes "handlePacket E pkt b = (b', None)" and "b_braindead b' \<noteq> b_braindead b"
  shows "productive_packet pkt b"
  using idle_packet_keeps [of pkt b E] assms by (auto simp: kept_def)

subsection \<open>Calm stretches\<close>

text \<open>
  From some index of the clock on no packet arrives. Then a piece of code either takes
  packets out of the inbox or leaves the deadline where it is.
\<close>

definition quiet :: "env \<Rightarrow> nat \<Rightarrow> bool" where
  "quiet E n \<longleftrightarrow> (\<forall>k \<ge> n. \<forall>p. OutPacket p \<notin> set (en_outside E k))"

abbreviation waiting :: "batch \<Rightarrow> nat" where
  "waiting b \<equiv> length (in_q (s_inbox b))"

definition calm :: "env \<Rightarrow> batch \<Rightarrow> batch \<Rightarrow> bool" where
  "calm E b b' \<longleftrightarrow> s_clk b \<le> s_clk b' \<and> (quiet E (s_clk b) \<longrightarrow>
     waiting b' < waiting b \<or> (waiting b' = waiting b \<and> b_braindead b' = b_braindead b))"

lemma quiet_mono: "quiet E n \<Longrightarrow> n \<le> m \<Longrightarrow> quiet E m"
  by (auto simp: quiet_def)

lemma calm_refl [simp]: "calm E b b"
  by (simp add: calm_def)

lemma calm_trans: "calm E b b1 \<Longrightarrow> calm E b1 b2 \<Longrightarrow> calm E b b2"
  unfolding calm_def using quiet_mono by fastforce

lemma kept_calm: "kept True b b' \<Longrightarrow> calm E b b'"
  by (simp add: kept_def calm_def)

lemmas outside_defs = SendDevice_def Abort_def Close_def session_close_def courtesyCancel_def triggerAbort_def
  recordError_def writeRaw_def emit_def

lemma absorb_clock [simp]: "s_clk (absorb E x s) = s_clk s"
  by (cases x) (simp_all add: outside_defs Let_def split: prod.split bool.split)

lemma absorb_deadline [simp]: "b_braindead (absorb E x b) = b_braindead b"
  by (cases x) (simp_all add: outside_defs Let_def split: prod.split bool.split)

lemma absorb_inbox: "\<forall>p. OutPacket p \<noteq> x \<Longrightarrow> s_inbox (absorb E x b) = s_inbox b"
  by (cases x) (simp_all add: outside_defs Let_def split: prod.split bool.split)

lemma poll_clock [simp]: "s_clk (poll E b) = Suc (s_clk b)"
proof -
  have "s_clk (foldl (\<lambda>s x. absorb E x s) b xs) = s_clk b" for xs by (induction xs arbitrary: b) simp_all
  then show ?thesis by (simp add: poll_def tick_def)
qed

lemma poll_calm: "calm E b (poll E b)"
proof -
  have "b_braindead (foldl (\<lambda>s x. absorb E x s) b xs) = b_braindead b
      \<and> ((\<forall>p. OutPacket p \<notin> set xs) \<longrightarrow> s_inbox (foldl (\<lambda>s x. absorb E x s) b xs) = s_inbox b)" for xs
    by (induction xs arbitrary: b) (auto simp: absorb_inbox)
  then have "b_braindead (poll E b) = b_braindead b" "quiet E (s_clk b) \<Longrightarrow> s_inbox (poll E b) = s_inbox b"
    by (simp_all add: poll_def tick_def quiet_def)
  then show ?thesis by (simp add: calm_def)
qed

lemma calm_frame:
  "calm E b b' \<Longrightarrow> calm E b (b'\<lparr>s_inbox := (s_inbox b')\<lparr>in_sig := x\<rparr>\<rparr>)"
  "calm E b b' \<Longrightarrow> calm E b (b'\<lparr>b_productive := p\<rparr>)" "calm E b b' \<Longrightarrow> calm E b (b'\<lparr>s_readErr := r\<rparr>)"
  "calm E b b' \<Longrightarrow> calm E b (b'\<lparr>s_devQ := q\<rparr>)" "calm E b b' \<Longrightarrow> calm E b (queueDev req b')"
  by (simp_all add: calm_def queueDev_def Let_def)

subsection \<open>The event loop stays calm\<close>

lemma calm_pop:
  assumes "inbox_tryPop (s_inbox b) = (Some pkt, ib)" and "handlePacket E pkt (b\<lparr>s_inbox := ib\<rparr>) = (b', None)"
  shows "calm E b b'"
proof -
  have "kept False (b\<lparr>s_inbox := ib\<rparr>) b'"
    using keeps_packet [OF kept_refl, of "b\<lparr>s_inbox := ib\<rparr>" E pkt] assms(2) by simp
  then have "s_inbox b' = ib" "s_clk b \<le> s_clk b'" by (simp_all add: kept_def)
  moreover have "length (in_q ib) < waiting b"
    using assms(1) by (auto simp: inbox_tryPop_def split: list.splits)
  ultimately show ?thesis by (simp add: calm_def)
qed

lemma calm_sync: "calm E b (batch_sync E b)"
  by (rule kept_calm [OF kept_sync]) simp

lemma andThen_None:
  assumes "andThen r f = (b', None)"
  obtains b1 where "r = (b1, None)" and "f b1 = (b', None)"
  using assms by (cases r; cases "snd r") auto

lemma calm_drain_loop: "drain_loop n E b = (b', None) \<Longrightarrow> calm E b b' \<and> (0 < n \<longrightarrow> s_clk b < s_clk b')"
proof (induction n arbitrary: b)
  case 0
  then show ?case by (auto simp: fine_def inbox_kick_def intro!: calm_frame(1))
next
  case (Suc n)
  let ?b = "poll E b" and ?b2 = "poll E (poll E b)"
  obtain o1 ib where pop: "inbox_tryPop (s_inbox ?b) = (o1, ib)" by fastforce
  have later: "calm E ?b b1 \<Longrightarrow> drain_loop n E b1 = (b', None) \<Longrightarrow> ?case" for b1
  proof -
    assume "calm E ?b b1" "drain_loop n E b1 = (b', None)"
    with Suc.IH have "calm E ?b b'" using calm_trans by blast
    with poll_calm show ?case using calm_trans by (fastforce simp: calm_def)
  qed
  show ?case
  proof (cases o1)
    case (Some pkt)
    with Suc.prems pop obtain b1 where b1: "handlePacket E pkt (?b\<lparr>s_inbox := ib\<rparr>) = (b1, None)"
      "drain_loop n E (batch_sync E b1) = (b', None)"
      by (auto simp: Let_def elim!: andThen_None)
    have "calm E ?b (batch_sync E b1)"
      using calm_pop [OF _ b1(1)] pop Some calm_trans calm_sync by blast
    then show ?thesis by (rule later [OF _ b1(2)])
  next
    case None
    obtain o2 q where q: "devQ_recv (s_devQ ?b2) = (o2, q)" by fastforce
    show ?thesis
    proof (cases o2)
      case (Some req)
      with Suc.prems pop None q have "drain_loop n E (queueDev req (?b2\<lparr>s_devQ := q\<rparr>)) = (b', None)"
        by (simp add: Let_def)
      then show ?thesis by (rule later [rotated]) (intro calm_frame poll_calm)
    next
      case None
      with Suc.prems pop \<open>o1 = None\<close> q have "b' = ?b2" by (simp add: Let_def fine_def)
      then show ?thesis using poll_calm [of E b] poll_calm [of E ?b] calm_trans by auto
    qed
  qed
qed

lemma calm_fireTimers:
  assumes "fireTimers E now b = (f, (b', None))"
  shows "kept True b b' \<and> \<not> expired now (b_braindead b)"
proof -
  define r where "r = (if expired now (b_txTimer b) then (True, txTimeout E (b\<lparr>b_txTimer := None\<rparr>)) else (False, fine b))"
  have alive: "\<not> expired now (b_braindead b)"
    using assms by (auto simp: fireTimers_def failed_def)
  obtain f1 b1 e1 where r1: "r = (f1, (b1, e1))" by (metis prod.collapse)
  have "keeps True b (snd r)" by (simp add: r_def keeps_txTimeout)
  with r1 have b1: "e1 = None \<Longrightarrow> kept True b b1" by simp
  have e1: "e1 = None" and last: "(if expired now (b_devTimer b1) then (True, devTimeout (b1\<lparr>b_devTimer := None\<rparr>))
      else (f1, fine b1)) = (f, (b', None))"
    using assms alive r1 by (auto simp: fireTimers_def r_def [symmetric] split: option.splits)
  have "keeps True b (devTimeout (b1\<lparr>b_devTimer := None\<rparr>))"
    by (rule keeps_devTimeout) (use b1 e1 in simp)
  with last b1 e1 alive show ?thesis by (auto simp: fine_def split: if_splits)
qed

subsection \<open>One round of the loop\<close>

text \<open>
  A round that neither fails nor ends the batch checks the watchdog at a moment of its own.
\<close>

definition alive :: "env \<Rightarrow> batch \<Rightarrow> batch \<Rightarrow> bool" where
  "alive E b b' \<longleftrightarrow> calm E b b' \<and> s_clk b < s_clk b' \<and> (quiet E (s_clk b) \<longrightarrow> waiting b' < waiting b
     \<or> (\<exists>c. s_clk b \<le> c \<and> c < s_clk b' \<and> \<not> expired (en_now E c) (b_braindead b)))"

lemma checked_alive:
  assumes "calm E b b1" and "s_clk b < s_clk b1" and "fireTimers E (time_now E b1) (tick b1) = (f, (b2, None))"
  shows "alive E b b2"
proof -
  have k: "kept True (tick b1) b2" "\<not> expired (en_now E (s_clk b1)) (b_braindead b1)"
    using calm_fireTimers [OF assms(3)] by (simp_all add: time_now_def tick_def)
  then have "s_clk b1 < s_clk b2" "waiting b2 = waiting b1" "b_braindead b2 = b_braindead b1"
    by (auto simp: kept_def tick_def)
  with assms(1,2) k(2) show ?thesis
    unfolding alive_def calm_def by (metis less_imp_le less_trans)
qed

lemma alive_after: "alive E b b1 \<Longrightarrow> calm E b1 b2 \<Longrightarrow> alive E b b2"
proof -
  assume a: "alive E b b1" and c: "calm E b1 b2"
  then have "calm E b b2" "s_clk b1 \<le> s_clk b2" "s_clk b < s_clk b1" using calm_trans by (auto simp: alive_def calm_def)
  moreover have "quiet E (s_clk b) \<Longrightarrow> waiting b2 \<le> waiting b1"
    using c quiet_mono [of E "s_clk b" "s_clk b1"] \<open>s_clk b < s_clk b1\<close> by (auto simp: calm_def)
  ultimately show ?thesis using a unfolding alive_def by (meson le_less_trans less_le_trans)
qed

lemma alive_before: "calm E b b1 \<Longrightarrow> alive E b1 b2 \<Longrightarrow> alive E b b2"
proof -
  assume c: "calm E b b1" and a: "alive E b1 b2"
  then have "calm E b b2" "s_clk b \<le> s_clk b1" "s_clk b1 < s_clk b2" using calm_trans by (auto simp: alive_def calm_def)
  moreover have "waiting b2 < waiting b \<or> (\<exists>c. s_clk b \<le> c \<and> c < s_clk b2 \<and> \<not> expired (en_now E c) (b_braindead b))"
    if q: "quiet E (s_clk b)"
  proof (cases "waiting b1 < waiting b")
    case True
    moreover have "quiet E (s_clk b1)" using q quiet_mono \<open>s_clk b \<le> s_clk b1\<close> by blast
    then have "waiting b2 \<le> waiting b1" using a by (auto simp: alive_def calm_def)
    ultimately show ?thesis by linarith
  next
    case False
    with c q have "waiting b1 = waiting b" "b_braindead b1 = b_braindead b" by (auto simp: calm_def)
    moreover have "quiet E (s_clk b1)" using q quiet_mono \<open>s_clk b \<le> s_clk b1\<close> by blast
    ultimately show ?thesis using a \<open>s_clk b \<le> s_clk b1\<close> unfolding alive_def by (metis order_trans)
  qed
  ultimately show ?thesis unfolding alive_def by (meson le_less_trans)
qed

lemma snd_fire:
  assumes "snd (fireTimers E now b) = (b', None)"
  obtains f where "fireTimers E now b = (f, (b', None))"
  using assms by (cases "fireTimers E now b") auto

lemma calm_pump_select: "pump_select E b = (b', None) \<Longrightarrow> calm E b b'"
proof -
  assume r: "pump_select E b = (b', None)"
  let ?p = "poll E b"
  have sig: "calm E ?p b2"
    if "drain_loop n E (?p\<lparr>s_inbox := (s_inbox ?p)\<lparr>in_sig := x\<rparr>\<rparr>) = (b2, None)" for x n b2
    using calm_drain_loop [OF that] calm_frame(1) [OF calm_refl] calm_trans by blast
  have timers: "calm E ?p b2" if "fireTimers E now (tick ?p) = (f, (b2, None))" for now f b2
    using calm_fireTimers [OF that] by (intro kept_calm) (simp add: kept_def tick_def)
  have dev: "calm E ?p (queueDev req (?p\<lparr>s_devQ := q\<rparr>))" for req q by (intro calm_frame calm_refl)
  have "calm E ?p b'"
    using r dev
    by (auto simp: pump_select_def Let_def drain_def failed_def fine_def intro: sig timers
        split: if_splits option.splits elim!: snd_fire)
  then show ?thesis using poll_calm calm_trans by blast
qed

lemma pump_alive:
  assumes "pump E b = (b', None)" and "b_txState b' \<noteq> htxDone"
  shows "alive E b b'"
proof -
  from assms(1) obtain b1 where d: "drain E b = (b1, None)" and rest: "(if b_txState b1 = htxDone then fine (b1\<lparr>b_productive := False\<rparr>)
       else if b_productive b1 then
         (let b = poll E (b1\<lparr>b_productive := False\<rparr>) in
          case s_ctx b of
            Some e \<Rightarrow> failed e b
          | None \<Rightarrow> snd (fireTimers E (time_now E b) (tick b)))
       else
         (case fireTimers E (time_now E b1) (tick b1) of
            (fired, (b, Some e)) \<Rightarrow> failed e b
          | (fired, (b, None)) \<Rightarrow> if fired then fine b else pump_select E b)) = (b', None)"
    unfolding pump_def by (rule andThen_None)
  have b1: "calm E b b1" "s_clk b < s_clk b1"
    using calm_drain_loop [of drainBudget E b b1] d by (simp_all add: drain_def drainBudget_def)
  show ?thesis
  proof (cases "b_txState b1 = htxDone \<or> b_productive b1")
    case True
    let ?p = "poll E (b1\<lparr>b_productive := False\<rparr>)"
    have p: "calm E b ?p" "s_clk b < s_clk ?p"
      using b1 calm_frame(2) [OF b1(1)] poll_calm calm_trans by (blast, simp)
    from True rest assms(2) have "snd (fireTimers E (time_now E ?p) (tick ?p)) = (b', None)"
      by (auto simp: Let_def fine_def failed_def split: if_splits option.splits)
    then obtain f where "fireTimers E (time_now E ?p) (tick ?p) = (f, (b', None))" by (metis prod.collapse)
    then show ?thesis by (rule checked_alive [OF p])
  next
    case False
    obtain f b2 e where f: "fireTimers E (time_now E b1) (tick b1) = (f, (b2, e))" by (metis prod.collapse)
    with False rest have e: "e = None" and b': "(if f then fine b2 else pump_select E b2) = (b', None)"
      by (auto simp: failed_def split: option.splits)
    have "alive E b b2" using checked_alive [OF b1] f e by blast
    moreover have "calm E b2 b'" using b' calm_pump_select by (auto simp: fine_def split: if_splits)
    ultimately show ?thesis by (rule alive_after)
  qed
qed

lemma run_body_alive:
  assumes "run_body E b = Some (b', None)" and "b_txState b' \<noteq> htxDone"
  shows "alive E b b'"
proof -
  obtain b1 where d: "devAction E b = (b1, None)"
    using assms(1) by (cases "devAction E b"; cases "snd (devAction E b)") (auto simp: run_body_def failed_def)
  with assms(1) obtain r where r: "txAction E b1 = Some r"
    and rest: "andThen r (\<lambda>b. let b = batch_sync E b in if b_txState b = htxDone then fine b else pump E b) = (b', None)"
    by (auto simp: run_body_def)
  from rest obtain b2 where b2: "r = (b2, None)"
    and b': "(let b = batch_sync E b2 in if b_txState b = htxDone then fine b else pump E b) = (b', None)"
    by (rule andThen_None)
  have "calm E b b1" using keeps_devAction [OF kept_refl, of True b E] d by (simp add: kept_calm)
  moreover have "calm E b1 b2" using keeps_txAction [OF kept_refl r, of True] b2 by (simp add: kept_calm)
  ultimately have "calm E b (batch_sync E b2)" using calm_sync calm_trans by blast
  moreover have "alive E (batch_sync E b2) b'"
    using b' assms(2) pump_alive by (auto simp: Let_def fine_def split: if_splits)
  ultimately show ?thesis by (rule alive_before)
qed

subsection \<open>A batch ends when the peer is silent\<close>

text \<open>What the environment has to do: let time pass, and not offer unusable files forever.\<close>

definition clock_runs :: "env \<Rightarrow> bool" where
  "clock_runs E \<longleftrightarrow> (\<forall>m n. m \<le> n \<longrightarrow> en_now E m \<le> en_now E n) \<and> (\<forall>d. \<exists>n. d < en_now E n)"

definition offers_settle :: "env \<Rightarrow> bool" where
  "offers_settle E \<longleftrightarrow> (\<exists>k. \<forall>es. k \<le> length es \<longrightarrow> pred_option usable (en_nextFile E es))"

lemma pullOffers_returns:
  assumes "offers_settle E"
  shows "pullOffers E b \<noteq> None"
proof -
  from assms obtain k where k: "\<And>es. k \<le> length es \<Longrightarrow> pred_option usable (en_nextFile E es)"
    by (auto simp: offers_settle_def)
  show ?thesis
  proof (induction "k - length (s_log b)" arbitrary: b rule: less_induct)
    case less
    have again: "pullOffers E (rejectOffer ofr e (emit a b)) \<noteq> None" if "length (s_log b) < k" for ofr e a
      by (rule less) (use that in \<open>auto simp: rejectOffer_def closeOffer_def emit_def\<close>)
    show ?case
    proof (cases "en_nextFile E (s_log b)")
      case None
      then show ?thesis by (subst pullOffers.simps) (simp add: Let_def)
    next
      case (Some ofr)
      show ?thesis
      proof (cases "usable ofr")
        case True
        with Some show ?thesis by (subst pullOffers.simps) (auto simp: Let_def usable_def)
      next
        case False
        then have "length (s_log b) < k" using k [of "s_log b"] Some by (cases "k \<le> length (s_log b)") auto
        with Some again show ?thesis by (subst pullOffers.simps) (simp add: Let_def)
      qed
    qed
  qed
qed

lemma run_body_returns: "offers_settle E \<Longrightarrow> run_body E b \<noteq> None"
proof -
  assume "offers_settle E"
  then have "sendFinfo E b1 \<noteq> None" for b1
    using pullOffers_returns [of E b1] by (auto simp: sendFinfo_def split: option.split)
  then have "txAction E b1 \<noteq> None" for b1
    by (cases "b_txState b1") (simp_all add: txAction_def del: not_None_eq)
  then show ?thesis
    by (cases "devAction E b"; cases "snd (devAction E b)") (auto simp: run_body_def simp del: not_None_eq)
qed

lemma run_body_core: "core_ok b \<Longrightarrow> run_body E b = Some (b', None) \<Longrightarrow> core_ok b'"
  using covered_run_body [of E b "(b', None)"] core.breach_keeps [of E b b'] by (simp add: covered_def)

lemma run_loop_returns:
  assumes "clock_runs E" and "quiet E n" and "offers_settle E" and "core_ok b"
  shows "run_loop E b \<noteq> None"
proof -
  from assms(1) obtain late where late: "\<And>d. d < en_now E (late d)"
    unfolding clock_runs_def by metis
  have mono: "\<And>i j. i \<le> j \<Longrightarrow> en_now E i \<le> en_now E j" using assms(1) by (simp add: clock_runs_def)
  let ?R = "measures [\<lambda>b. n - s_clk b, waiting, \<lambda>b. late (the (b_braindead b)) - s_clk b]"
  show ?thesis
    using assms(4)
  proof (induction b rule: wf_induct_rule [OF wf_measures [of "[\<lambda>b. n - s_clk b, waiting,
      \<lambda>b. late (the (b_braindead b)) - s_clk b]"]])
    case (1 b)
    obtain b' e where r: "run_body E b = Some (b', e)" using run_body_returns [OF assms(3), of b] by fastforce
    show ?case
    proof (cases "b_txState b = htxDone \<or> e \<noteq> None \<or> b_txState b' = htxDone")
      case True
      then show ?thesis
        using r by (subst run_loop.simps) (auto simp: run_loop.simps [of E b'] split: option.split)
    next
      case False
      with r have al: "alive E b b'" by (intro run_body_alive) simp_all
      then have c: "s_clk b < s_clk b'" "calm E b b'" by (simp_all add: alive_def)
      have "(b', b) \<in> ?R"
      proof (cases "quiet E (s_clk b)")
        case False
        then have "s_clk b < n" using assms(2) quiet_mono not_le by blast
        with c(1) show ?thesis by (simp add: diff_less_mono2)
      next
        case q: True
        show ?thesis
        proof (cases "waiting b' < waiting b")
          case True
          with c(1) show ?thesis by auto
        next
          case False
          with c q have same: "waiting b' = waiting b" "b_braindead b' = b_braindead b" by (auto simp: calm_def)
          obtain d where d: "b_braindead b = Some d" using core_okD(4) [OF "1.prems"] by blast
          from al q False obtain i where "s_clk b \<le> i" "\<not> expired (en_now E i) (Some d)"
            by (auto simp: alive_def d)
          then have "s_clk b < late d" using late [of d] mono [of "late d" i] by (cases "late d \<le> i") (auto simp: expired_def)
          with c(1) same d show ?thesis by (auto simp: diff_less_mono2)
        qed
      qed
      moreover have "core_ok b'" using run_body_core "1.prems" r False by simp
      ultimately have "run_loop E b' \<noteq> None" by (rule "1.IH")
      with r False show ?thesis by (subst run_loop.simps) simp
    qed
  qed
qed

lemma batch_run_returns:
  assumes "clock_runs E" and "quiet E n" and "offers_settle E" and "fresh s"
  shows "\<exists>r. batch_run E (newBatch s) = Some r"
  using run_loop_returns [OF assms(1-3) core_ok_start [OF assms(4), of E]]
  by (auto simp: batch_run_def batch_start_def)


end
