(* ===== verification/Hydra_Demo.thy ===== *)
theory Hydra_Demo
  imports Hydra_TxContract Hydra_RxContract Hydra_Progress
begin

section \<open>A concrete exchange\<close>

text \<open>
  One concrete environment in which both directions carry a file, and the states a batch goes
  through in it, packet by packet. The theorems of the contract theories are applied to these
  states, so their hypotheses are seen to hold somewhere with a file in flight.
\<close>

definition offerA :: FileOffer where
  "offerA = \<lparr>fo_Name = str ''A'', fo_Path = [], fo_Size = 3, fo_ModTime = None, fo_Reader = Some 1,
     fo_Seeker = True, fo_Close = True\<rparr>"

definition peerInit :: initPkt where
  "peerInit = \<lparr>ip_appID = str ''peer'', ip_supported = capDefaultSupported, ip_desired = 0,
     ip_txWindow = 0, ip_rxWindow = 0, ip_prefix = []\<rparr>"

definition peerFile :: fileMeta where
  "peerFile = \<lparr>fm_mtime = 0, fm_size = 2, fm_txid = 0, fm_count = 0, fm_name = str ''B'', fm_path = []\<rparr>"

text \<open>The file the sender offers, the file the peer sends, and the packets in between.\<close>

definition pktOf :: "byte \<Rightarrow> byte list \<Rightarrow> packet" where
  "pktOf t p = \<lparr>pkt_typ = t, pkt_payload = p\<rparr>"

definition exchange :: "nat \<Rightarrow> packet list" where
  "exchange n =
     (if n = 2 then [pktOf pktSTART [], pktOf pktINIT (marshalInit peerInit)]
      else if n = 11 then [pktOf pktINITACK [], pktOf pktFINFO (marshalFinfo peerFile False)]
      else if n = 22 then [pktOf pktFINFOACK (marshalOffset 0), pktOf pktDATA (marshalData 0 (str ''hi''))]
      else if n = 32 then [pktOf pktEOF (marshalOffset 2)]
      else if n = 43 then [pktOf pktEOFACK []]
      else if n = 52 then [pktOf pktFINFOACK (marshalOffset 0), pktOf pktFINFO finfoEOB]
      else if n = 64 then [pktOf pktEND []]
      else [])"

definition is_read :: "event \<Rightarrow> bool" where
  "is_read e \<longleftrightarrow> (case e of EvRead _ _ _ \<Rightarrow> True | _ \<Rightarrow> False)"

definition exEnv :: env where
  "exEnv = \<lparr>en_now = (\<lambda>n. int n), en_outside = (\<lambda>n. map OutPacket (exchange n)), en_wake = (\<lambda>_. WakeInbox),
     en_write = (\<lambda>_. None),
     en_nextFile = (\<lambda>es. if list_ex is_offer es then None else Some offerA),
     en_source = (\<lambda>es _ _. if list_ex is_read es then ([], IoEOF) else (str ''abc'', IoEOF)),
     en_seek = (\<lambda>_ _ _. None), en_accept = (\<lambda>_ _. (Some 7, 0, None)), en_writeFile = (\<lambda>_ _ _. None),
     en_hasDev = False, en_closable = True\<rparr>"

lemma exEnv_simps [simp]:
  "en_write exEnv es = None" "en_accept exEnv es info = (Some 7, 0, None)" "en_writeFile exEnv es h d = None"
  by (simp_all add: exEnv_def)

lemma exEnv_progress: "clock_runs exEnv" "quiet exEnv 65" "offers_settle exEnv"
proof -
  have "\<exists>n. d < int n" for d by (rule exI [of _ "nat (d + 1)"]) simp
  then show "clock_runs exEnv" by (simp add: clock_runs_def exEnv_def)
  show "quiet exEnv 65" by (auto simp: quiet_def exEnv_def exchange_def)
  show "offers_settle exEnv" by (auto simp: offers_settle_def exEnv_def usable_def offerA_def)
qed

subsection \<open>The states, packet by packet\<close>

definition ex_start :: batch where "ex_start = batch_start exEnv demoSession"
definition ex_init :: batch where
  \<comment> \<open>after the peer's INIT\<close>
  "ex_init = fst (handlePacket exEnv (pktOf pktINIT (marshalInit peerInit)) ex_start)"
definition ex_finfo :: batch where
  \<comment> \<open>after its FINFO\<close>
  "ex_finfo = fst (handlePacket exEnv (pktOf pktFINFO (marshalFinfo peerFile False)) ex_init)"
definition ex_data :: batch where
  "ex_data = fst (handlePacket exEnv (pktOf pktDATA (marshalData 0 (str ''hi''))) ex_finfo)"
definition ex_eof :: batch where
  "ex_eof = fst (handlePacket exEnv (pktOf pktEOF (marshalOffset 2)) ex_data)"

lemma write_exEnv: "batch_write exEnv t p b = (fst (batch_write exEnv t p b), None)"
  by (simp add: batch_write_def writer_write_def Let_def)

lemma log_write: "s_log (fst (batch_write exEnv t p b)) =
    s_log b @ [EvSend \<lparr>sn_packet = \<lparr>pkt_typ = t, pkt_payload = p\<rparr>, sn_opts = b_opts b, sn_prefix = b_prefix b\<rparr> None]"
  by (simp add: batch_write_def writer_write_def Let_def emit_def)

lemma fields_write:
  "b_txState (fst (batch_write E t p b)) = b_txState b" "b_rxState (fst (batch_write E t p b)) = b_rxState b"
  "b_rxPos (fst (batch_write E t p b)) = b_rxPos b" "b_rxWriter (fst (batch_write E t p b)) = b_rxWriter b"
  "b_rxOpen (fst (batch_write E t p b)) = b_rxOpen b" "b_rxInfo (fst (batch_write E t p b)) = b_rxInfo b"
  "b_rxWindow (fst (batch_write E t p b)) = b_rxWindow b" "b_rxTimer (fst (batch_write E t p b)) = b_rxTimer b"
  "b_lastRefusedFinfo (fst (batch_write E t p b)) = b_lastRefusedFinfo b"
  "b_filesRcvd (fst (batch_write E t p b)) = b_filesRcvd b" "b_lastFinfo (fst (batch_write E t p b)) = b_lastFinfo b"
  "b_txOffer (fst (batch_write E t p b)) = b_txOffer b" "b_batchEnded (fst (batch_write E t p b)) = b_batchEnded b"
  "b_blk (fst (batch_write E t p b)) = b_blk b" "b_txReader (fst (batch_write E t p b)) = b_txReader b"
  "b_txSkip (fst (batch_write E t p b)) = b_txSkip b" "b_txPos (fst (batch_write E t p b)) = b_txPos b"
  "b_txEOB (fst (batch_write E t p b)) = b_txEOB b" "b_txInfo (fst (batch_write E t p b)) = b_txInfo b"
  "s_config (fst (batch_write E t p b)) = s_config b"
  by (simp_all add: batch_write_def writer_write_def Let_def emit_def)

definition unsent :: "event \<Rightarrow> bool" where
  "unsent e \<longleftrightarrow> \<not> is_offer e \<and> \<not> is_read e"

lemma unsent_offer: "list_all unsent es \<Longrightarrow> en_nextFile exEnv es = Some offerA"
  by (auto simp: exEnv_def unsent_def list_ex_iff list_all_iff)

lemma unsent_read: "list_all unsent es \<Longrightarrow> \<not> list_ex is_read es"
  by (auto simp: unsent_def list_ex_iff list_all_iff)

lemma unread_source: "\<not> list_ex is_read es \<Longrightarrow> en_source exEnv es h n = (str ''abc'', IoEOF)"
  by (simp add: exEnv_def)

lemma ex_start_facts:
  "b_rxState ex_start = hrxInit" "b_txState ex_start = htxStart" "s_log ex_start = []" "b_filesRcvd ex_start = 0"
  "b_lastRefusedFinfo ex_start = None" "s_config ex_start = defaults None"
  "b_lastFinfo ex_start = None" "b_txOffer ex_start = None" "\<not> b_batchEnded ex_start"
  "b_blk ex_start = newBlockSizer 0 2048"
  by (simp_all add: ex_start_def batch_start_def feedBraindead_def tick_def newBatch_def session.defs
      demoSession_def run_setup_def NewSession_def defaults_def zeroConfig_def Let_def)

lemma defaults_None: "cf_Desired (defaults None) = []" "cf_Supported (defaults None) = []"
  "cf_RxWindowBytes (defaults None) = 0"
  by (simp_all add: defaults_def zeroConfig_def Let_def)

lemma parse_peerInit: "parseInit (marshalInit peerInit) = Inr peerInit"
  using parseInit_marshal [of peerInit] by (simp add: peerInit_def cap_defs)

lemma ex_init_facts:
  "b_rxState ex_init = hrxFinfo" "b_txState ex_init = htxStart" "b_rxWindow ex_init = 0"
  "b_filesRcvd ex_init = 0" "b_lastRefusedFinfo ex_init = None"
  "b_lastFinfo ex_init = None" "b_txOffer ex_init = None" "\<not> b_batchEnded ex_init"
  "b_blk ex_init = newBlockSizer 0 2048" "list_all unsent (s_log ex_init)"
  "handlePacket exEnv (pktOf pktINIT (marshalInit peerInit)) ex_start = (ex_init, None)"
proof -
  let ?p = "pktOf pktINIT (marshalInit peerInit)"
  let ?b = "emit (EvRecv ?p) ex_start"
  have vital: "localDesired (s_config ?b) AND capEscape = 0"
    by (simp add: emit_def ex_start_facts localDesired_def defaults_None cap_defs)
  obtain b1 where neg: "negotiate peerInit ?b = fine b1"
    and b1: "b_txState b1 = htxStart" "b_rxWindow b1 = 0" "b_filesRcvd b1 = 0" "b_lastRefusedFinfo b1 = None"
      "b_lastFinfo b1 = None" "b_txOffer b1 = None" "\<not> b_batchEnded b1" "b_blk b1 = newBlockSizer 0 2048"
      "s_log b1 = [EvRecv ?p]"
    using vital by (simp add: negotiate_def Let_def emit_def ex_start_facts peer_window_def peerInit_def
        mergeWindow_def defaults_None)
  have h: "handlePacket exEnv ?p ex_start = batch_write exEnv pktINITACK [] (b1\<lparr>b_rxState := hrxFinfo\<rparr>)"
    using neg by (simp add: handlePacket_def rxInit_def pktOf_def parse_peerInit ex_start_facts emit_def Let_def)
  show "b_rxState ex_init = hrxFinfo" "b_txState ex_init = htxStart" "b_rxWindow ex_init = 0"
    "b_filesRcvd ex_init = 0" "b_lastRefusedFinfo ex_init = None"
    "b_lastFinfo ex_init = None" "b_txOffer ex_init = None" "\<not> b_batchEnded ex_init"
    "b_blk ex_init = newBlockSizer 0 2048" "list_all unsent (s_log ex_init)"
    unfolding ex_init_def h by (simp_all add: fields_write log_write b1 unsent_def is_offer_def is_read_def)
  show "handlePacket exEnv ?p ex_start = (ex_init, None)"
    unfolding ex_init_def h by (rule write_exEnv)
qed

lemma ex_finfo_facts:
  "b_rxState ex_finfo = hrxData" "b_rxWindow ex_finfo = 0" "b_rxPos ex_finfo = 0" "b_rxWriter ex_finfo = Some 7"
  "b_rxOpen ex_finfo" "b_rxInfo ex_finfo = finfo_info peerFile 0"
  "handlePacket exEnv (pktOf pktFINFO (marshalFinfo peerFile False)) ex_init = (ex_finfo, None)"
proof -
  let ?p = "pktOf pktFINFO (marshalFinfo peerFile False)"
  let ?b = "feedBraindead exEnv (emit (EvRecv ?p) ex_init)"
  have noEOB: "\<not> isFinfoEOB (marshalFinfo peerFile False)" by (rule marshalFinfo_not_EOB)
  have parse: "parseFinfo (marshalFinfo peerFile False) = Inr peerFile"
    using parseFinfo_marshal [of peerFile False] by (simp add: peerFile_def)
  have b: "b_rxState (emit (EvRecv ?p) ex_init) = hrxFinfo" "b_filesRcvd ?b = 0" "b_lastRefusedFinfo ?b = None"
    "b_rxWindow ?b = 0"
    by (simp_all add: emit_def feedBraindead_def tick_def ex_init_facts)
  have size: "fi_Size (finfo_info peerFile n) = 2" "fm_size peerFile = 2" for n
    by (simp_all add: finfo_info_def peerFile_def)
  define b1 where "b1 = snd (acceptFinfo exEnv (marshalFinfo peerFile False) ?b)"
  have b1: "b_rxState b1 = hrxData" "b_rxPos b1 = 0" "b_rxWriter b1 = Some 7" "b_rxOpen b1"
      "b_rxInfo b1 = finfo_info peerFile 0" "b_rxWindow b1 = 0"
    using b(2,4) by (simp_all add: b1_def acceptFinfo_def parse Let_def size emit_def)
  have acc: "acceptFinfo exEnv (marshalFinfo peerFile False) ?b = (0, b1)"
    by (simp add: b1_def acceptFinfo_def parse Let_def size to_int32_def)
  have h: "handlePacket exEnv ?p ex_init
      = batch_write exEnv pktFINFOACK (marshalOffset 0) (b1\<lparr>b_lastRefusedFinfo := None\<rparr>)"
    using acc b noEOB by (simp add: handlePacket_def rxFinfo_def pktOf_def Let_def)
  show "b_rxState ex_finfo = hrxData" "b_rxWindow ex_finfo = 0" "b_rxPos ex_finfo = 0" "b_rxWriter ex_finfo = Some 7"
    "b_rxOpen ex_finfo" "b_rxInfo ex_finfo = finfo_info peerFile 0"
    unfolding ex_finfo_def h by (simp_all add: fields_write b1)
  show "handlePacket exEnv ?p ex_init = (ex_finfo, None)"
    unfolding ex_finfo_def h by (rule write_exEnv)
qed

lemma ex_data_facts:
  "b_rxState ex_data = hrxData" "b_rxPos ex_data = 2" "b_rxWriter ex_data = Some 7" "b_rxOpen ex_data"
  "b_rxInfo ex_data = finfo_info peerFile 0"
  "s_log ex_data = (s_log ex_finfo @ [EvRecv (pktOf pktDATA (marshalData 0 (str ''hi'')))])
     @ EvWrite 7 (str ''hi'') None # [EvRecvProgress (finfo_info peerFile 0) 2]"
  "handlePacket exEnv (pktOf pktDATA (marshalData 0 (str ''hi''))) ex_finfo = (ex_data, None)"
  using ex_finfo_facts
  by (simp_all add: ex_data_def handlePacket_def rxData_def rxWrite_def pktOf_def Let_def emit_def
      feedBraindead_def tick_def fine_def fits_int32_def)

lemma ex_eof_facts:
  "s_log ex_eof = (s_log ex_data @ [EvRecv (pktOf pktEOF (marshalOffset 2)), EvWriterClose 7])
     @ EvRecvCompleted (finfo_info peerFile 0) 2 None
     # [EvSend \<lparr>sn_packet = \<lparr>pkt_typ = pktEOFACK, pkt_payload = []\<rparr>, sn_opts = b_opts ex_data,
          sn_prefix = b_prefix ex_data\<rparr> None]"
  "handlePacket exEnv (pktOf pktEOF (marshalOffset 2)) ex_data = (ex_eof, None)"
  using ex_data_facts(1-5)
  by (simp_all add: ex_eof_def handlePacket_def rxEOF_def rxCloseFile_def closeWriter_def recvCompleted_def
      batch_write_def writer_write_def pktOf_def Let_def emit_def feedBraindead_def tick_def fine_def
      fits_int32_def)

lemma ex_reachable:
  "reachable exEnv demoSession ex_init" "reachable exEnv demoSession ex_finfo"
  "reachable exEnv demoSession ex_data" "reachable exEnv demoSession ex_eof"
proof -
  note steps = st_packet [OF ex_init_facts(11)] st_packet [OF ex_finfo_facts(7)]
    st_packet [OF ex_data_facts(7)] st_packet [OF ex_eof_facts(2)]
  show "reachable exEnv demoSession ex_init" "reachable exEnv demoSession ex_finfo"
    "reachable exEnv demoSession ex_data" "reachable exEnv demoSession ex_eof"
    unfolding reachable_def ex_start_def [symmetric]
    using steps by (meson rtranclp.rtrancl_refl rtranclp.rtrancl_into_rtrancl)+
qed

lemma demo_no_files: "recv_trace (s_log demoSession) = Some RIdle"
  by (simp add: demoSession_def run_setup_def NewSession_def recv_trace_def)

subsection \<open>The sending side\<close>

definition tx_ready_state :: batch where
  \<comment> \<open>the sender may announce its first file\<close>
  "tx_ready_state = batch_sync exEnv (fst (handlePacket exEnv (pktOf pktINITACK []) (batch_sync exEnv ex_init)))"
definition tx_announced_state :: batch where
  "tx_announced_state = fst (the (txAction exEnv tx_ready_state))"
definition tx_accepted_state :: batch where
  "tx_accepted_state = fst (handlePacket exEnv (pktOf pktFINFOACK (marshalOffset 0)) tx_announced_state)"
definition tx_sent_state :: batch where
  \<comment> \<open>one DATA frame sent\<close>
  "tx_sent_state = fst (the (txAction exEnv tx_accepted_state))"

lemma tx_ready_facts:
  "b_txState tx_ready_state = htxFinfo" "b_lastFinfo tx_ready_state = None" "b_txOffer tx_ready_state = None"
  "\<not> b_batchEnded tx_ready_state" "b_blk tx_ready_state = newBlockSizer 0 2048" "list_all unsent (s_log tx_ready_state)"
  "reachable exEnv demoSession tx_ready_state"
proof -
  let ?b = "batch_sync exEnv ex_init"
  have h: "handlePacket exEnv (pktOf pktINITACK []) ?b
      = fine ((feedBraindead exEnv (emit (EvRecv (pktOf pktINITACK [])) ?b))\<lparr>b_txTimer := None, b_txRetries := 0, b_txState := htxRinit\<rparr>)"
    by (simp add: handlePacket_def batch_sync_def ex_init_facts pktOf_def emit_def Let_def)
  show "b_txState tx_ready_state = htxFinfo" "b_lastFinfo tx_ready_state = None" "b_txOffer tx_ready_state = None"
    "\<not> b_batchEnded tx_ready_state" "b_blk tx_ready_state = newBlockSizer 0 2048" "list_all unsent (s_log tx_ready_state)"
    unfolding tx_ready_state_def h
    by (simp_all add: batch_sync_def ex_init_facts fine_def emit_def feedBraindead_def tick_def unsent_def is_offer_def is_read_def)
  have "bstep exEnv ?b (fst (handlePacket exEnv (pktOf pktINITACK []) ?b))"
    by (rule st_packet [of _ "pktOf pktINITACK []"]) (simp only: h fine_def fst_conv)
  then show "reachable exEnv demoSession tx_ready_state"
    unfolding tx_ready_state_def using ex_reachable(1) st_sync
    unfolding reachable_def by (meson rtranclp.rtrancl_into_rtrancl)
qed

lemma tx_announced_facts:
  "b_txState tx_announced_state = htxFinfoAck" "b_finfoAckWait tx_announced_state" "\<not> b_txEOB tx_announced_state"
  "b_txReader tx_announced_state = Some 1" "\<not> b_txSkip tx_announced_state" "b_txInfo tx_announced_state = offerInfo offerA"
  "b_blk tx_announced_state = newBlockSizer 0 2048" "\<not> list_ex is_read (s_log tx_announced_state)"
  "reachable exEnv demoSession tx_announced_state"
proof -
  define b1 where "b1 = prepareFinfo ((emit (EvNextFile (Some offerA)) tx_ready_state)\<lparr>b_txOffer := Some offerA\<rparr>)"
  have pull: "pullOffers exEnv tx_ready_state = Some ((emit (EvNextFile (Some offerA)) tx_ready_state)\<lparr>b_txOffer := Some offerA\<rparr>)"
    using tx_ready_facts unsent_offer
    by (subst pullOffers.simps) (simp add: Let_def offerA_def)
  have b1: "\<not> b_txEOB b1" "b_txReader b1 = Some 1" "\<not> b_txSkip b1" "b_txInfo b1 = offerInfo offerA"
    "b_blk b1 = newBlockSizer 0 2048" "\<not> list_ex is_read (s_log b1)"
    using tx_ready_facts(5) unsent_read [OF tx_ready_facts(6)]
    by (simp_all add: b1_def prepareFinfo_def emit_def is_read_def) (simp add: offerA_def)
  define p where "p = (case b_lastFinfo b1 of Some p \<Rightarrow> p | None \<Rightarrow> [])"
  define b2 where "b2 = fst (batch_write exEnv pktFINFO p b1)"
  have w: "batch_write exEnv pktFINFO p b1 = (b2, None)" unfolding b2_def by (rule write_exEnv)
  have "sendFinfo exEnv tx_ready_state = Some (batch_write exEnv pktFINFO p b1)"
    using tx_ready_facts(2) pull by (simp add: sendFinfo_def b1_def p_def)
  then have act: "txAction exEnv tx_ready_state
      = Some (fine ((armTx exEnv (b2\<lparr>b_finfoAckWait := True\<rparr>))\<lparr>b_txState := htxFinfoAck\<rparr>))"
    unfolding w using tx_ready_facts(1) by (simp add: txAction_def)
  show "b_txState tx_announced_state = htxFinfoAck" "b_finfoAckWait tx_announced_state" "\<not> b_txEOB tx_announced_state"
    "b_txReader tx_announced_state = Some 1" "\<not> b_txSkip tx_announced_state" "b_txInfo tx_announced_state = offerInfo offerA"
    "b_blk tx_announced_state = newBlockSizer 0 2048" "\<not> list_ex is_read (s_log tx_announced_state)"
    unfolding tx_announced_state_def act
    by (simp_all add: fine_def armTx_def set_txTimer_def tick_def Let_def b2_def fields_write log_write b1 is_read_def)
  have "bstep exEnv tx_ready_state tx_announced_state"
    by (rule st_txAction) (simp add: tx_announced_state_def act fine_def)
  with tx_ready_facts(7) show "reachable exEnv demoSession tx_announced_state"
    unfolding reachable_def by (rule rtranclp.rtrancl_into_rtrancl)
qed

lemma tx_accepted_facts:
  "b_txState tx_accepted_state = htxXdata" "b_txReader tx_accepted_state = Some 1" "\<not> b_txSkip tx_accepted_state"
  "b_txPos tx_accepted_state = 0" "b_blk tx_accepted_state = newBlockSizer 0 2048"
  "\<not> list_ex is_read (s_log tx_accepted_state)" "reachable exEnv demoSession tx_accepted_state"
proof -
  let ?p = "pktOf pktFINFOACK (marshalOffset 0)"
  have h: "snd (handlePacket exEnv ?p tx_announced_state) = None"
    and f: "b_txState tx_accepted_state = htxXdata" "b_txReader tx_accepted_state = Some 1" "\<not> b_txSkip tx_accepted_state"
    "b_txPos tx_accepted_state = 0" "b_blk tx_accepted_state = newBlockSizer 0 2048"
    "\<not> list_ex is_read (s_log tx_accepted_state)"
    using tx_announced_facts(1-8)
    by (simp_all add: tx_accepted_state_def handlePacket_def txFinfoAck_def pktOf_def emit_def feedBraindead_def
        tick_def fine_def Let_def is_read_def offerInfo_def offerA_def fits_int32_def)
  from f show "b_txState tx_accepted_state = htxXdata" "b_txReader tx_accepted_state = Some 1" "\<not> b_txSkip tx_accepted_state"
    "b_txPos tx_accepted_state = 0" "b_blk tx_accepted_state = newBlockSizer 0 2048"
    "\<not> list_ex is_read (s_log tx_accepted_state)" .
  have "bstep exEnv tx_announced_state tx_accepted_state"
    by (rule st_packet [of _ ?p]) (simp add: tx_accepted_state_def prod_eq_iff h del: pktFINFOACK_def)
  with tx_announced_facts(9) show "reachable exEnv demoSession tx_accepted_state"
    unfolding reachable_def by (rule rtranclp.rtrancl_into_rtrancl)
qed

definition frameA :: sent where
  "frameA = \<lparr>sn_packet = pktOf pktDATA (marshalData 0 (str ''abc'')), sn_opts = b_opts tx_accepted_state,
     sn_prefix = b_prefix tx_accepted_state\<rparr>"

lemma tx_sent_facts:
  "s_log tx_sent_state = (s_log tx_accepted_state @ [EvRead 1 (str ''abc'') (Some IoUnexpectedEOF)])
     @ EvSend frameA None # [EvSendProgress (b_txInfo tx_accepted_state) 3]"
  "reachable exEnv demoSession tx_sent_state"
proof -
  have size: "nat (bs_size (newBlockSizer 0 2048)) = 512" by (simp add: newBlockSizer_def bs_size_def Let_def)
  have act: "txAction exEnv tx_accepted_state = Some (sendData exEnv tx_accepted_state)"
    using tx_accepted_facts by (simp add: txAction_def)
  have h: "snd (sendData exEnv tx_accepted_state) = None"
    and l: "s_log (fst (sendData exEnv tx_accepted_state)) = (s_log tx_accepted_state @ [EvRead 1 (str ''abc'') (Some IoUnexpectedEOF)])
     @ EvSend frameA None # [EvSendProgress (b_txInfo tx_accepted_state) 3]"
    using tx_accepted_facts size
    by (simp_all add: sendData_def unread_source read_full_def batch_write_def writer_write_def sendData_sent_def
        emit_def fine_def armTx_def set_txTimer_def tick_def frameA_def pktOf_def Let_def)
  show "s_log tx_sent_state = (s_log tx_accepted_state @ [EvRead 1 (str ''abc'') (Some IoUnexpectedEOF)])
     @ EvSend frameA None # [EvSendProgress (b_txInfo tx_accepted_state) 3]"
    using l by (simp add: tx_sent_state_def act)
  have "bstep exEnv tx_accepted_state tx_sent_state"
    by (rule st_txAction) (simp add: tx_sent_state_def act prod_eq_iff h)
  with tx_accepted_facts(7) show "reachable exEnv demoSession tx_sent_state"
    unfolding reachable_def by (rule rtranclp.rtrancl_into_rtrancl)
qed

subsection \<open>The contracts in this exchange\<close>

lemma exchange_returns: "\<exists>b err. batch_run exEnv (newBatch demoSession) = Some (b, err)"
  using batch_run_returns [OF exEnv_progress demo_fresh] by auto


theorem send_files_completed_once_witness:
  "\<exists>b err. batch_run exEnv (newBatch demoSession) = Some (b, err)
    \<and> length (filter is_offer (s_log b)) = length (filter is_completed (s_log b))"
  using exchange_returns send_files_completed_once [OF demo_idle] by blast

theorem recv_files_completed_once_witness:
  "\<exists>b err. batch_run exEnv (newBatch demoSession) = Some (b, err)
    \<and> length (filter is_accept (s_log b)) = length (filter is_report (s_log b))"
  using exchange_returns recv_files_completed_once [OF demo_no_files] by blast

theorem data_frames_faithful_witness:
  "\<exists>ofr h pos p buf. send_trace (s_log tx_accepted_state @ [EvRead 1 (str ''abc'') (Some IoUnexpectedEOF)])
      = Some (SFile ofr h pos (Some (p, buf))) \<and> marshalData 0 (str ''abc'') = marshalData p buf"
  using data_frames_faithful [OF demo_idle tx_sent_facts(2,1)] by (auto simp: frameA_def pktOf_def)

theorem writes_in_place_witness:
  "\<exists>info pos p. recv_trace (s_log ex_finfo @ [EvRecv (pktOf pktDATA (marshalData 0 (str ''hi'')))])
      = Some (ROpen info 7 pos (Some p)) \<and> parseData (pkt_payload p) = Inr (pos, str ''hi'')"
  using writes_in_place [OF demo_no_files ex_reachable(3) ex_data_facts(6)] by blast

theorem success_needs_matching_eof_witness:
  "\<exists>p. recv_trace (s_log ex_data @ [EvRecv (pktOf pktEOF (marshalOffset 2)), EvWriterClose 7])
      = Some (RClosed (finfo_info peerFile 0) 2 (Some p)) \<and> parseOffset (pkt_payload p) = Inr 2"
  using success_needs_matching_eof [OF demo_no_files ex_reachable(4) ex_eof_facts(1)] by blast

theorem batch_memory_safe_witness:
  "nearestDeadline tx_accepted_state \<noteq> None \<and> b_txReader tx_accepted_state \<noteq> None
    \<and> bs_size (b_blk tx_accepted_state) \<le> int DataBufMax"
proof -
  have "in_transfer (b_txState tx_accepted_state)" by (simp add: tx_accepted_facts in_transfer_def)
  then show ?thesis using batch_memory_safe [OF demo_fresh demo_idle tx_accepted_facts(7)] by blast
qed

theorem sync_gate_witness: "htxFinfo \<le> b_txState tx_ready_state \<and> b_rxState tx_ready_state \<noteq> hrxInit"
  using sync_gate [OF demo_fresh tx_ready_facts(7)] tx_ready_facts(1) by simp

theorem options_agree_witness: "s_negotiated ex_init \<and> s_rxOpts ex_init = s_effOpts ex_init"
  using options_agree [OF demo_fresh ex_reachable(1)] ex_init_facts(1) by simp

theorem watchdog_fed_only_by_progress_witness: "productive_packet demoStart (ex_start\<lparr>b_braindead := Some 0\<rparr>)"
proof -
  let ?b = "ex_start\<lparr>b_braindead := Some 0\<rparr>"
  have h: "handlePacket exEnv demoStart ?b = fine ((feedBraindead exEnv (emit (EvRecv demoStart) ?b))
      \<lparr>b_txTimer := None, b_txRetries := 0, b_txState := htxInit\<rparr>)"
    by (simp add: handlePacket_def demoStart_def emit_def ex_start_facts Let_def)
  moreover have "cf_BrainDead (defaults None) = 120000000000" by (simp add: defaults_def zeroConfig_def Let_def)
  moreover have "b_braindead ((feedBraindead exEnv b)\<lparr>b_txTimer := None, b_txRetries := 0, b_txState := htxInit\<rparr>)
      = Some (int (s_clk b) + cf_BrainDead (s_config b))" for b
    by (simp add: feedBraindead_def tick_def time_now_def exEnv_def)
  ultimately show ?thesis
    by (intro watchdog_fed_only_by_progress [OF h [unfolded fine_def]]) (simp add: emit_def ex_start_facts)
qed

end
