(* ===== verification/Hydra_Retry.thy ===== *)
theory Hydra_Retry
  imports Hydra_Gate
begin

section \<open>Retry counters stay within the configured limit\<close>

text \<open>
  The three counters of a batch, transmit, receive and device, never pass
  \<open>Config.MaxRetries\<close> while the batch goes on: the increment that would pass it returns
  \<open>ErrMaxRetries\<close>, or ends the END exchange, where the batch is over and the transmit
  counter no longer matters.
\<close>

definition within :: "int \<Rightarrow> int \<Rightarrow> bool" where
  "within m k \<longleftrightarrow> 0 \<le> k \<and> k \<le> m"

definition retry_bound :: "int \<Rightarrow> batch \<Rightarrow> bool" where
  \<comment> \<open>\<open>d\<close> is the slack a failed increment leaves behind\<close>
  "retry_bound d b \<longleftrightarrow> 1 \<le> cf_MaxRetries (s_config b)
     \<and> (b_txState b = htxDone \<or> within (cf_MaxRetries (s_config b) + d) (b_txRetries b))
     \<and> within (cf_MaxRetries (s_config b) + d) (b_rxRetries b) \<and> within (cf_MaxRetries (s_config b) + d) (b_devRetries b)"

abbreviation retry_ok :: "batch \<Rightarrow> bool" where "retry_ok \<equiv> retry_bound 0"
abbreviation retry_weak :: "batch \<Rightarrow> bool" where "retry_weak \<equiv> retry_bound 1"
abbreviation retries :: "outcome \<Rightarrow> bool" where "retries \<equiv> post retry_ok retry_weak"

text \<open>The fields the bound does not mention.\<close>

lemma retry_frame [simp]:
  "retry_bound d (b\<lparr>s_rxOpts := x0\<rparr>) = retry_bound d b" "retry_bound d (b\<lparr>s_effOpts := x1\<rparr>) = retry_bound d b"
  "retry_bound d (b\<lparr>s_negotiated := x2\<rparr>) = retry_bound d b" "retry_bound d (b\<lparr>s_inbox := x3\<rparr>) = retry_bound d b"
  "retry_bound d (b\<lparr>s_readErr := x4\<rparr>) = retry_bound d b" "retry_bound d (b\<lparr>s_readerDone := x5\<rparr>) = retry_bound d b"
  "retry_bound d (b\<lparr>s_devQ := x6\<rparr>) = retry_bound d b" "retry_bound d (b\<lparr>s_aborted := x7\<rparr>) = retry_bound d b"
  "retry_bound d (b\<lparr>s_err := x8\<rparr>) = retry_bound d b" "retry_bound d (b\<lparr>s_started := x9\<rparr>) = retry_bound d b"
  "retry_bound d (b\<lparr>s_runActive := x10\<rparr>) = retry_bound d b" "retry_bound d (b\<lparr>s_closerSet := x11\<rparr>) = retry_bound d b"
  "retry_bound d (b\<lparr>s_closed := x12\<rparr>) = retry_bound d b" "retry_bound d (b\<lparr>s_ctx := x13\<rparr>) = retry_bound d b"
  "retry_bound d (b\<lparr>s_clk := x14\<rparr>) = retry_bound d b" "retry_bound d (b\<lparr>s_log := x15\<rparr>) = retry_bound d b"
  "retry_bound d (b\<lparr>b_opts := x16\<rparr>) = retry_bound d b" "retry_bound d (b\<lparr>b_txWindow := x17\<rparr>) = retry_bound d b"
  "retry_bound d (b\<lparr>b_rxWindow := x18\<rparr>) = retry_bound d b" "retry_bound d (b\<lparr>b_prefix := x19\<rparr>) = retry_bound d b"
  "retry_bound d (b\<lparr>b_productive := x20\<rparr>) = retry_bound d b" "retry_bound d (b\<lparr>b_txTimer := x21\<rparr>) = retry_bound d b"
  "retry_bound d (b\<lparr>b_devTimer := x22\<rparr>) = retry_bound d b" "retry_bound d (b\<lparr>b_braindead := x23\<rparr>) = retry_bound d b"
  "retry_bound d (b\<lparr>b_txSyncID := x24\<rparr>) = retry_bound d b" "retry_bound d (b\<lparr>b_blk := x25\<rparr>) = retry_bound d b"
  "retry_bound d (b\<lparr>b_txLastAck := x26\<rparr>) = retry_bound d b" "retry_bound d (b\<lparr>b_peerAcked := x27\<rparr>) = retry_bound d b"
  "retry_bound d (b\<lparr>b_hdxlink := x28\<rparr>) = retry_bound d b" "retry_bound d (b\<lparr>b_txOffer := x29\<rparr>) = retry_bound d b"
  "retry_bound d (b\<lparr>b_txReader := x30\<rparr>) = retry_bound d b" "retry_bound d (b\<lparr>b_txSeeker := x31\<rparr>) = retry_bound d b"
  "retry_bound d (b\<lparr>b_txInfo := x32\<rparr>) = retry_bound d b" "retry_bound d (b\<lparr>b_txPos := x33\<rparr>) = retry_bound d b"
  "retry_bound d (b\<lparr>b_txSkip := x34\<rparr>) = retry_bound d b" "retry_bound d (b\<lparr>b_txErr := x35\<rparr>) = retry_bound d b"
  "retry_bound d (b\<lparr>b_txEOB := x36\<rparr>) = retry_bound d b" "retry_bound d (b\<lparr>b_lastFinfo := x37\<rparr>) = retry_bound d b"
  "retry_bound d (b\<lparr>b_filesSent := x38\<rparr>) = retry_bound d b" "retry_bound d (b\<lparr>b_batchEnded := x39\<rparr>) = retry_bound d b"
  "retry_bound d (b\<lparr>b_finfoAckWait := x40\<rparr>) = retry_bound d b" "retry_bound d (b\<lparr>b_eofAckWait := x41\<rparr>) = retry_bound d b"
  "retry_bound d (b\<lparr>b_rxState := x42\<rparr>) = retry_bound d b" "retry_bound d (b\<lparr>b_filesRcvd := x43\<rparr>) = retry_bound d b"
  "retry_bound d (b\<lparr>b_lastRefusedFinfo := x44\<rparr>) = retry_bound d b" "retry_bound d (b\<lparr>b_lastRefusedAck := x45\<rparr>) = retry_bound d b"
  "retry_bound d (b\<lparr>b_rxWriter := x46\<rparr>) = retry_bound d b" "retry_bound d (b\<lparr>b_rxOpen := x47\<rparr>) = retry_bound d b"
  "retry_bound d (b\<lparr>b_rxInfo := x48\<rparr>) = retry_bound d b" "retry_bound d (b\<lparr>b_rxPos := x49\<rparr>) = retry_bound d b"
  "retry_bound d (b\<lparr>b_rxSyncID := x50\<rparr>) = retry_bound d b" "retry_bound d (b\<lparr>b_rxLastSync := x51\<rparr>) = retry_bound d b"
  "retry_bound d (b\<lparr>b_rxTimer := x52\<rparr>) = retry_bound d b" "retry_bound d (b\<lparr>b_rxBlkLen := x53\<rparr>) = retry_bound d b"
  "retry_bound d (b\<lparr>b_devState := x54\<rparr>) = retry_bound d b" "retry_bound d (b\<lparr>b_devTxID := x55\<rparr>) = retry_bound d b"
  "retry_bound d (b\<lparr>b_devRxID := x56\<rparr>) = retry_bound d b" "retry_bound d (b\<lparr>b_devPending := x57\<rparr>) = retry_bound d b"
  "retry_bound d (b\<lparr>b_devQueue := x58\<rparr>) = retry_bound d b"
  by (simp_all add: retry_bound_def)

lemma retry_weaken [simp]: "retry_ok b \<Longrightarrow> retry_weak b"
  by (auto simp: retry_bound_def within_def)

lemma retry_txState [simp]:
  "retry_bound d b \<Longrightarrow> b_txState b \<noteq> htxDone \<or> st = htxDone \<Longrightarrow> retry_bound d (b\<lparr>b_txState := st\<rparr>)"
  by (auto simp: retry_bound_def)

lemma retry_reset [simp]:
  "retry_ok b \<Longrightarrow> retry_ok (b\<lparr>b_txRetries := 0\<rparr>)" "retry_ok b \<Longrightarrow> retry_ok (b\<lparr>b_txRetries := 1\<rparr>)"
  "retry_ok b \<Longrightarrow> within (cf_MaxRetries (s_config b)) 0" "retry_ok b \<Longrightarrow> within (cf_MaxRetries (s_config b)) 1"
  "retry_ok b \<Longrightarrow> retry_ok (b\<lparr>b_devRetries := 0\<rparr>)"
  by (auto simp: retry_bound_def within_def)

text \<open>The three increments, before the check and after it.\<close>

lemma retry_next:
  "retry_ok b \<Longrightarrow> b_txRetries b + 1 \<le> cf_MaxRetries (s_config b) \<Longrightarrow> retry_ok (b\<lparr>b_txRetries := b_txRetries b + 1\<rparr>)"
  "retry_ok b \<Longrightarrow> b_rxRetries b + 1 \<le> cf_MaxRetries (s_config b) \<Longrightarrow> within (cf_MaxRetries (s_config b)) (b_rxRetries b + 1)"
  "retry_ok b \<Longrightarrow> b_devRetries b + 1 \<le> cf_MaxRetries (s_config b) \<Longrightarrow> retry_ok (b\<lparr>b_devRetries := b_devRetries b + 1\<rparr>)"
  "retry_ok b \<Longrightarrow> retry_weak (b\<lparr>b_txRetries := b_txRetries b + 1\<rparr>)"
  "retry_ok b \<Longrightarrow> within (cf_MaxRetries (s_config b) + 1) (b_rxRetries b + 1)"
  "retry_ok b \<Longrightarrow> retry_weak (b\<lparr>b_devRetries := b_devRetries b + 1\<rparr>)"
  by (auto simp: retry_bound_def within_def)

lemma retry_rx [simp]:
  "retry_ok b \<Longrightarrow> within (cf_MaxRetries (s_config b)) k \<Longrightarrow> retry_ok (b\<lparr>b_rxRetries := k\<rparr>)"
  "retry_ok b \<Longrightarrow> within (cf_MaxRetries (s_config b) + 1) k \<Longrightarrow> retry_weak (b\<lparr>b_rxRetries := k\<rparr>)"
  by (auto simp: retry_bound_def within_def)

lemma retry_done: "retry_ok b \<Longrightarrow> retry_ok (b\<lparr>b_txRetries := k, b_txState := htxDone\<rparr>)"
  by (simp add: retry_bound_def)

lemma retry_fallback: "retry_ok b \<Longrightarrow> retry_ok (b\<lparr>b_txState := retry_state (b_txState b)\<rparr>)"
  by (auto simp: retry_bound_def retry_state_def)

lemma transfer_alive [simp]: "in_transfer (b_txState b) \<Longrightarrow> b_txState b \<noteq> htxDone"
  by (auto simp: in_transfer_def)

subsection \<open>Blocks shared by the handlers\<close>

lemma retry_effects [simp]:
  "retry_bound d (emit e b) = retry_bound d b" "retry_bound d (tick b) = retry_bound d b"
  "retry_bound d (feedBraindead E b) = retry_bound d b"
  "retry_bound d (set_txTimer E t b) = retry_bound d b" "retry_bound d (armTx E b) = retry_bound d b"
  by (simp_all add: emit_def tick_def feedBraindead_def set_txTimer_def armTx_def Let_def)

lemma retry_writer [simp]: "retry_ok b \<Longrightarrow> retries (writer_write E s b)"
  by (simp add: post_writer_write split: option.split)

lemma retry_write [simp]: "retry_ok b \<Longrightarrow> retries (batch_write E t p b)"
  by (simp add: batch_write_def)

lemma retry_then_fine:
  "retries r \<Longrightarrow> (\<And>b. retry_ok b \<Longrightarrow> retry_ok (f b)) \<Longrightarrow> retries (andThen r (\<lambda>b. fine (f b)))"
  by (rule post_andThen [where J = retry_ok]) simp_all

lemma retry_write_state:
  "retry_ok b \<Longrightarrow> post (\<lambda>b'. retry_ok b' \<and> b_txState b' = b_txState b) retry_weak (batch_write E t p b)"
  by (simp add: batch_write_def post_writer_write split: option.split) (simp add: emit_def)

lemma retry_then_state:
  assumes "post (\<lambda>b'. retry_ok b' \<and> b_txState b' = st) retry_weak r"
    and "\<And>b. retry_ok b \<Longrightarrow> b_txState b = st \<Longrightarrow> retry_ok (f b)"
  shows "retries (andThen r (\<lambda>b. fine (f b)))"
  by (rule post_andThen [OF assms(1)]) (simp add: assms(2))

lemma retry_times_state:
  "retry_ok b \<Longrightarrow> post (\<lambda>b'. retry_ok b' \<and> b_txState b' = b_txState b) retry_weak (write_times n E t b)"
proof (induction n arbitrary: b)
  case (Suc n)
  show ?case unfolding write_times.simps
  proof (rule post_andThen [OF retry_write_state [OF Suc.prems]])
    fix b' assume "retry_ok b' \<and> b_txState b' = b_txState b"
    with Suc.IH [of b'] show "post (\<lambda>b'. retry_ok b' \<and> b_txState b' = b_txState b) retry_weak (write_times n E t b')"
      by simp
  qed
qed simp

lemma retry_rx_blocks [simp]:
  "retry_bound d (closeWriter w b) = retry_bound d b" "retry_bound d (recvCompleted i n e b) = retry_bound d b"
  "retry_bound d (rxCloseFile x b) = retry_bound d b"
  by (simp_all add: closeWriter_def recvCompleted_def rxCloseFile_def Let_def split: option.split)

lemma retry_tx_blocks [simp]:
  "retry_bound d (closeOffer ofr b) = retry_bound d b" "retry_bound d (closeTxOffer b) = retry_bound d b"
  "retry_bound d (sendCompleted n e b) = retry_bound d b"
  "retry_bound d (rejectOffer ofr x b) = retry_bound d b" "retry_bound d (prepareFinfo b) = retry_bound d b"
  "retry_bound d (queueDev req b) = retry_bound d b"
  by (simp_all add: closeOffer_def closeTxOffer_def sendCompleted_def
      rejectOffer_def prepareFinfo_def queueDev_def Let_def split: option.split)

lemma tx_state_blocks [simp]:
  "b_txState (emit e b) = b_txState b" "b_txState (closeTxOffer b) = b_txState b"
  "b_txState (sendCompleted n x b) = b_txState b" "b_txState (tick b) = b_txState b"
  by (simp_all add: emit_def closeTxOffer_def closeOffer_def sendCompleted_def tick_def split: option.split)

lemma retry_skip [simp]: "retry_ok b \<Longrightarrow> b_txState b \<noteq> htxDone \<Longrightarrow> retry_ok (skipToEOF e b)"
  by (simp add: skipToEOF_def)

lemma retry_finish [simp]: "retry_ok b \<Longrightarrow> b_txState b \<noteq> htxDone \<Longrightarrow> retry_ok (finishTxFile b)"
  by (simp add: finishTxFile_def Let_def)

lemma config_blocks [simp]:
  "s_config (emit e b) = s_config b" "s_config (tick b) = s_config b" "s_config (feedBraindead E b) = s_config b"
  "s_config (rxCloseFile x b) = s_config b"
  by (simp_all add: emit_def tick_def feedBraindead_def rxCloseFile_def closeWriter_def recvCompleted_def Let_def
      split: option.split)

subsection \<open>The handlers\<close>

lemma retry_requestSkip: "retry_ok b \<Longrightarrow> retries (requestSkip E e b)"
  by (simp add: requestSkip_def Let_def)

lemma retry_badPosition: "retry_ok b \<Longrightarrow> retries (badPosition E off eof b)"
  by (simp add: badPosition_def Let_def retry_next split: option.split)

lemma retry_rxInit: "retry_ok b \<Longrightarrow> retries (rxInit E pkt b)"
proof -
  assume b: "retry_ok b"
  have neg: "retries (negotiate p b)" for p
    using b by (simp add: negotiate_def Let_def)
  have "retries (if b_rxState b = hrxInit then
          (case parseInit (pkt_payload pkt) of
             Inl _ \<Rightarrow> fine b
           | Inr p \<Rightarrow> andThen (negotiate p b) (\<lambda>b. fine (b\<lparr>b_rxState := hrxFinfo\<rparr>)))
        else fine b)"
    using b retry_then_fine [OF neg] by (simp split: sum.split)
  then show ?thesis unfolding rxInit_def by (rule post_andThen) (rule retry_write)
qed

lemma retry_acceptFinfo: "retry_ok b \<Longrightarrow> acceptFinfo E payload b = (ack, b') \<Longrightarrow> retry_ok b'"
  by (auto simp: acceptFinfo_def Let_def split: sum.splits prod.splits option.splits if_splits)

lemma retry_rxFinfo: "retry_ok b \<Longrightarrow> retries (rxFinfo E pkt b)"
proof -
  assume b: "retry_ok b"
  have "retry_ok b'" if "acceptFinfo E p (feedBraindead E b) = (ack, b')" for p ack b'
    using retry_acceptFinfo [OF _ that] b by simp
  with b show ?thesis by (auto simp: rxFinfo_def Let_def split: rxState.split prod.split)
qed

lemma retry_rxData: "retry_ok b \<Longrightarrow> retries (rxData E pkt b)"
proof -
  assume b: "retry_ok b"
  have "retry_ok b'" if "rxWrite E data ((feedBraindead E b)\<lparr>b_rxBlkLen := n\<rparr>) = (b', r)" for data n b' r
    using that b by (auto simp: rxWrite_def Let_def split: option.splits)
  with b show ?thesis
    by (auto simp: rxData_def Let_def retry_badPosition retry_requestSkip
        split: sum.split prod.split option.split)
qed

lemma retry_rxEOF: "retry_ok b \<Longrightarrow> retries (rxEOF E pkt b)"
  by (simp add: rxEOF_def retry_badPosition split: rxState.split sum.split)

lemma retry_txFinfoAck: "retry_ok b \<Longrightarrow> retries (txFinfoAck E pkt b)"
  by (auto simp: txFinfoAck_def Let_def split: sum.split option.split)

lemma retry_txDataAck: "retry_ok b \<Longrightarrow> retry_ok (txDataAck pkt b)"
  by (simp add: txDataAck_def Let_def split: sum.split)

lemma retry_txRpos: "retry_ok b \<Longrightarrow> retries (txRpos E pkt b)"
  by (simp add: txRpos_def Let_def retry_next split: sum.split option.split)

lemma retry_txEOFAck: "retry_ok b \<Longrightarrow> retry_ok (txEOFAck E b)"
  by (auto simp: txEOFAck_def Let_def split: option.split)

lemma retry_txIdle: "retry_ok b \<Longrightarrow> retry_ok (txIdle E b)"
  by (simp add: txIdle_def)

lemma retry_txEnd: "retry_ok b \<Longrightarrow> retries (txEnd E b)"
  by (auto simp: txEnd_def intro!: retry_then_state [OF retry_times_state])

lemma retry_devRx: "retry_ok b \<Longrightarrow> retries (devRx E pkt b)"
  by (simp add: devRx_def Let_def split: sum.split)

lemma retry_devDack: "retry_ok b \<Longrightarrow> retry_ok (devDack pkt b)"
  by (simp add: devDack_def split: sum.split option.split)

lemma retry_packet: "retry_ok b \<Longrightarrow> retries (handlePacket E pkt b)"
  by (simp add: handlePacket_def Let_def retry_rxInit retry_rxFinfo retry_txFinfoAck retry_rxData
      retry_txDataAck retry_txRpos retry_rxEOF retry_txEOFAck retry_txIdle retry_txEnd
      retry_devRx retry_devDack)

lemma retry_sync: "retry_ok b \<Longrightarrow> retry_ok (batch_sync E b)"
  by (simp add: batch_sync_def)

lemma retry_txTimeout: "retry_ok b \<Longrightarrow> retries (txTimeout E b)"
proof -
  assume b: "retry_ok b"
  have "retries (andThen (batch_write E pktIDLE [] b) (\<lambda>b. fine (set_txTimer E (batch_idle b) b)))"
    using b by (simp add: retry_then_fine)
  moreover have "retry_ok (b\<lparr>b_txRetries := k, b_txState := htxDone\<rparr>)" for k using b by (rule retry_done)
  moreover have "b_txRetries b + 1 \<le> cf_MaxRetries (s_config b) \<Longrightarrow>
      retry_ok (b\<lparr>b_txRetries := b_txRetries b + 1, b_txState := retry_state (b_txState b)\<rparr>)"
    using retry_fallback [OF retry_next(1) [OF b]] by simp
  ultimately show ?thesis using b by (simp add: txTimeout_def Let_def retry_next)
qed

lemma retry_devTimeout: "retry_ok b \<Longrightarrow> retries (devTimeout b)"
  by (simp add: devTimeout_def Let_def retry_next)

lemma retry_devAction: "retry_ok b \<Longrightarrow> retries (devAction E b)"
proof -
  assume "retry_ok b"
  then have "retry_ok (devPromote b)" by (simp add: devPromote_def split: list.split)
  then show ?thesis by (simp add: devAction_def Let_def retry_then_fine split: option.split)
qed

lemma retry_pull:
  "pullOffers E b = Some b' \<Longrightarrow> retry_ok b \<and> b_txState b = st \<Longrightarrow> retry_ok b' \<and> b_txState b' = st"
  by (erule pullOffers_rule [where I = "\<lambda>b. retry_ok b \<and> b_txState b = st"]) (simp_all add: rejectOffer_def closeOffer_def)

lemma retry_sendData: "retry_ok b \<Longrightarrow> b_txState b = htxXdata \<Longrightarrow> retries (sendData E b)"
proof -
  assume b: "retry_ok b" "b_txState b = htxXdata"
  have sent: "retries (sendData_sent E n b')" if "retry_ok b'" "b_txState b' = htxXdata" for n b'
    using that by (simp add: sendData_sent_def Let_def)
  have "retries (andThen (batch_write E pktDATA p b') (sendData_sent E n))"
    if "retry_ok b'" "b_txState b' = htxXdata" for p n b'
    by (rule post_andThen [OF retry_write_state [OF that(1)]]) (simp add: sent that(2))
  with b show ?thesis by (simp add: sendData_def Let_def split: option.split)
qed

lemma retry_sendFinfo:
  "retry_ok b \<Longrightarrow> b_txState b = st \<Longrightarrow> sendFinfo E b = Some r \<Longrightarrow>
    post (\<lambda>b'. retry_ok b' \<and> b_txState b' = st) retry_weak r"
proof -
  assume b: "retry_ok b" "b_txState b = st" and r: "sendFinfo E b = Some r"
  have prep: "retry_ok b1 \<and> b_txState b1 = st \<Longrightarrow> retry_ok (prepareFinfo b1) \<and> b_txState (prepareFinfo b1) = st" for b1
    by (simp add: prepareFinfo_def split: option.split)
  from r obtain b1 where "(if b_lastFinfo b = None then map_option prepareFinfo (pullOffers E b) else Some b) = Some b1"
    "r = batch_write E pktFINFO (case b_lastFinfo b1 of Some p \<Rightarrow> p | None \<Rightarrow> []) b1"
    by (auto simp: sendFinfo_def split: option.splits)
  moreover from this b have "retry_ok b1 \<and> b_txState b1 = st"
    using retry_pull [of E b _ st] prep by (auto split: if_splits)
  ultimately show ?thesis using retry_write_state [of b1] by simp
qed

lemma retry_txAction: "retry_ok b \<Longrightarrow> txAction E b = Some r \<Longrightarrow> retries r"
proof -
  assume b: "retry_ok b" and r: "txAction E b = Some r"
  show ?thesis
  proof (cases "b_txState b")
    case htxStart
    have "post (\<lambda>b'. retry_ok b' \<and> b_txState b' = htxStart) retry_weak (writeRaw E autostart b)"
      using b htxStart by (simp add: post_writeRaw split: option.split)
    then have "retries (andThen (writeRaw E autostart b) (\<lambda>b. andThen (batch_write E pktSTART [] b) (\<lambda>b.
        fine ((set_txTimer E startInterval b)\<lparr>b_txState := htxSwait\<rparr>))))"
    proof (rule post_andThen)
      fix b' assume b': "retry_ok b' \<and> b_txState b' = htxStart"
      then show "retries (andThen (batch_write E pktSTART [] b') (\<lambda>b.
          fine ((set_txTimer E startInterval b)\<lparr>b_txState := htxSwait\<rparr>)))"
        by (intro retry_then_state [OF retry_write_state]) simp_all
    qed
    with htxStart r show ?thesis by (simp add: txAction_def)
  next
    case htxInit
    have "post (\<lambda>b'. retry_ok b' \<and> b_txState b' = htxInit) retry_weak (sendInit E b)"
      using b htxInit by (simp add: sendInit_def Let_def post_writer_write split: option.split)
    then have "retries (andThen (sendInit E b) (\<lambda>b.
          fine ((set_txTimer E (cf_Timeout (s_config b) div 2) b)\<lparr>b_txState := htxInitAck\<rparr>)))"
      by (rule retry_then_state) simp
    with htxInit r show ?thesis by (simp add: txAction_def)
  next
    case htxFinfo
    then obtain r1 where r1: "sendFinfo E b = Some r1"
      "r = andThen r1 (\<lambda>b. fine ((armTx E (b\<lparr>b_finfoAckWait := True\<rparr>))\<lparr>b_txState := htxFinfoAck\<rparr>))"
      using r by (auto simp: txAction_def)
    show ?thesis unfolding r1(2)
      by (rule retry_then_state [OF retry_sendFinfo [OF b htxFinfo r1(1)]]) simp
  next
    case htxEOF
    have "retries (andThen (batch_write E pktEOF p b) (\<lambda>b.
          fine ((armTx E (b\<lparr>b_eofAckWait := True\<rparr>))\<lparr>b_txState := htxEOFAck\<rparr>)))" for p
      by (rule retry_then_state [OF retry_write_state [OF b]]) (simp add: htxEOF)
    with htxEOF r show ?thesis by (auto simp: txAction_def)
  next
    case htxEnd
    have "retries (andThen (write_times endInitialCount E pktEND b) (\<lambda>b.
          fine ((set_txTimer E (cf_Timeout (s_config b) div 2) b)\<lparr>b_txState := htxEndAck\<rparr>)))"
      by (rule retry_then_state [OF retry_times_state [OF b]]) (simp add: htxEnd)
    with htxEnd r show ?thesis by (auto simp: txAction_def)
  qed (use b r in \<open>auto simp: txAction_def retry_sendData\<close>)
qed

lemma retry_absorb: "retry_ok b \<Longrightarrow> retry_ok (absorb E x b)"
  by (cases x)
    (simp_all add: SendDevice_def Abort_def Close_def session_close_def courtesyCancel_def triggerAbort_def
      recordError_def writeRaw_def Let_def split: prod.split bool.split)

interpretation retry: batch_invariant E retry_ok retry_weak for E
proof unfold_locales
  fix b dq req
  assume "retry_ok b"
  then show "retry_ok (queueDev req (b\<lparr>s_devQ := dq\<rparr>))" by simp
qed (simp_all add: retry_absorb retry_sync retry_packet retry_txTimeout retry_devTimeout
    retry_devAction retry_txAction)

lemma retry_start: "1 \<le> cf_MaxRetries (s_config s) \<Longrightarrow> retry_ok (batch_start E s)"
proof -
  assume "1 \<le> cf_MaxRetries (s_config s)"
  then have "retry_ok (newBatch s)" by (simp add: newBatch_def retry_bound_def within_def session.defs Let_def)
  then show ?thesis by (simp add: batch_start_def)
qed

subsection \<open>The property\<close>

text \<open>
  Property C11. Retries are bounded: in every state of a batch that is not over, the transmit,
  receive and device counters lie between 0 and \<open>Config.MaxRetries\<close>, so no packet is
  repeated more often in a row without an answer. The hypothesis holds of every configuration \<open>NewSession\<close> makes.
\<close>

theorem retries_bounded:
  assumes "1 \<le> cf_MaxRetries (s_config s)" and "reachable E s b" and "b_txState b \<noteq> htxDone"
  shows "0 \<le> b_txRetries b \<and> b_txRetries b \<le> cf_MaxRetries (s_config b)
    \<and> 0 \<le> b_rxRetries b \<and> b_rxRetries b \<le> cf_MaxRetries (s_config b)
    \<and> 0 \<le> b_devRetries b \<and> b_devRetries b \<le> cf_MaxRetries (s_config b)"
proof -
  have "retry_ok b"
    using retry.breach_keeps [OF _ retry_start [OF assms(1)]] assms(2) by (simp add: reachable_def)
  with assms(3) show ?thesis by (simp add: retry_bound_def within_def)
qed

theorem retries_bounded_witness: "0 \<le> b_txRetries demoBatch \<and> b_txRetries demoBatch \<le> 10"
proof -
  have c: "s_config demoBatch = defaults None"
    by (simp add: demoBatch_def handlePacket_def demoStart_def Let_def fine_def batch_start_def newBatch_def
        session.defs demoSession_def run_setup_def NewSession_def)
  have "cf_MaxRetries (defaults None) = 10" by (simp add: defaults_def zeroConfig_def Let_def)
  moreover have "s_config demoSession = defaults None"
    by (simp add: demoSession_def run_setup_def NewSession_def)
  ultimately show ?thesis using retries_bounded [OF _ demo_reachable] c demo_state by simp
qed

end
