(* ===== verification/Hydra_Finish.thy ===== *)
theory Hydra_Finish
  imports Hydra_Gate
begin

section \<open>What a successful batch means\<close>

text \<open>
  \<open>Run\<close> returns nil after the END exchange, after the retries of the END exchange are
  exhausted, or when the transport fails during it. In each case both directions had ended:
  the application had no more files, the peer was told so, and the peer had said the same.
  The invariant ties the states of the two machines to what the log of the batch, which
  begins after the log \<open>L\<close> of the session so far, has recorded.
\<close>

subsection \<open>The invariant\<close>

definition seen :: "event list \<Rightarrow> (event \<Rightarrow> bool) \<Rightarrow> batch \<Rightarrow> bool" where
  "seen L P b \<longleftrightarrow> list_ex P (drop (length L) (s_log b))"

definition local_eob :: "event \<Rightarrow> bool" where
  "local_eob e \<longleftrightarrow> (case e of EvNextFile None \<Rightarrow> True | _ \<Rightarrow> False)"

definition sent_frame :: "byte \<Rightarrow> byte list \<Rightarrow> event \<Rightarrow> bool" where
  \<comment> \<open>a frame with this type and payload that the transport took\<close>
  "sent_frame t p e \<longleftrightarrow> (case e of EvSend f None \<Rightarrow> sn_packet f = \<lparr>pkt_typ = t, pkt_payload = p\<rparr> | _ \<Rightarrow> False)"

definition peer_eob :: "event \<Rightarrow> bool" where
  "peer_eob e \<longleftrightarrow> (case e of EvRecv p \<Rightarrow> pkt_typ p = pktFINFO \<and> isFinfoEOB (pkt_payload p) | _ \<Rightarrow> False)"

definition rx_settled :: "event list \<Rightarrow> batch \<Rightarrow> bool" where
  "rx_settled L b \<longleftrightarrow> take (length L) (s_log b) = L \<and> (b_rxState b = hrxDone \<longrightarrow> seen L peer_eob b)"

definition eob_settled :: "event list \<Rightarrow> batch \<Rightarrow> bool" where
  "eob_settled L b \<longleftrightarrow> (b_batchEnded b \<longrightarrow> seen L local_eob b) \<and> (b_txEOB b \<longrightarrow> seen L local_eob b)
     \<and> (b_finfoAckWait b \<longrightarrow> b_lastFinfo b \<noteq> None)
     \<and> (b_txEOB b \<and> b_lastFinfo b \<noteq> None \<longrightarrow> b_lastFinfo b = Some finfoEOB)
     \<and> (b_txEOB b \<and> b_finfoAckWait b \<longrightarrow> seen L (sent_frame pktFINFO finfoEOB) b)"

definition told :: "event list \<Rightarrow> batch \<Rightarrow> bool" where
  \<comment> \<open>the application has ended its batch and the peer was told\<close>
  "told L b \<longleftrightarrow> seen L local_eob b \<and> seen L (sent_frame pktFINFO finfoEOB) b"

definition tx_settled :: "event list \<Rightarrow> batch \<Rightarrow> bool" where
  "tx_settled L b \<longleftrightarrow> (htxRend \<le> b_txState b \<longrightarrow> told L b)"

definition settled :: "event list \<Rightarrow> batch \<Rightarrow> bool" where
  "settled L b \<longleftrightarrow> rx_settled L b \<and> eob_settled L b \<and> tx_settled L b"

abbreviation settles :: "event list \<Rightarrow> outcome \<Rightarrow> bool" where
  "settles L \<equiv> post (settled L) (settled L)"

text \<open>The fields the invariant does not mention.\<close>

lemma told_frame [simp]:
  "told L (b\<lparr>s_config := x0\<rparr>) = told L b" "told L (b\<lparr>s_rxOpts := x1\<rparr>) = told L b"
  "told L (b\<lparr>s_effOpts := x2\<rparr>) = told L b" "told L (b\<lparr>s_negotiated := x3\<rparr>) = told L b"
  "told L (b\<lparr>s_inbox := x4\<rparr>) = told L b" "told L (b\<lparr>s_readErr := x5\<rparr>) = told L b"
  "told L (b\<lparr>s_readerDone := x6\<rparr>) = told L b" "told L (b\<lparr>s_devQ := x7\<rparr>) = told L b"
  "told L (b\<lparr>s_aborted := x8\<rparr>) = told L b" "told L (b\<lparr>s_err := x9\<rparr>) = told L b"
  "told L (b\<lparr>s_started := x10\<rparr>) = told L b" "told L (b\<lparr>s_runActive := x11\<rparr>) = told L b"
  "told L (b\<lparr>s_closerSet := x12\<rparr>) = told L b" "told L (b\<lparr>s_closed := x13\<rparr>) = told L b"
  "told L (b\<lparr>s_ctx := x14\<rparr>) = told L b" "told L (b\<lparr>s_clk := x15\<rparr>) = told L b"
  "told L (b\<lparr>b_opts := x16\<rparr>) = told L b" "told L (b\<lparr>b_txWindow := x17\<rparr>) = told L b"
  "told L (b\<lparr>b_rxWindow := x18\<rparr>) = told L b" "told L (b\<lparr>b_prefix := x19\<rparr>) = told L b"
  "told L (b\<lparr>b_productive := x20\<rparr>) = told L b" "told L (b\<lparr>b_txTimer := x21\<rparr>) = told L b"
  "told L (b\<lparr>b_devTimer := x22\<rparr>) = told L b" "told L (b\<lparr>b_braindead := x23\<rparr>) = told L b"
  "told L (b\<lparr>b_txState := x24\<rparr>) = told L b" "told L (b\<lparr>b_txRetries := x25\<rparr>) = told L b"
  "told L (b\<lparr>b_txSyncID := x26\<rparr>) = told L b" "told L (b\<lparr>b_blk := x27\<rparr>) = told L b"
  "told L (b\<lparr>b_txLastAck := x28\<rparr>) = told L b" "told L (b\<lparr>b_peerAcked := x29\<rparr>) = told L b"
  "told L (b\<lparr>b_hdxlink := x30\<rparr>) = told L b" "told L (b\<lparr>b_txOffer := x31\<rparr>) = told L b"
  "told L (b\<lparr>b_txReader := x32\<rparr>) = told L b" "told L (b\<lparr>b_txSeeker := x33\<rparr>) = told L b"
  "told L (b\<lparr>b_txInfo := x34\<rparr>) = told L b" "told L (b\<lparr>b_txPos := x35\<rparr>) = told L b"
  "told L (b\<lparr>b_txSkip := x36\<rparr>) = told L b" "told L (b\<lparr>b_txErr := x37\<rparr>) = told L b"
  "told L (b\<lparr>b_txEOB := x38\<rparr>) = told L b" "told L (b\<lparr>b_lastFinfo := x39\<rparr>) = told L b"
  "told L (b\<lparr>b_filesSent := x40\<rparr>) = told L b" "told L (b\<lparr>b_batchEnded := x41\<rparr>) = told L b"
  "told L (b\<lparr>b_finfoAckWait := x42\<rparr>) = told L b" "told L (b\<lparr>b_eofAckWait := x43\<rparr>) = told L b"
  "told L (b\<lparr>b_rxState := x44\<rparr>) = told L b" "told L (b\<lparr>b_filesRcvd := x45\<rparr>) = told L b"
  "told L (b\<lparr>b_lastRefusedFinfo := x46\<rparr>) = told L b" "told L (b\<lparr>b_lastRefusedAck := x47\<rparr>) = told L b"
  "told L (b\<lparr>b_rxWriter := x48\<rparr>) = told L b" "told L (b\<lparr>b_rxOpen := x49\<rparr>) = told L b"
  "told L (b\<lparr>b_rxInfo := x50\<rparr>) = told L b" "told L (b\<lparr>b_rxPos := x51\<rparr>) = told L b"
  "told L (b\<lparr>b_rxRetries := x52\<rparr>) = told L b" "told L (b\<lparr>b_rxSyncID := x53\<rparr>) = told L b"
  "told L (b\<lparr>b_rxLastSync := x54\<rparr>) = told L b" "told L (b\<lparr>b_rxTimer := x55\<rparr>) = told L b"
  "told L (b\<lparr>b_rxBlkLen := x56\<rparr>) = told L b" "told L (b\<lparr>b_devState := x57\<rparr>) = told L b"
  "told L (b\<lparr>b_devRetries := x58\<rparr>) = told L b" "told L (b\<lparr>b_devTxID := x59\<rparr>) = told L b"
  "told L (b\<lparr>b_devRxID := x60\<rparr>) = told L b" "told L (b\<lparr>b_devPending := x61\<rparr>) = told L b"
  "told L (b\<lparr>b_devQueue := x62\<rparr>) = told L b"
  by (simp_all add: told_def seen_def)

lemma settled_frame [simp]:
  "settled L (b\<lparr>s_config := x0\<rparr>) = settled L b" "settled L (b\<lparr>s_rxOpts := x1\<rparr>) = settled L b"
  "settled L (b\<lparr>s_effOpts := x2\<rparr>) = settled L b" "settled L (b\<lparr>s_negotiated := x3\<rparr>) = settled L b"
  "settled L (b\<lparr>s_inbox := x4\<rparr>) = settled L b" "settled L (b\<lparr>s_readErr := x5\<rparr>) = settled L b"
  "settled L (b\<lparr>s_readerDone := x6\<rparr>) = settled L b" "settled L (b\<lparr>s_devQ := x7\<rparr>) = settled L b"
  "settled L (b\<lparr>s_aborted := x8\<rparr>) = settled L b" "settled L (b\<lparr>s_err := x9\<rparr>) = settled L b"
  "settled L (b\<lparr>s_started := x10\<rparr>) = settled L b" "settled L (b\<lparr>s_runActive := x11\<rparr>) = settled L b"
  "settled L (b\<lparr>s_closerSet := x12\<rparr>) = settled L b" "settled L (b\<lparr>s_closed := x13\<rparr>) = settled L b"
  "settled L (b\<lparr>s_ctx := x14\<rparr>) = settled L b" "settled L (b\<lparr>s_clk := x15\<rparr>) = settled L b"
  "settled L (b\<lparr>b_opts := x16\<rparr>) = settled L b" "settled L (b\<lparr>b_txWindow := x17\<rparr>) = settled L b"
  "settled L (b\<lparr>b_rxWindow := x18\<rparr>) = settled L b" "settled L (b\<lparr>b_prefix := x19\<rparr>) = settled L b"
  "settled L (b\<lparr>b_productive := x20\<rparr>) = settled L b" "settled L (b\<lparr>b_txTimer := x21\<rparr>) = settled L b"
  "settled L (b\<lparr>b_devTimer := x22\<rparr>) = settled L b" "settled L (b\<lparr>b_braindead := x23\<rparr>) = settled L b"
  "settled L (b\<lparr>b_txRetries := x24\<rparr>) = settled L b" "settled L (b\<lparr>b_txSyncID := x25\<rparr>) = settled L b"
  "settled L (b\<lparr>b_blk := x26\<rparr>) = settled L b" "settled L (b\<lparr>b_txLastAck := x27\<rparr>) = settled L b"
  "settled L (b\<lparr>b_peerAcked := x28\<rparr>) = settled L b" "settled L (b\<lparr>b_hdxlink := x29\<rparr>) = settled L b"
  "settled L (b\<lparr>b_txOffer := x30\<rparr>) = settled L b" "settled L (b\<lparr>b_txReader := x31\<rparr>) = settled L b"
  "settled L (b\<lparr>b_txSeeker := x32\<rparr>) = settled L b" "settled L (b\<lparr>b_txInfo := x33\<rparr>) = settled L b"
  "settled L (b\<lparr>b_txPos := x34\<rparr>) = settled L b" "settled L (b\<lparr>b_txSkip := x35\<rparr>) = settled L b"
  "settled L (b\<lparr>b_txErr := x36\<rparr>) = settled L b" "settled L (b\<lparr>b_filesSent := x37\<rparr>) = settled L b"
  "settled L (b\<lparr>b_eofAckWait := x38\<rparr>) = settled L b" "settled L (b\<lparr>b_filesRcvd := x39\<rparr>) = settled L b"
  "settled L (b\<lparr>b_lastRefusedFinfo := x40\<rparr>) = settled L b" "settled L (b\<lparr>b_lastRefusedAck := x41\<rparr>) = settled L b"
  "settled L (b\<lparr>b_rxWriter := x42\<rparr>) = settled L b" "settled L (b\<lparr>b_rxOpen := x43\<rparr>) = settled L b"
  "settled L (b\<lparr>b_rxInfo := x44\<rparr>) = settled L b" "settled L (b\<lparr>b_rxPos := x45\<rparr>) = settled L b"
  "settled L (b\<lparr>b_rxRetries := x46\<rparr>) = settled L b" "settled L (b\<lparr>b_rxSyncID := x47\<rparr>) = settled L b"
  "settled L (b\<lparr>b_rxLastSync := x48\<rparr>) = settled L b" "settled L (b\<lparr>b_rxTimer := x49\<rparr>) = settled L b"
  "settled L (b\<lparr>b_rxBlkLen := x50\<rparr>) = settled L b" "settled L (b\<lparr>b_devState := x51\<rparr>) = settled L b"
  "settled L (b\<lparr>b_devRetries := x52\<rparr>) = settled L b" "settled L (b\<lparr>b_devTxID := x53\<rparr>) = settled L b"
  "settled L (b\<lparr>b_devRxID := x54\<rparr>) = settled L b" "settled L (b\<lparr>b_devPending := x55\<rparr>) = settled L b"
  "settled L (b\<lparr>b_devQueue := x56\<rparr>) = settled L b"
  by (simp_all add: settled_def rx_settled_def eob_settled_def tx_settled_def told_def seen_def)

lemma seen_emit: "seen L P b \<Longrightarrow> seen L P (emit e b)"
  by (simp add: seen_def emit_def)

lemma told_emit [simp]: "told L b \<Longrightarrow> told L (emit e b)"
  by (simp add: told_def seen_emit)

lemma settled_emit [simp]: "settled L b \<Longrightarrow> settled L (emit e b)"
proof -
  assume b: "settled L b"
  then have t: "take (length L) (s_log b) = L" by (simp add: settled_def rx_settled_def)
  then have "length L \<le> length (s_log b)" by (metis length_take min.cobounded2 min.commute)
  with t have l: "take (length L) (s_log (emit e b)) = L" by (simp add: emit_def)
  have f: "b_rxState (emit e b) = b_rxState b" "b_batchEnded (emit e b) = b_batchEnded b"
    "b_txEOB (emit e b) = b_txEOB b" "b_finfoAckWait (emit e b) = b_finfoAckWait b"
    "b_lastFinfo (emit e b) = b_lastFinfo b" "b_txState (emit e b) = b_txState b"
    by (simp_all add: emit_def)
  have "rx_settled L (emit e b)" using b l seen_emit [of L peer_eob b e]
    by (simp add: settled_def rx_settled_def f)
  moreover have "eob_settled L (emit e b)"
    using b seen_emit [of L local_eob b e] seen_emit [of L "sent_frame pktFINFO finfoEOB" b e]
    by (simp add: settled_def eob_settled_def f)
  moreover have "tx_settled L (emit e b)" using b told_emit [of L b e]
    by (simp add: settled_def tx_settled_def f)
  ultimately show ?thesis by (simp add: settled_def)
qed

lemma emit_fields [simp]:
  "b_lastFinfo (emit e b) = b_lastFinfo b" "b_txOffer (emit e b) = b_txOffer b"
  by (simp_all add: emit_def)

lemma seen_new: "settled L b \<Longrightarrow> P e \<Longrightarrow> seen L P (emit e b)"
proof -
  assume "settled L b" and P: "P e"
  then have "length L \<le> length (s_log b)"
    unfolding settled_def rx_settled_def by (metis length_take min.cobounded2 min.commute)
  with P show ?thesis by (simp add: seen_def emit_def)
qed

text \<open>The fields it does mention.\<close>

lemma settled_txState [simp]:
  "settled L b \<Longrightarrow> settled L (b\<lparr>b_txState := st\<rparr>) \<longleftrightarrow> (htxRend \<le> st \<longrightarrow> told L b)"
  by (auto simp: settled_def rx_settled_def eob_settled_def tx_settled_def seen_def told_def)

lemma settled_rxState [simp]:
  "settled L b \<Longrightarrow> settled L (b\<lparr>b_rxState := st\<rparr>) \<longleftrightarrow> (st = hrxDone \<longrightarrow> seen L peer_eob b)"
  by (auto simp: settled_def rx_settled_def eob_settled_def tx_settled_def seen_def told_def)

lemma settled_clear [simp]:
  "settled L b \<Longrightarrow> settled L (b\<lparr>b_finfoAckWait := False\<rparr>)"
  by (simp add: settled_def rx_settled_def eob_settled_def tx_settled_def seen_def told_def)

lemma settled_forget [simp]:
  "settled L b \<Longrightarrow> \<not> b_finfoAckWait b \<Longrightarrow> settled L (b\<lparr>b_lastFinfo := None\<rparr>)"
  by (simp add: settled_def rx_settled_def eob_settled_def tx_settled_def seen_def told_def)

lemma rend_simps [simp]:
  "htxRend \<le> htxRend" "htxRend \<le> htxEnd" "htxRend \<le> htxEndAck" "htxRend \<le> htxDone"
  "\<not> htxRend \<le> htxStart" "\<not> htxRend \<le> htxSwait" "\<not> htxRend \<le> htxInit" "\<not> htxRend \<le> htxInitAck"
  "\<not> htxRend \<le> htxRinit" "\<not> htxRend \<le> htxFinfo" "\<not> htxRend \<le> htxFinfoAck" "\<not> htxRend \<le> htxXdata"
  "\<not> htxRend \<le> htxDataAck" "\<not> htxRend \<le> htxXwait" "\<not> htxRend \<le> htxEOF" "\<not> htxRend \<le> htxEOFAck"
  by (simp_all add: tx_order)

lemma told_late:
  "settled L b \<Longrightarrow> b_txState b = htxRend \<Longrightarrow> told L b" "settled L b \<Longrightarrow> b_txState b = htxEnd \<Longrightarrow> told L b"
  "settled L b \<Longrightarrow> b_txState b = htxEndAck \<Longrightarrow> told L b"
  by (simp_all add: settled_def tx_settled_def)

subsection \<open>Blocks shared by the handlers\<close>

lemma settled_effects [simp]:
  "settled L (tick b) = settled L b" "settled L (feedBraindead E b) = settled L b"
  "settled L (set_txTimer E d b) = settled L b" "settled L (armTx E b) = settled L b"
  by (simp_all add: tick_def feedBraindead_def set_txTimer_def armTx_def Let_def)

lemma told_effects [simp]:
  "told L (tick b) = told L b" "told L (feedBraindead E b) = told L b"
  "told L (set_txTimer E d b) = told L b" "told L (armTx E b) = told L b"
  by (simp_all add: tick_def feedBraindead_def set_txTimer_def armTx_def Let_def)

lemma settled_writer [simp]: "settled L b \<Longrightarrow> settles L (writer_write E s b)"
  by (simp add: post_writer_write split: option.split)

lemma settled_write [simp]: "settled L b \<Longrightarrow> settles L (batch_write E t p b)"
  by (simp add: batch_write_def)

lemma settled_then_fine:
  "settles L r \<Longrightarrow> (\<And>b. settled L b \<Longrightarrow> settled L (f b)) \<Longrightarrow> settles L (andThen r (\<lambda>b. fine (f b)))"
  by (rule post_andThen [where J = "settled L"]) simp_all

lemma settled_rx_blocks [simp]:
  "settled L b \<Longrightarrow> settled L (closeWriter w b)" "settled L b \<Longrightarrow> settled L (recvCompleted i n e b)"
  "settled L b \<Longrightarrow> settled L (rxCloseFile x b)"
  by (simp_all add: closeWriter_def recvCompleted_def rxCloseFile_def Let_def split: option.split)

lemma settled_tx_blocks [simp]:
  "settled L b \<Longrightarrow> settled L (closeOffer ofr b)" "settled L b \<Longrightarrow> settled L (closeTxOffer b)"
  "settled L b \<Longrightarrow> settled L (sendCompleted n e b)" "settled L b \<Longrightarrow> settled L (skipToEOF e b)"
  "settled L b \<Longrightarrow> settled L (rejectOffer ofr x b)" "settled L (queueDev req b) = settled L b"
  by (simp_all add: closeOffer_def closeTxOffer_def sendCompleted_def skipToEOF_def rejectOffer_def
      queueDev_def Let_def split: option.split)

lemma settled_finish [simp]: "settled L b \<Longrightarrow> settled L (finishTxFile b)"
proof -
  assume "settled L b"
  then have "settled L (closeTxOffer b)" by simp
  then show ?thesis
    by (simp add: finishTxFile_def Let_def)
      (simp add: settled_def rx_settled_def eob_settled_def tx_settled_def seen_def told_def)
qed

lemma settled_times: "settled L b \<Longrightarrow> post (\<lambda>b'. settled L b' \<and> (told L b \<longrightarrow> told L b')) (settled L) (write_times n E t b)"
proof (induction n arbitrary: b)
  case (Suc n)
  have "post (\<lambda>b'. settled L b' \<and> (told L b \<longrightarrow> told L b')) (settled L) (batch_write E t [] b)"
    using Suc.prems by (simp add: batch_write_def post_writer_write split: option.split)
  then show ?case unfolding write_times.simps
  proof (rule post_andThen)
    fix b' assume "settled L b' \<and> (told L b \<longrightarrow> told L b')"
    with Suc.IH [of b'] show "post (\<lambda>b'. settled L b' \<and> (told L b \<longrightarrow> told L b')) (settled L) (write_times n E t b')"
      by (auto elim: post_mono)
  qed
qed simp

subsection \<open>The receive machine\<close>

lemma settled_requestSkip: "settled L b \<Longrightarrow> settles L (requestSkip E e b)"
  by (simp add: requestSkip_def Let_def)

lemma settled_badPosition: "settled L b \<Longrightarrow> settles L (badPosition E off eof b)"
  by (simp add: badPosition_def Let_def split: option.split)

lemma settled_rxInit: "settled L b \<Longrightarrow> settles L (rxInit E pkt b)"
proof -
  assume b: "settled L b"
  have neg: "settles L (negotiate p b)" for p
    using b by (simp add: negotiate_def Let_def)
  have "settles L (if b_rxState b = hrxInit then
          (case parseInit (pkt_payload pkt) of
             Inl _ \<Rightarrow> fine b
           | Inr p \<Rightarrow> andThen (negotiate p b) (\<lambda>b. fine (b\<lparr>b_rxState := hrxFinfo\<rparr>)))
        else fine b)"
    using b settled_then_fine [OF neg] by (simp split: sum.split)
  then show ?thesis unfolding rxInit_def by (rule post_andThen) (rule settled_write)
qed

lemma settled_acceptFinfo: "settled L b \<Longrightarrow> acceptFinfo E payload b = (ack, b') \<Longrightarrow> settled L b'"
  by (auto simp: acceptFinfo_def Let_def split: sum.splits prod.splits option.splits if_splits)

lemma seen_feed [simp]:
  "seen L P (feedBraindead E b) = seen L P b" "b_txEOB (feedBraindead E b) = b_txEOB b"
  by (simp_all add: feedBraindead_def tick_def seen_def)

lemma settled_rxFinfo:
  "settled L b \<Longrightarrow> (isFinfoEOB (pkt_payload pkt) \<Longrightarrow> seen L peer_eob b) \<Longrightarrow> settles L (rxFinfo E pkt b)"
proof -
  assume b: "settled L b" "isFinfoEOB (pkt_payload pkt) \<Longrightarrow> seen L peer_eob b"
  have "settled L b'" if "acceptFinfo E p (feedBraindead E b) = (ack, b')" for p ack b'
    using settled_acceptFinfo [OF _ that] b by simp
  with b show ?thesis by (auto simp: rxFinfo_def Let_def split: rxState.split prod.split)
qed

lemma settled_rxData: "settled L b \<Longrightarrow> settles L (rxData E pkt b)"
proof -
  assume b: "settled L b"
  have "settled L b'" if "rxWrite E data ((feedBraindead E b)\<lparr>b_rxBlkLen := n\<rparr>) = (b', r)" for data n b' r
    using that b by (auto simp: rxWrite_def Let_def split: option.splits)
  with b show ?thesis
    by (auto simp: rxData_def Let_def settled_badPosition settled_requestSkip
        split: sum.split prod.split option.split)
qed

lemma settled_rxEOF: "settled L b \<Longrightarrow> settles L (rxEOF E pkt b)"
  by (simp add: rxEOF_def settled_badPosition split: rxState.split sum.split)

subsection \<open>The transmit and device machines\<close>

lemma settled_txFinfoAck: "settled L b \<Longrightarrow> settles L (txFinfoAck E pkt b)"
proof -
  assume b: "settled L b"
  let ?b = "(feedBraindead E (b\<lparr>b_finfoAckWait := False\<rparr>))\<lparr>b_txRetries := 0, b_txTimer := None, b_lastFinfo := None\<rparr>"
  have s: "settled L ?b" using b by (simp add: feedBraindead_def tick_def)
  have "b_finfoAckWait b \<Longrightarrow> b_txEOB b \<Longrightarrow> told L b"
    using b by (simp add: settled_def eob_settled_def told_def)
  moreover have "told L b \<Longrightarrow> told L ?b" by (simp add: told_def seen_def feedBraindead_def tick_def)
  ultimately show ?thesis using b s by (auto simp: txFinfoAck_def Let_def split: sum.split option.split)
qed

lemma settled_txDataAck: "settled L b \<Longrightarrow> settled L (txDataAck pkt b)"
  by (simp add: txDataAck_def Let_def split: sum.split)

lemma settled_txRpos: "settled L b \<Longrightarrow> settles L (txRpos E pkt b)"
  by (simp add: txRpos_def Let_def split: sum.split option.split)

lemma settled_txEOFAck: "settled L b \<Longrightarrow> settled L (txEOFAck E b)"
  by (simp add: txEOFAck_def Let_def split: option.split)

lemma settled_txIdle: "settled L b \<Longrightarrow> settled L (txIdle E b)"
  by (simp add: txIdle_def)

lemma settled_txEnd: "settled L b \<Longrightarrow> settles L (txEnd E b)"
proof -
  assume b: "settled L b"
  show ?thesis
  proof (cases "b_txState b = htxEnd \<or> b_txState b = htxEndAck")
    case True
    with b have t: "told L b" using told_late by blast
    have "settles L (andThen (write_times endResponseCount E pktEND b) (\<lambda>b. fine (b\<lparr>b_txTimer := None, b_txState := htxDone\<rparr>)))"
      by (rule post_andThen [OF settled_times [OF b]]) (simp add: t)
    with True b show ?thesis by (auto simp: txEnd_def)
  next
    case False
    with b show ?thesis by (simp add: txEnd_def)
  qed
qed

lemma settled_devRx: "settled L b \<Longrightarrow> settles L (devRx E pkt b)"
  by (simp add: devRx_def Let_def split: sum.split)

lemma settled_devDack: "settled L b \<Longrightarrow> settled L (devDack pkt b)"
  by (simp add: devDack_def split: sum.split option.split)

lemma settled_packet: "settled L b \<Longrightarrow> settles L (handlePacket E pkt b)"
proof -
  assume b: "settled L b"
  then have s: "settled L (emit (EvRecv pkt) b)" by simp
  have "pkt_typ pkt = pktFINFO \<Longrightarrow> isFinfoEOB (pkt_payload pkt) \<Longrightarrow> seen L peer_eob (emit (EvRecv pkt) b)"
    by (rule seen_new [OF b]) (simp add: peer_eob_def)
  with s settled_rxFinfo [OF s, of pkt E] show ?thesis
    by (simp add: handlePacket_def Let_def settled_rxInit settled_txFinfoAck settled_rxData
      settled_txDataAck settled_txRpos settled_rxEOF settled_txEOFAck settled_txIdle settled_txEnd
      settled_devRx settled_devDack)
qed

lemma settled_sync: "settled L b \<Longrightarrow> settled L (batch_sync E b)"
  by (simp add: batch_sync_def told_late)

lemma settled_txTimeout: "settled L b \<Longrightarrow> settles L (txTimeout E b)"
proof -
  assume b: "settled L b"
  have "settles L (andThen (batch_write E pktIDLE [] b) (\<lambda>b. fine (set_txTimer E (batch_idle b) b)))"
    using b by (simp add: settled_then_fine)
  moreover have "htxRend \<le> retry_state (b_txState b) \<Longrightarrow> told L b"
    using b by (cases "b_txState b") (simp_all add: retry_state_def settled_def tx_settled_def)
  ultimately show ?thesis using b by (simp add: txTimeout_def Let_def told_late)
qed

lemma settled_devTimeout: "settled L b \<Longrightarrow> settles L (devTimeout b)"
  by (simp add: devTimeout_def Let_def)

lemma settled_devAction: "settled L b \<Longrightarrow> settles L (devAction E b)"
proof -
  assume "settled L b"
  then have "settled L (devPromote b)" by (simp add: devPromote_def split: list.split)
  then show ?thesis by (simp add: devAction_def Let_def settled_then_fine split: option.split)
qed

lemma settled_sendData: "settled L b \<Longrightarrow> settles L (sendData E b)"
proof -
  assume b: "settled L b"
  have "settles L (sendData_sent E n b')" if "settled L b'" for n b'
    using that by (simp add: sendData_sent_def Let_def)
  then have "settles L (andThen (batch_write E pktDATA p b') (sendData_sent E n))" if "settled L b'" for p n b'
    using that post_andThen [OF settled_write [OF that]] by blast
  with b show ?thesis by (simp add: sendData_def Let_def split: option.split)
qed

text \<open>Announcing: the end of the batch is announced only when the application has ended it.\<close>

lemma settled_ended: "settled L b \<Longrightarrow> settled L ((emit (EvNextFile None) b)\<lparr>b_batchEnded := True\<rparr>)"
proof -
  assume b: "settled L b"
  then have "seen L local_eob (emit (EvNextFile None) b)" by (rule seen_new) (simp add: local_eob_def)
  moreover have "settled L (emit (EvNextFile None) b)" using b by simp
  ultimately show ?thesis
    by (simp add: settled_def rx_settled_def eob_settled_def tx_settled_def seen_def told_def)
qed

lemma settled_pull:
  "pullOffers E b = Some b' \<Longrightarrow> settled L b \<and> b_lastFinfo b = None \<Longrightarrow>
    settled L b' \<and> b_lastFinfo b' = None \<and> (b_txOffer b' = None \<longrightarrow> b_batchEnded b')"
proof (erule pullOffers_rule [where I = "\<lambda>b. settled L b \<and> b_lastFinfo b = None"])
  fix b assume "settled L b \<and> b_lastFinfo b = None"
  then show "settled L ((emit (EvNextFile None) b)\<lparr>b_batchEnded := True\<rparr>)
      \<and> b_lastFinfo ((emit (EvNextFile None) b)\<lparr>b_batchEnded := True\<rparr>) = None
      \<and> (b_txOffer ((emit (EvNextFile None) b)\<lparr>b_batchEnded := True\<rparr>) = None \<longrightarrow>
         b_batchEnded ((emit (EvNextFile None) b)\<lparr>b_batchEnded := True\<rparr>))"
    using settled_ended by (simp add: emit_def)
qed (auto simp: rejectOffer_def closeOffer_def)

lemma settled_prepare:
  assumes "settled L b" and "b_lastFinfo b = None" and "b_txOffer b = None \<longrightarrow> b_batchEnded b"
  shows "settled L (prepareFinfo b) \<and> b_lastFinfo (prepareFinfo b) \<noteq> None"
  using assms
  by (auto simp: prepareFinfo_def settled_def rx_settled_def eob_settled_def tx_settled_def seen_def told_def
      split: option.split)

lemma settled_announced:
  assumes b: "settled L b" and p: "b_lastFinfo b = Some p"
  shows "settles L (andThen (batch_write E pktFINFO p b) (\<lambda>b.
    fine ((armTx E (b\<lparr>b_finfoAckWait := True\<rparr>))\<lparr>b_txState := htxFinfoAck\<rparr>)))"
proof (rule post_andThen [where J = "\<lambda>b. settled L (b\<lparr>b_finfoAckWait := True\<rparr>)"])
  let ?s = "\<lparr>sn_packet = \<lparr>pkt_typ = pktFINFO, pkt_payload = p\<rparr>, sn_opts = b_opts b, sn_prefix = b_prefix b\<rparr>"
  have "sent_frame pktFINFO p (EvSend ?s None)" by (simp add: sent_frame_def)
  then have "seen L (sent_frame pktFINFO p) (emit (EvSend ?s None) b)" by (rule seen_new [OF b])
  moreover have "settled L (emit (EvSend ?s None) b)" using b by simp
  moreover have "b_lastFinfo (emit (EvSend ?s None) b) = Some p" "b_txEOB (emit (EvSend ?s None) b) = b_txEOB b"
    using p by (simp_all add: emit_def)
  moreover have "b_txEOB b \<Longrightarrow> p = finfoEOB" using b p by (simp add: settled_def eob_settled_def)
  ultimately have "settled L ((emit (EvSend ?s None) b)\<lparr>b_finfoAckWait := True\<rparr>)"
    by (auto simp: settled_def rx_settled_def eob_settled_def tx_settled_def seen_def told_def)
  with b show "post (\<lambda>b. settled L (b\<lparr>b_finfoAckWait := True\<rparr>)) (settled L) (batch_write E pktFINFO p b)"
    by (simp add: batch_write_def post_writer_write split: option.split)
qed simp

lemma settled_txAction: "settled L b \<Longrightarrow> txAction E b = Some r \<Longrightarrow> settles L r"
proof -
  assume b: "settled L b" and r: "txAction E b = Some r"
  have raw: "settles L (writeRaw E autostart b)"
    using b by (simp add: post_writeRaw split: option.split)
  have init: "settles L (sendInit E b)"
    using b by (simp add: sendInit_def Let_def)
  have start: "settles L (andThen (writeRaw E autostart b) (\<lambda>b. andThen (batch_write E pktSTART [] b) (\<lambda>b.
      fine ((set_txTimer E startInterval b)\<lparr>b_txState := htxSwait\<rparr>))))"
    by (rule post_andThen [OF raw]) (simp add: settled_then_fine)
  show ?thesis
  proof (cases "b_txState b")
    case htxFinfo
    then obtain b1 where b1: "(if b_lastFinfo b = None then map_option prepareFinfo (pullOffers E b) else Some b) = Some b1"
      "r = andThen (batch_write E pktFINFO (case b_lastFinfo b1 of Some p \<Rightarrow> p | None \<Rightarrow> []) b1) (\<lambda>b.
        fine ((armTx E (b\<lparr>b_finfoAckWait := True\<rparr>))\<lparr>b_txState := htxFinfoAck\<rparr>))"
      using r by (auto simp: txAction_def sendFinfo_def split: option.splits)
    have "settled L b1 \<and> b_lastFinfo b1 \<noteq> None"
    proof (cases "b_lastFinfo b = None")
      case True
      with b1(1) obtain b2 where "pullOffers E b = Some b2" "b1 = prepareFinfo b2" by auto
      with True b show ?thesis using settled_pull [of E b b2 L] settled_prepare [of L b2] by simp
    next
      case False
      with b1(1) have "b1 = b" by simp
      with False b show ?thesis by simp
    qed
    then show ?thesis unfolding b1(2) using settled_announced [of L b1] by auto
  next
    case htxEnd
    with b have t: "told L b" by (rule told_late(2))
    have "settles L (andThen (write_times endInitialCount E pktEND b) (\<lambda>b.
          fine ((set_txTimer E (cf_Timeout (s_config b) div 2) b)\<lparr>b_txState := htxEndAck\<rparr>)))"
      by (rule post_andThen [OF settled_times [OF b]]) (simp add: t)
    with htxEnd r show ?thesis by (auto simp: txAction_def)
  qed (use b r start init in \<open>auto simp: txAction_def settled_then_fine settled_sendData\<close>)
qed

lemma settled_absorb: "settled L b \<Longrightarrow> settled L (absorb E x b)"
  by (cases x)
    (simp_all add: SendDevice_def Abort_def Close_def session_close_def courtesyCancel_def triggerAbort_def
      recordError_def writeRaw_def Let_def split: prod.split bool.split)

interpretation settle: batch_invariant E "settled L" "settled L" for E L
proof unfold_locales
  fix b dq req
  assume "settled L b"
  then show "settled L (queueDev req (b\<lparr>s_devQ := dq\<rparr>))" by simp
qed (simp_all add: settled_absorb settled_sync settled_packet settled_txTimeout settled_devTimeout
    settled_devAction settled_txAction)

subsection \<open>The property\<close>

lemma settled_start: "settled (s_log s) (batch_start E s)"
proof -
  have "settled (s_log s) (newBatch s)"
    by (simp add: settled_def rx_settled_def eob_settled_def tx_settled_def newBatch_def session.defs Let_def)
  then show ?thesis by (simp add: batch_start_def)
qed

lemma teardown_log: "\<exists>es. s_log (teardown e b) = s_log b @ es"
  by (simp add: teardown_def rxCloseFile_def closeWriter_def recvCompleted_def sendCompleted_def closeTxOffer_def
      closeOffer_def emit_def Let_def split: option.split)

text \<open>When the batch is over both ends of batch are in its log.\<close>

lemma finished_log:
  assumes "settled L b" and "b_rxState b = hrxDone" and "htxEnd \<le> b_txState b"
  shows "\<exists>es. s_log b = L @ es \<and> list_ex local_eob es \<and> list_ex (sent_frame pktFINFO finfoEOB) es \<and> list_ex peer_eob es"
proof -
  have "htxRend \<le> b_txState b" using assms(3) by (simp add: tx_order)
  with assms have "told L b" "seen L peer_eob b" "take (length L) (s_log b) = L"
    by (simp_all add: settled_def tx_settled_def rx_settled_def)
  then show ?thesis
    by (intro exI [of _ "drop (length L) (s_log b)"]) (metis append_take_drop_id seen_def told_def)
qed

lemma run_finish_nil:
  "snd (run_finish E r) = None \<Longrightarrow>
    (snd r = None \<or> (\<exists>e. snd r = Some e \<and> endPhaseHangup e (fst r))) \<and> s_log (fst (run_finish E r)) = s_log (fst r)"
  by (auto simp: run_finish_def Let_def session.defs session_close_def triggerAbort_def courtesyCancel_def
      writeRaw_def recordError_def emit_def split: option.splits if_splits)

lemma event_cases:
  "local_eob e \<longleftrightarrow> e = EvNextFile None"
  "sent_frame t p e \<longleftrightarrow> (\<exists>f. e = EvSend f None \<and> sn_packet f = \<lparr>pkt_typ = t, pkt_payload = p\<rparr>)"
  "peer_eob e \<longleftrightarrow> (\<exists>pkt. e = EvRecv pkt \<and> pkt_typ pkt = pktFINFO \<and> isFinfoEOB (pkt_payload pkt))"
  unfolding local_eob_def sent_frame_def peer_eob_def by (auto split: event.split option.split)

text \<open>A run that returns nil stopped in the END exchange or behind it.\<close>

lemma run_success_state:
  assumes "Run E ctx s = Some (s', None)" and "\<not> s_aborted s"
  obtains s1 b err where "s_log s1 = s_log s" "fresh s1" "run_loop E (batch_start E s1) = Some (b, err)"
    "htxEnd \<le> b_txState b" "b_rxState b = hrxDone" "\<exists>es. s_log s' = s_log b @ es"
proof -
  define s1 where "s1 = run_setup ctx (s\<lparr>s_runActive := True, s_closerSet := True\<rparr>)"
  have f: "fresh s1" by (simp add: s1_def fresh_setup)
  obtain r where r: "batch_run E (newBatch s1) = Some r"
    and fin: "(case run_finish E r of (s, e) \<Rightarrow> (s\<lparr>s_runActive := False\<rparr>, e)) = (s', None)"
    using assms by (auto simp: Run_def Let_def s1_def split: if_splits)
  then obtain b err where b: "run_loop E (batch_start E s1) = Some (b, err)" "r = (teardown err b, err)"
    by (auto simp: batch_run_def batch_start_def)
  let ?t = "teardown err b"
  have ts: "b_txState ?t = b_txState b" "b_rxState ?t = b_rxState b"
    by (simp_all add: teardown_def rxCloseFile_def closeWriter_def recvCompleted_def sendCompleted_def
        closeTxOffer_def closeOffer_def emit_def Let_def split: option.split)
  have nil: "err = None \<or> (\<exists>e. err = Some e \<and> endPhaseHangup e ?t)" and log: "s_log s' = s_log ?t"
    using fin b(2) run_finish_nil [of E r]
    by (auto split: prod.splits)
  have post: "run_result E (batch_start E s1) (b, err)" by (rule run_loop_reaches [OF b(1)])
  have gate: "htxEnd \<le> b_txState b \<longrightarrow> b_rxState b = hrxDone"
    using core.run_loop_keeps [OF b(1) core_ok_start [OF f]] by (cases err) (simp_all add: core_ok_def gate_ok_def)
  have "htxEnd \<le> b_txState b"
    using nil post ts by (auto simp: run_result_def endPhaseHangup_def tx_order)
  moreover have "\<exists>es. s_log s' = s_log b @ es" using log teardown_log by simp
  ultimately show thesis using that [of s1 b err] f b(1) gate by (simp add: s1_def run_setup_def)
qed

text \<open>
  Property C8. A \<open>nil\<close> from \<open>Run\<close> means that both directions ended: during this call the
  application answered \<open>NextFile\<close> with nil, the transport took a FINFO frame that announces
  the end of the batch, and the peer's FINFO announcing the end of its batch was processed.
  This covers all three ways to return nil: the END exchange, the exhausted retries of
  \<open>htxEndAck\<close>, and the hang-up of the peer during the END exchange.
\<close>

theorem Run_success_complete:
  assumes "Run E ctx s = Some (s', None)" and "\<not> s_aborted s"
  shows "\<exists>es. s_log s' = s_log s @ es \<and> EvNextFile None \<in> set es
    \<and> (\<exists>f. EvSend f None \<in> set es \<and> sn_packet f = \<lparr>pkt_typ = pktFINFO, pkt_payload = finfoEOB\<rparr>)
    \<and> (\<exists>p. EvRecv p \<in> set es \<and> pkt_typ p = pktFINFO \<and> isFinfoEOB (pkt_payload p))"
proof -
  obtain s1 b err where b: "s_log s1 = s_log s" "run_loop E (batch_start E s1) = Some (b, err)"
    "htxEnd \<le> b_txState b" "b_rxState b = hrxDone" "\<exists>es. s_log s' = s_log b @ es"
    by (rule run_success_state [OF assms])
  have "settled (s_log s) b"
    using settle.run_loop_keeps [OF b(2)] settled_start [of s1 E] b(1) by (cases err) simp_all
  from finished_log [OF this b(4,3)] b(5) obtain es es' where es: "s_log s' = s_log s @ es @ es'"
    "list_ex local_eob es" "list_ex (sent_frame pktFINFO finfoEOB) es" "list_ex peer_eob es" by auto
  from es(2-4) have "EvNextFile None \<in> set es"
    "\<exists>f. EvSend f None \<in> set es \<and> sn_packet f = \<lparr>pkt_typ = pktFINFO, pkt_payload = finfoEOB\<rparr>"
    "\<exists>p. EvRecv p \<in> set es \<and> pkt_typ p = pktFINFO \<and> isFinfoEOB (pkt_payload p)"
    unfolding list_ex_iff event_cases by blast+
  with es(1) show ?thesis by (intro exI [of _ "es @ es'"]) (simp, blast)
qed

end
