(* ===== verification/Hydra_EmptyBatch.thy ===== *)
theory Hydra_EmptyBatch
  imports Hydra_Finish
begin

section \<open>A batch without files, run to its end\<close>

text \<open>
  The smallest complete session: a peer that greets, announces the end of its batch and
  acknowledges ours. Its event loop is followed packet by packet, up to the \<open>nil\<close> that \<open>Run\<close>
  returns.
\<close>

definition greeting :: "nat \<Rightarrow> packet list" where
  "greeting n =
     (if n = 2 then
        [\<lparr>pkt_typ = pktSTART, pkt_payload = []\<rparr>,
         \<lparr>pkt_typ = pktINIT, pkt_payload = marshalInit \<lparr>ip_appID = [], ip_supported = capDefaultSupported,
            ip_desired = 0, ip_txWindow = 0, ip_rxWindow = 0, ip_prefix = []\<rparr>\<rparr>,
         \<lparr>pkt_typ = pktINITACK, pkt_payload = []\<rparr>, \<lparr>pkt_typ = pktFINFO, pkt_payload = finfoEOB\<rparr>]
      else if n = 15 then
        [\<lparr>pkt_typ = pktFINFOACK, pkt_payload = marshalOffset 0\<rparr>, \<lparr>pkt_typ = pktEND, pkt_payload = []\<rparr>]
      else [])"

definition emptyEnv :: env where
  "emptyEnv = demoEnv\<lparr>en_now := (\<lambda>_. 0), en_outside := (\<lambda>n. map OutPacket (greeting n))\<rparr>"

lemma emptyEnv_simps [simp]:
  "en_write emptyEnv es = None" "en_now emptyEnv n = 0" "en_nextFile emptyEnv es = None"
  "en_wake emptyEnv n = WakeTimer" "en_outside emptyEnv n = map OutPacket (greeting n)"
  "en_closable emptyEnv"
  by (simp_all add: emptyEnv_def demoEnv_def)

text \<open>The fields the path through the loop depends on.\<close>

definition calm_at :: "txState \<Rightarrow> rxState \<Rightarrow> nat \<Rightarrow> packet list \<Rightarrow> batch \<Rightarrow> bool" where
  "calm_at tx rx n q b \<longleftrightarrow> b_txState b = tx \<and> b_rxState b = rx \<and> s_clk b = n \<and> in_q (s_inbox b) = q
     \<and> \<not> s_readerDone b \<and> s_devQ b = [] \<and> s_ctx b = None \<and> b_devQueue b = [] \<and> b_devState b = htdDone
     \<and> b_devPending b = None \<and> \<not> b_productive b \<and> s_config b = defaults None \<and> b_devTimer b = None
     \<and> \<not> expired 0 (b_txTimer b) \<and> b_braindead b = Some 120000000000
     \<and> (tx \<le> htxFinfo \<longrightarrow> b_lastFinfo b = None \<and> b_txOffer b = None \<and> \<not> b_batchEnded b \<and> \<not> b_eofAckWait b)
     \<and> (tx = htxFinfoAck \<longrightarrow> b_finfoAckWait b \<and> b_txEOB b)"

lemma config_none: "cf_BrainDead (defaults None) = 120000000000" "cf_Timeout (defaults None) > 0"
  "cf_idleOverride (defaults None) = 0"
  by (simp_all add: defaults_def zeroConfig_def default_timeout_def Let_def)

definition emptySession :: session where
  \<comment> \<open>what \<open>Run\<close> hands to \<open>newBatch\<close> for a new session\<close>
  "emptySession = run_setup None ((NewSession None)\<lparr>s_runActive := True, s_closerSet := True\<rparr>)"

lemma calm_start: "calm_at htxStart hrxInit 1 [] (batch_start emptyEnv emptySession)"
  by (simp add: calm_at_def batch_start_def feedBraindead_def tick_def newBatch_def session.defs time_now_def
      emptySession_def run_setup_def NewSession_def inbox_reset_def newPktInbox_def config_none expired_def Let_def)

lemma calm_poll:
  "calm_at tx rx n q b \<Longrightarrow> length q + length (greeting n) \<le> 8 \<Longrightarrow>
    calm_at tx rx (Suc n) (q @ greeting n) (poll emptyEnv b)"
proof -
  have push: "calm_at tx rx n (q @ ps) (foldl (\<lambda>s x. absorb emptyEnv x s) b (map OutPacket ps))"
    if "calm_at tx rx n q b" "length q + length ps \<le> 8" for q ps b
    using that
  proof (induction ps arbitrary: q b)
    case (Cons p ps)
    let ?b = "absorb emptyEnv (OutPacket p) b"
    have "calm_at tx rx n (q @ [p]) ?b"
      using Cons.prems by (simp add: calm_at_def inbox_push_def split: prod.split)
    from Cons.IH [OF this] Cons.prems(2) show ?case by simp
  qed simp
  assume "calm_at tx rx n q b" "length q + length (greeting n) \<le> 8"
  from push [OF this] this(1) show ?thesis by (simp add: poll_def tick_def calm_at_def)
qed

text \<open>One packet, and the end of the drain.\<close>

lemma calm_drain:
  assumes "calm_at tx rx n q b" and "length q + length (greeting n) \<le> 8" and "q @ greeting n = p # q'"
    and "\<And>b. calm_at tx rx (Suc n) q' b \<Longrightarrow>
      \<exists>b'. handlePacket emptyEnv p b = (b', None) \<and> calm_at tx' rx' n' q' (batch_sync emptyEnv b')"
  shows "\<exists>b'. drain_loop (Suc m) emptyEnv b = drain_loop m emptyEnv b' \<and> calm_at tx' rx' n' q' b'"
proof -
  let ?b = "poll emptyEnv b"
  have c: "calm_at tx rx (Suc n) (p # q') ?b" using calm_poll [OF assms(1,2)] assms(3) by simp
  then have "calm_at tx rx (Suc n) q' (?b\<lparr>s_inbox := (s_inbox ?b)\<lparr>in_q := q'\<rparr>\<rparr>)" by (simp add: calm_at_def)
  from assms(4) [OF this] obtain b' where
    "handlePacket emptyEnv p (?b\<lparr>s_inbox := (s_inbox ?b)\<lparr>in_q := q'\<rparr>\<rparr>) = (b', None)"
    "calm_at tx' rx' n' q' (batch_sync emptyEnv b')" by blast
  moreover have "in_q (s_inbox ?b) = p # q'" using c by (simp add: calm_at_def)
  ultimately show ?thesis by (auto simp: Let_def inbox_tryPop_def)
qed

lemma calm_drained:
  assumes "calm_at tx rx n [] b" and "greeting n = []" and "greeting (Suc n) = []"
  shows "\<exists>b'. drain_loop (Suc m) emptyEnv b = fine b' \<and> calm_at tx rx (Suc (Suc n)) [] b'"
proof -
  have c: "calm_at tx rx (Suc n) [] (poll emptyEnv b)" using calm_poll [OF assms(1)] assms(2) by simp
  moreover have c2: "calm_at tx rx (Suc (Suc n)) [] (poll emptyEnv (poll emptyEnv b))"
    using calm_poll [OF c] assms(3) by simp
  moreover have "in_q (s_inbox (poll emptyEnv b)) = []" "s_devQ (poll emptyEnv (poll emptyEnv b)) = []"
    using c c2 by (simp_all add: calm_at_def)
  ultimately show ?thesis by (auto simp: Let_def inbox_tryPop_def devQ_recv_def)
qed

subsection \<open>The packets of that batch\<close>

lemmas calm_eval = calm_at_def handlePacket_def batch_sync_def emit_def feedBraindead_def tick_def fine_def time_now_def
  expired_def config_none Let_def tx_order

lemma calm_START:
  "calm_at htxSwait hrxInit n q b \<Longrightarrow> pkt_typ p = pktSTART \<Longrightarrow>
    \<exists>b'. handlePacket emptyEnv p b = (b', None) \<and> calm_at htxInit hrxInit (Suc n) q (batch_sync emptyEnv b')"
  by (simp add: calm_eval)

lemma calm_INITACK:
  "calm_at htxInit hrxFinfo n q b \<Longrightarrow> pkt_typ p = pktINITACK \<Longrightarrow>
    \<exists>b'. handlePacket emptyEnv p b = (b', None) \<and> calm_at htxFinfo hrxFinfo (Suc n) q (batch_sync emptyEnv b')"
  by (simp add: calm_eval)

lemma calm_INIT:
  assumes "calm_at htxInit hrxInit n q b"
  shows "\<exists>b'. handlePacket emptyEnv \<lparr>pkt_typ = pktINIT, pkt_payload = marshalInit \<lparr>ip_appID = [],
      ip_supported = capDefaultSupported, ip_desired = 0, ip_txWindow = 0, ip_rxWindow = 0, ip_prefix = []\<rparr>\<rparr> b
    = (b', None) \<and> calm_at htxInit hrxFinfo n q (batch_sync emptyEnv b')"
proof -
  let ?p = "\<lparr>ip_appID = [], ip_supported = capDefaultSupported, ip_desired = 0, ip_txWindow = 0, ip_rxWindow = 0,
      ip_prefix = []\<rparr>"
  have parse: "parseInit (marshalInit ?p) = Inr ?p" using parseInit_marshal [of ?p] by (simp add: cap_defs)
  have "localDesired (defaults None) = capFPT" by (simp add: localDesired_def defaults_def zeroConfig_def Let_def)
  then have vital: "localDesired (defaults None) AND capEscape = 0" by (simp add: cap_defs)
  have s: "b_rxState b = hrxInit" "s_config b = defaults None" using assms by (simp_all add: calm_at_def)
  show ?thesis using assms
    by (simp add: handlePacket_def rxInit_def parse negotiate_def s emit_def vital Let_def)
      (simp add: calm_eval batch_write_def writer_write_def)
qed

lemma calm_FINFO:
  "calm_at htxFinfo hrxFinfo n q b \<Longrightarrow>
    \<exists>b'. handlePacket emptyEnv \<lparr>pkt_typ = pktFINFO, pkt_payload = finfoEOB\<rparr> b = (b', None)
      \<and> calm_at htxFinfo hrxDone (Suc n) q (batch_sync emptyEnv b')"
  by (simp add: calm_eval rxFinfo_def batch_write_def writer_write_def isFinfoEOB_def finfoEOB_def)

lemma calm_FINFOACK:
  "calm_at htxFinfoAck hrxDone n q b \<Longrightarrow>
    \<exists>b'. handlePacket emptyEnv \<lparr>pkt_typ = pktFINFOACK, pkt_payload = marshalOffset 0\<rparr> b = (b', None)
      \<and> calm_at htxEnd hrxDone (Suc (Suc n)) q (batch_sync emptyEnv b')"
  by (simp add: calm_eval txFinfoAck_def set_txTimer_def batch_idle_def)

lemma times_3: "write_times 3 E t b = andThen (batch_write E t [] b) (\<lambda>b. andThen (batch_write E t [] b)
    (\<lambda>b. andThen (batch_write E t [] b) fine))"
proof -
  have "write_times 0 E t = fine" by (rule ext) simp
  moreover have "write_times (Suc n) E t = (\<lambda>b. andThen (batch_write E t [] b) (write_times n E t))" for n
    by (rule ext) simp
  ultimately show ?thesis by (simp add: numeral_3_eq_3)
qed

lemma calm_END:
  "calm_at htxEnd hrxDone n q b \<Longrightarrow>
    \<exists>b'. handlePacket emptyEnv \<lparr>pkt_typ = pktEND, pkt_payload = []\<rparr> b = (b', None)
      \<and> calm_at htxDone hrxDone n q (batch_sync emptyEnv b')"
  by (simp add: calm_eval txEnd_def times_3 batch_write_def writer_write_def)

subsection \<open>The two rounds of its loop\<close>

lemma calm_devAction: "calm_at tx rx n q b \<Longrightarrow> devAction E b = fine b"
  by (simp add: calm_at_def devAction_def devPromote_def Let_def)

lemma calm_pump:
  assumes d: "drain emptyEnv b = fine b1" and c: "calm_at tx rx n [] b1" and n: "greeting (Suc n) = []"
  shows "\<exists>b2. pump emptyEnv b = fine b2 \<and> calm_at tx rx (if tx = htxDone then n else n + 3) [] b2"
proof (cases "tx = htxDone")
  case True
  with c have "pump emptyEnv b = fine (b1\<lparr>b_productive := False\<rparr>)" by (simp add: pump_def d calm_at_def)
  moreover have "calm_at tx rx n [] (b1\<lparr>b_productive := False\<rparr>)" using c by (simp add: calm_at_def)
  ultimately show ?thesis using True by auto
next
  case False
  have quiet: "fireTimers emptyEnv (time_now emptyEnv b) (tick b) = (False, fine (tick b))
      \<and> calm_at tx rx (Suc n) q (tick b)" if "calm_at tx rx n q b" for n q b
    using that by (simp add: fireTimers_def calm_at_def time_now_def tick_def fine_def expired_def split: option.splits)
  let ?b = "poll emptyEnv (tick b1)"
  have "calm_at tx rx (Suc n) [] (tick b1)" using quiet [OF c] by simp
  from calm_poll [OF this] n have p: "calm_at tx rx (Suc (Suc n)) [] ?b" by simp
  then have "nearestDeadline ?b \<noteq> None" by (simp add: calm_at_def nearestDeadline_def Let_def split: option.split)
  then have "pump_select emptyEnv (tick b1) = fine (tick ?b)"
    using quiet [OF p] by (simp add: pump_select_def Let_def)
  with False c quiet [OF c] have "pump emptyEnv b = fine (tick ?b)"
    by (simp add: pump_def d calm_at_def fine_def)
  with False quiet [OF p] show ?thesis by (auto simp: eval_nat_numeral)
qed

lemma calm_body:
  assumes a: "txAction emptyEnv b = Some (fine b1)" and d: "drain emptyEnv (batch_sync emptyEnv b1) = fine b2"
    and b: "calm_at tx rx n [] b" "calm_at tx1 rx1 n1 [] (batch_sync emptyEnv b1)" "tx1 \<noteq> htxDone"
    and b2: "calm_at tx2 rx2 n2 [] b2" "greeting (Suc n2) = []"
  shows "\<exists>b3. run_body emptyEnv b = Some (fine b3) \<and> calm_at tx2 rx2 (if tx2 = htxDone then n2 else n2 + 3) [] b3"
proof -
  have "b_txState (batch_sync emptyEnv b1) \<noteq> htxDone" using b(2,3) by (simp add: calm_at_def)
  then show ?thesis
    using calm_pump [OF d b2] calm_devAction [OF b(1)] a by (auto simp: run_body_def fine_def Let_def)
qed

lemma calm_txStart:
  "calm_at htxStart hrxInit n [] b \<Longrightarrow>
    \<exists>b1. txAction emptyEnv b = Some (fine b1) \<and> calm_at htxSwait hrxInit (Suc n) [] (batch_sync emptyEnv b1)"
  by (simp add: calm_eval txAction_def writeRaw_def batch_write_def writer_write_def set_txTimer_def
      startInterval_def)

lemma calm_txFinfo:
  "calm_at htxFinfo hrxDone n [] b \<Longrightarrow>
    \<exists>b1. txAction emptyEnv b = Some (fine b1) \<and> calm_at htxFinfoAck hrxDone (Suc n) [] (batch_sync emptyEnv b1)"
proof -
  assume c: "calm_at htxFinfo hrxDone n [] b"
  then have "pullOffers emptyEnv b = Some ((emit (EvNextFile None) b)\<lparr>b_batchEnded := True\<rparr>)"
    by (subst pullOffers.simps) (simp add: calm_at_def Let_def)
  moreover have "\<not> cf_Timeout (defaults None) < 0" "\<not> cf_Timeout (defaults None) div 2 < 0"
    using config_none(2) by simp_all
  ultimately show ?thesis using c
    by (simp add: calm_eval txAction_def sendFinfo_def prepareFinfo_def batch_write_def writer_write_def
        armTx_def set_txTimer_def)
qed

lemma greeting_times: "greeting 2 = [\<lparr>pkt_typ = pktSTART, pkt_payload = []\<rparr>,
     \<lparr>pkt_typ = pktINIT, pkt_payload = marshalInit \<lparr>ip_appID = [], ip_supported = capDefaultSupported,
        ip_desired = 0, ip_txWindow = 0, ip_rxWindow = 0, ip_prefix = []\<rparr>\<rparr>,
     \<lparr>pkt_typ = pktINITACK, pkt_payload = []\<rparr>, \<lparr>pkt_typ = pktFINFO, pkt_payload = finfoEOB\<rparr>]"
  "greeting 15 = [\<lparr>pkt_typ = pktFINFOACK, pkt_payload = marshalOffset 0\<rparr>, \<lparr>pkt_typ = pktEND, pkt_payload = []\<rparr>]"
  "n \<noteq> 2 \<Longrightarrow> n \<noteq> 15 \<Longrightarrow> greeting n = []"
  by (simp_all add: greeting_def)

lemma budget_split: "drainBudget = Suc (Suc (Suc (Suc (Suc 251))))" "drainBudget = Suc (Suc (Suc 253))"
  by (simp_all add: drainBudget_def)

lemma calm_first_drain:
  assumes c: "calm_at htxSwait hrxInit 2 [] b"
  shows "\<exists>b'. drain emptyEnv b = fine b' \<and> calm_at htxFinfo hrxDone 11 [] b'"
proof -
  define pinit where "pinit = \<lparr>pkt_typ = pktINIT, pkt_payload = marshalInit \<lparr>ip_appID = [], ip_supported = capDefaultSupported,
        ip_desired = 0, ip_txWindow = 0, ip_rxWindow = 0, ip_prefix = []\<rparr>\<rparr>"
  define start ack eob where "start = \<lparr>pkt_typ = pktSTART, pkt_payload = []\<rparr>"
    and "ack = \<lparr>pkt_typ = pktINITACK, pkt_payload = []\<rparr>" and "eob = \<lparr>pkt_typ = pktFINFO, pkt_payload = finfoEOB\<rparr>"
  note defs = pinit_def start_def ack_def eob_def
  have g: "greeting 2 = [start, pinit, ack, eob]" by (simp add: greeting_times defs)
  have "\<exists>b'. drain_loop (Suc m) emptyEnv b = drain_loop m emptyEnv b' \<and> calm_at htxInit hrxInit (Suc (Suc 2)) [pinit, ack, eob] b'" for m
    by (rule calm_drain [OF c, where p = start]) (simp_all only: g, simp_all,
        use calm_START [where n = 3 and p = start] in \<open>simp add: start_def\<close>)
  then obtain b1 where b1: "drain_loop (Suc (Suc (Suc (Suc (Suc 251))))) emptyEnv b
      = drain_loop (Suc (Suc (Suc (Suc 251)))) emptyEnv b1" "calm_at htxInit hrxInit (Suc (Suc 2)) [pinit, ack, eob] b1" by blast
  have "\<exists>b'. drain_loop (Suc m) emptyEnv b1 = drain_loop m emptyEnv b' \<and> calm_at htxInit hrxFinfo (Suc (Suc (Suc 2))) [ack, eob] b'" for m
    by (rule calm_drain [OF b1(2), where p = pinit])
      (simp_all add: greeting_times(3), use calm_INIT [where n = 5] in \<open>simp add: pinit_def\<close>)
  then obtain b2 where b2: "drain_loop (Suc (Suc (Suc (Suc 251)))) emptyEnv b1
      = drain_loop (Suc (Suc (Suc 251))) emptyEnv b2" "calm_at htxInit hrxFinfo (Suc (Suc (Suc 2))) [ack, eob] b2" by blast
  have "\<exists>b'. drain_loop (Suc m) emptyEnv b2 = drain_loop m emptyEnv b' \<and> calm_at htxFinfo hrxFinfo (Suc (Suc (Suc (Suc (Suc 2))))) [eob] b'" for m
    by (rule calm_drain [OF b2(2), where p = ack])
      (simp_all add: greeting_times(3), use calm_INITACK [where n = 6 and p = ack] in \<open>simp add: ack_def\<close>)
  then obtain b3 where b3: "drain_loop (Suc (Suc (Suc 251))) emptyEnv b2 = drain_loop (Suc (Suc 251)) emptyEnv b3"
    "calm_at htxFinfo hrxFinfo (Suc (Suc (Suc (Suc (Suc 2))))) [eob] b3" by blast
  have "\<exists>b'. drain_loop (Suc m) emptyEnv b3 = drain_loop m emptyEnv b' \<and> calm_at htxFinfo hrxDone 9 [] b'" for m
    by (rule calm_drain [OF b3(2), where p = eob])
      (simp_all add: greeting_times(3), use calm_FINFO [where n = 8] in \<open>simp add: eob_def\<close>)
  then obtain b4 where b4: "drain_loop (Suc (Suc 251)) emptyEnv b3 = drain_loop (Suc 251) emptyEnv b4"
    "calm_at htxFinfo hrxDone 9 [] b4" by blast
  have "\<exists>b'. drain_loop (Suc m) emptyEnv b4 = fine b' \<and> calm_at htxFinfo hrxDone (Suc (Suc 9)) [] b'" for m
    by (rule calm_drained [OF b4(2)]) (simp_all add: greeting_times(3))
  then obtain b5 where b5: "drain_loop (Suc 251) emptyEnv b4 = fine b5" "calm_at htxFinfo hrxDone (Suc (Suc 9)) [] b5" by blast
  show ?thesis unfolding drain_def budget_split(1) b1(1) b2(1) b3(1) b4(1) b5(1) using b5(2) by auto
qed

lemma calm_second_drain:
  assumes c: "calm_at htxFinfoAck hrxDone 15 [] b"
  shows "\<exists>b'. drain emptyEnv b = fine b' \<and> calm_at htxDone hrxDone 21 [] b'"
proof -
  define fack pend where "fack = \<lparr>pkt_typ = pktFINFOACK, pkt_payload = marshalOffset 0\<rparr>"
    and "pend = \<lparr>pkt_typ = pktEND, pkt_payload = []\<rparr>"
  have g: "greeting 15 = [fack, pend]" by (simp add: greeting_times fack_def pend_def)
  have "\<exists>b'. drain_loop (Suc m) emptyEnv b = drain_loop m emptyEnv b' \<and> calm_at htxEnd hrxDone 18 [pend] b'" for m
    by (rule calm_drain [OF c, where p = fack]) (simp_all only: g, simp_all,
        use calm_FINFOACK [where n = 16] in \<open>simp add: fack_def\<close>)
  then obtain b1 where b1: "drain_loop (Suc (Suc (Suc 253))) emptyEnv b = drain_loop (Suc (Suc 253)) emptyEnv b1"
    "calm_at htxEnd hrxDone 18 [pend] b1" by blast
  have "\<exists>b'. drain_loop (Suc m) emptyEnv b1 = drain_loop m emptyEnv b' \<and> calm_at htxDone hrxDone 19 [] b'" for m
    by (rule calm_drain [OF b1(2), where p = pend])
      (simp_all add: greeting_times(3), use calm_END [where n = 19] in \<open>simp add: pend_def\<close>)
  then obtain b2 where b2: "drain_loop (Suc (Suc 253)) emptyEnv b1 = drain_loop (Suc 253) emptyEnv b2"
    "calm_at htxDone hrxDone 19 [] b2" by blast
  have "\<exists>b'. drain_loop (Suc m) emptyEnv b2 = fine b' \<and> calm_at htxDone hrxDone (Suc (Suc 19)) [] b'" for m
    by (rule calm_drained [OF b2(2)]) (simp_all add: greeting_times(3))
  then obtain b3 where b3: "drain_loop (Suc 253) emptyEnv b2 = fine b3" "calm_at htxDone hrxDone (Suc (Suc 19)) [] b3" by blast
  show ?thesis unfolding drain_def budget_split(2) b1(1) b2(1) b3(1) using b3(2) by auto
qed

lemma run_loop_next: "run_body E b = Some (fine b') \<Longrightarrow> b_txState b \<noteq> htxDone \<Longrightarrow> run_loop E b = run_loop E b'"
  by (subst run_loop.simps) (simp add: fine_def)

lemma empty_batch: "\<exists>b. run_loop emptyEnv (batch_start emptyEnv emptySession) = Some (fine b) \<and> calm_at htxDone hrxDone 21 [] b"
proof -
  let ?s = "batch_start emptyEnv emptySession"
  obtain a1 where a1: "txAction emptyEnv ?s = Some (fine a1)" "calm_at htxSwait hrxInit 2 [] (batch_sync emptyEnv a1)"
    using calm_txStart [OF calm_start] by (auto simp: numeral_2_eq_2)
  obtain d1 where d1: "drain emptyEnv (batch_sync emptyEnv a1) = fine d1" "calm_at htxFinfo hrxDone 11 [] d1"
    using calm_first_drain [OF a1(2)] by blast
  obtain b1 where b1: "run_body emptyEnv ?s = Some (fine b1)" "calm_at htxFinfo hrxDone 14 [] b1"
    using calm_body [OF a1(1) d1(1) calm_start a1(2) _ d1(2)] by (auto simp: greeting_times)
  obtain a2 where a2: "txAction emptyEnv b1 = Some (fine a2)" "calm_at htxFinfoAck hrxDone 15 [] (batch_sync emptyEnv a2)"
    using calm_txFinfo [OF b1(2)] by auto
  obtain d2 where d2: "drain emptyEnv (batch_sync emptyEnv a2) = fine d2" "calm_at htxDone hrxDone 21 [] d2"
    using calm_second_drain [OF a2(2)] by blast
  obtain b2 where b2: "run_body emptyEnv b1 = Some (fine b2)" "calm_at htxDone hrxDone 21 [] b2"
    using calm_body [OF a2(1) d2(1) b1(2) a2(2) _ d2(2)] by (auto simp: greeting_times)
  have "b_txState ?s \<noteq> htxDone" "b_txState b1 \<noteq> htxDone" "b_txState b2 = htxDone"
    using calm_start b1(2) b2(2) by (simp_all add: calm_at_def)
  then have "run_loop emptyEnv ?s = Some (fine b2)"
    using run_loop_next [OF b1(1)] run_loop_next [OF b2(1)] run_loop.simps [of emptyEnv b2] by simp
  with b2(2) show ?thesis by blast
qed

lemma empty_run: "\<exists>s'. Run emptyEnv None (NewSession None) = Some (s', None)"
proof -
  obtain b where "run_loop emptyEnv (batch_start emptyEnv emptySession) = Some (fine b)" using empty_batch by blast
  then have "batch_run emptyEnv (newBatch emptySession) = Some (teardown None b, None)"
    by (simp add: batch_run_def batch_start_def fine_def)
  moreover have "\<not> s_runActive (NewSession None)" "\<not> s_aborted (NewSession None)"
    by (simp_all add: NewSession_def)
  ultimately show ?thesis
    by (simp add: Run_def Let_def run_finish_def emptySession_def)
qed

theorem Run_success_complete_witness:
  "\<exists>s' p. Run emptyEnv None (NewSession None) = Some (s', None) \<and> EvNextFile None \<in> set (s_log s')
    \<and> EvRecv p \<in> set (s_log s') \<and> isFinfoEOB (pkt_payload p)"
proof -
  obtain s' where r: "Run emptyEnv None (NewSession None) = Some (s', None)" using empty_run by blast
  have "\<not> s_aborted (NewSession None)" by (simp add: NewSession_def)
  from Run_success_complete [OF r this] r show ?thesis by auto
qed

end
