(* ===== verification/Hydra_Negotiation.thy ===== *)
theory Hydra_Negotiation
  imports Hydra_Gate
begin

unbundle bit_operations_syntax

section \<open>What two sides agree on\<close>

text \<open>
  Both sides announce their capabilities and windows in an INIT packet and compute the
  effective values from their own configuration and the peer's announcement. Nothing is
  exchanged afterwards, so the two computations have to give the same values: the same
  option set, and for each direction the same window on the sending and the receiving side.
\<close>

subsection \<open>Capability sets survive the wire\<close>

lemma cap_of_code_named: "cap_of_code code AND 0x7FF = cap_of_code code"
  by (auto simp: cap_of_code_def capOrder_def cap_defs split: option.split)

lemma parseCaps_named: "parseCaps list AND 0x7FF = parseCaps list"
proof -
  have "foldl (\<lambda>caps code. caps OR cap_of_code code) a xs AND 0x7FF
      = foldl (\<lambda>caps code. caps OR cap_of_code code) a xs" if "a AND 0x7FF = a" for a and xs :: "gostring list"
    using that
  proof (induction xs arbitrary: a)
    case (Cons x xs)
    have "(a OR cap_of_code x) AND 0x7FF = a OR cap_of_code x"
      by (simp add: bit.conj_disj_distrib2 Cons.prems cap_of_code_named)
    from Cons.IH [OF this] show ?case by simp
  qed simp
  then show ?thesis by (simp add: parseCaps_def)
qed

lemma named_minus: "x AND 0x7FF = x \<Longrightarrow> (x AND NOT y) AND 0x7FF = x AND NOT (y :: u32)"
  by (metis and.assoc and.commute)

lemma localSupported_named: "localSupported c AND 0x7FF = localSupported c"
  unfolding localSupported_def Let_def by (rule named_minus) (simp add: parseCaps_named cap_defs)

lemma localDesired_named: "localDesired c AND 0x7FF = localDesired c"
proof (cases "length (cf_Desired c) > 0")
  case True
  then have "localDesired c = parseCaps (join_on 0x2C (cf_Desired c)) AND NOT (capASC OR capUUE)"
    by (simp only: localDesired_def if_True)
  then show ?thesis using named_minus [OF parseCaps_named] by metis
next
  case False
  then show ?thesis by (simp add: localDesired_def cap_defs)
qed

lemma parse_local_init: "0 \<notin> set (cf_AppID c) \<Longrightarrow> parseInit (marshalInit (local_init c)) = Inr (local_init c)"
  by (simp add: parseInit_marshal local_init_def localSupported_named localDesired_named)

subsection \<open>The two computations\<close>

definition common_opts :: "Config \<Rightarrow> Config \<Rightarrow> u32" where
  \<comment> \<open>what the sides want, as far as both support it\<close>
  "common_opts c1 c2 =
     (localDesired c1 OR localDesired c2 OR capUnion) AND (localSupported c1 AND localSupported c2)"

lemma common_opts_sym: "common_opts c1 c2 = common_opts c2 c1"
  by (simp add: common_opts_def or.commute or.left_commute and.commute)

lemma effective_common:
  "effective_opts (localSupported c1) (localDesired c1) (localSupported c2) (localDesired c2) = common_opts c1 c2"
  by (simp add: effective_opts_def common_opts_def and.assoc and.commute and.left_commute or.assoc or.commute
      or.left_commute)

definition common_window :: "int \<Rightarrow> int \<Rightarrow> int" where
  \<comment> \<open>a nonzero limit beats none, two limits take the smaller one\<close>
  "common_window x y = (if x = 0 then y else if y = 0 then x else min x y)"

lemma peer_window_word: "0 \<le> w \<Longrightarrow> w \<le> SafeMaxOffset \<Longrightarrow> peer_window (word_of_int w) = w"
  by (simp add: peer_window_def uint_word_of_int)

lemma mergeWindow_common: "0 \<le> peer \<Longrightarrow> 0 \<le> loc \<Longrightarrow> mergeWindow peer loc = common_window peer loc"
  by (simp add: mergeWindow_def common_window_def)

lemma common_window_sym: "common_window x y = common_window y x"
  by (simp add: common_window_def min.commute)

definition plausible :: "Config \<Rightarrow> bool" where
  \<comment> \<open>the application id is a C string, the windows fit the wire field\<close>
  "plausible c \<longleftrightarrow> 0 \<notin> set (cf_AppID c) \<and> cf_TxWindowBytes c \<in> {0..SafeMaxOffset}
     \<and> cf_RxWindowBytes c \<in> {0..SafeMaxOffset}"

definition init_packet :: "Config \<Rightarrow> packet" where
  "init_packet c = \<lparr>pkt_typ = pktINIT, pkt_payload = marshalInit (local_init c)\<rparr>"

lemma rxInit_peer:
  assumes "plausible c" and "plausible (s_config b)" and "b_rxState b = hrxInit"
    and "rxInit E (init_packet c) b = (b', r)"
  defines "eff \<equiv> common_opts (s_config b) c" and "vital \<equiv> localDesired (s_config b) AND capEscape"
  shows "(eff AND vital \<noteq> vital \<longrightarrow> r = Some ErrIncompatible \<and> b_rxState b' = hrxInit \<and> \<not> s_negotiated b' = (\<not> s_negotiated b))
    \<and> (eff AND vital = vital \<longrightarrow> b_rxState b' = hrxFinfo \<and> s_negotiated b' \<and> b_opts b' = eff \<and> s_rxOpts b' = eff
      \<and> s_effOpts b' = eff
      \<and> b_txWindow b' = common_window (cf_TxWindowBytes (s_config b)) (cf_RxWindowBytes c)
      \<and> b_rxWindow b' = common_window (cf_RxWindowBytes (s_config b)) (cf_TxWindowBytes c) \<and> b_prefix b' = [])"
proof -
  have p: "parseInit (marshalInit (local_init c)) = Inr (local_init c)"
    using assms(1) by (simp add: plausible_def parse_local_init)
  have e: "effective_opts (localSupported (s_config b)) (localDesired (s_config b))
      (ip_supported (local_init c)) (ip_desired (local_init c)) = eff"
    by (simp add: local_init_def eff_def effective_common)
  have w: "mergeWindow (peer_window (ip_rxWindow (local_init c))) (cf_TxWindowBytes (s_config b))
      = common_window (cf_TxWindowBytes (s_config b)) (cf_RxWindowBytes c)"
    "mergeWindow (peer_window (ip_txWindow (local_init c))) (cf_RxWindowBytes (s_config b))
      = common_window (cf_RxWindowBytes (s_config b)) (cf_TxWindowBytes c)"
    using assms(1,2) common_window_sym
    by (simp_all add: plausible_def local_init_def peer_window_word mergeWindow_common)
  have x: "ip_prefix (local_init c) = []" by (simp add: local_init_def)
  show ?thesis
    using assms(3,4)
    by (auto simp: rxInit_def init_packet_def p negotiate_def e w x vital_def [symmetric] batch_write_def writer_write_def
        emit_def fine_def failed_def andThen_def Let_def)
qed

subsection \<open>The property\<close>

text \<open>
  Property C22. The two sides agree without a further exchange: when each processes the INIT
  packet the other's \<open>sendInit\<close> builds, both compute the same option set (what either wants
  or is in \<open>capUnion\<close>, as far as both support it), and the transmit window of each is the
  receive window of the other; and a side refuses with \<open>ErrIncompatible\<close> exactly when an
  escape option it needs is not in that common set.
\<close>

theorem negotiation_agrees:
  assumes "plausible (s_config a)" and "plausible (s_config b)"
    and "b_rxState a = hrxInit" and "rxInit E (init_packet (s_config b)) a = (a', ra)"
    and "b_rxState b = hrxInit" and "rxInit E' (init_packet (s_config a)) b = (b', rb)"
  shows "(ra = Some ErrIncompatible \<and> b_rxState a' = hrxInit \<longleftrightarrow>
        common_opts (s_config a) (s_config b) AND (localDesired (s_config a) AND capEscape)
          \<noteq> localDesired (s_config a) AND capEscape)
    \<and> (b_rxState a' = hrxFinfo \<and> b_rxState b' = hrxFinfo \<longrightarrow>
        b_opts a' = common_opts (s_config a) (s_config b) \<and> b_opts b' = b_opts a'
        \<and> b_txWindow a' = b_rxWindow b' \<and> b_rxWindow a' = b_txWindow b'
        \<and> b_txWindow a' = common_window (cf_TxWindowBytes (s_config a)) (cf_RxWindowBytes (s_config b)))"
proof -
  define ea va eb vb where "ea = common_opts (s_config a) (s_config b)" and "va = localDesired (s_config a) AND capEscape"
    and "eb = common_opts (s_config b) (s_config a)" and "vb = localDesired (s_config b) AND capEscape"
  note d = ea_def va_def eb_def vb_def
  have "eb = ea" unfolding d by (rule common_opts_sym)
  moreover note rxInit_peer [OF assms(2,1,3,4), folded d] rxInit_peer [OF assms(1,2,5,6), folded d]
    common_window_sym [of "cf_TxWindowBytes (s_config b)"] common_window_sym [of "cf_RxWindowBytes (s_config b)"]
  ultimately show ?thesis unfolding d [symmetric]
    by (cases "ea AND va = va"; cases "ea AND vb = vb") auto
qed

theorem negotiation_agrees_witness:
  "b_opts (fst (rxInit demoEnv (init_packet (defaults None)) (batch_start demoEnv demoSession)))
    = common_opts (defaults None) (defaults None)"
proof -
  let ?b = "batch_start demoEnv demoSession"
  let ?r = "rxInit demoEnv (init_packet (defaults None)) ?b"
  have s: "s_config ?b = defaults None" "b_rxState ?b = hrxInit"
    by (simp_all add: batch_start_def newBatch_def session.defs Let_def feedBraindead_def tick_def demoSession_def
        run_setup_def NewSession_def)
  have c: "plausible (defaults None)"
    by (simp add: plausible_def defaultAppID_text defaults_def zeroConfig_def Let_def)
  have "localDesired (defaults None) = capFPT" by (simp add: localDesired_def defaults_def zeroConfig_def Let_def)
  then have vital: "localDesired (defaults None) AND capEscape = 0" by (simp add: cap_defs)
  obtain b' r where r: "?r = (b', r)" by fastforce
  then have r': "rxInit demoEnv (init_packet (s_config ?b)) ?b = (b', r)" using s(1) by simp
  have "b_rxState b' = hrxFinfo"
    using rxInit_peer [OF c _ s(2) r] s(1) c vital by simp
  then show ?thesis
    using negotiation_agrees [OF _ _ s(2) r' s(2) r'] s(1) c r by simp
qed

end
