(* ===== verification/Hydra_Lifecycle.thy ===== *)
theory Hydra_Lifecycle
  imports Hydra_Gate
begin

section \<open>The life of a session\<close>

text \<open>
  A session lives through any number of calls of \<open>Run\<close>, \<open>SendDevice\<close>, \<open>Abort\<close> and
  \<open>Close\<close>, while its reader goroutine goes on. Its transport is closed at most once, its
  first error is its last, and an error that \<open>Run\<close> returns is final. What a batch does to the
  parts of the session this rests on is little: it appends to the log. The first section
  proves that once, for every statement about these parts.
\<close>

subsection \<open>Statements a batch cannot change\<close>

text \<open>
  \<open>I\<close> speaks of the closing, the abort, the recorded error and the log only; it survives every
  event but the closing of the transport, and every call from outside.
\<close>

locale session_invariant =
  fixes E :: env and I :: "batch \<Rightarrow> bool"
  assumes view: "s_closerSet b' = s_closerSet b \<Longrightarrow> s_closed b' = s_closed b \<Longrightarrow> s_aborted b' = s_aborted b \<Longrightarrow>
      s_err b' = s_err b \<Longrightarrow> s_log b' = s_log b \<Longrightarrow> I b' = I b"
    and event: "I b \<Longrightarrow> e \<noteq> EvTransportClose \<Longrightarrow> I (emit e b)"
    and calls: "I b \<Longrightarrow> I (absorb E x b)"
begin

abbreviation stays :: "outcome \<Rightarrow> bool" where "stays \<equiv> post I I"

lemma I_frame [simp]:
  "I (b\<lparr>s_config := x0\<rparr>) = I b" "I (b\<lparr>s_rxOpts := x1\<rparr>) = I b"
  "I (b\<lparr>s_effOpts := x2\<rparr>) = I b" "I (b\<lparr>s_negotiated := x3\<rparr>) = I b"
  "I (b\<lparr>s_inbox := x4\<rparr>) = I b" "I (b\<lparr>s_readErr := x5\<rparr>) = I b"
  "I (b\<lparr>s_readerDone := x6\<rparr>) = I b" "I (b\<lparr>s_devQ := x7\<rparr>) = I b"
  "I (b\<lparr>s_started := x8\<rparr>) = I b" "I (b\<lparr>s_runActive := x9\<rparr>) = I b"
  "I (b\<lparr>s_ctx := x10\<rparr>) = I b" "I (b\<lparr>s_clk := x11\<rparr>) = I b"
  "I (b\<lparr>b_opts := x12\<rparr>) = I b" "I (b\<lparr>b_txWindow := x13\<rparr>) = I b"
  "I (b\<lparr>b_rxWindow := x14\<rparr>) = I b" "I (b\<lparr>b_prefix := x15\<rparr>) = I b"
  "I (b\<lparr>b_productive := x16\<rparr>) = I b" "I (b\<lparr>b_txTimer := x17\<rparr>) = I b"
  "I (b\<lparr>b_devTimer := x18\<rparr>) = I b" "I (b\<lparr>b_braindead := x19\<rparr>) = I b"
  "I (b\<lparr>b_txState := x20\<rparr>) = I b" "I (b\<lparr>b_txRetries := x21\<rparr>) = I b"
  "I (b\<lparr>b_txSyncID := x22\<rparr>) = I b" "I (b\<lparr>b_blk := x23\<rparr>) = I b"
  "I (b\<lparr>b_txLastAck := x24\<rparr>) = I b" "I (b\<lparr>b_peerAcked := x25\<rparr>) = I b"
  "I (b\<lparr>b_hdxlink := x26\<rparr>) = I b" "I (b\<lparr>b_txOffer := x27\<rparr>) = I b"
  "I (b\<lparr>b_txReader := x28\<rparr>) = I b" "I (b\<lparr>b_txSeeker := x29\<rparr>) = I b"
  "I (b\<lparr>b_txInfo := x30\<rparr>) = I b" "I (b\<lparr>b_txPos := x31\<rparr>) = I b"
  "I (b\<lparr>b_txSkip := x32\<rparr>) = I b" "I (b\<lparr>b_txErr := x33\<rparr>) = I b"
  "I (b\<lparr>b_txEOB := x34\<rparr>) = I b" "I (b\<lparr>b_lastFinfo := x35\<rparr>) = I b"
  "I (b\<lparr>b_filesSent := x36\<rparr>) = I b" "I (b\<lparr>b_batchEnded := x37\<rparr>) = I b"
  "I (b\<lparr>b_finfoAckWait := x38\<rparr>) = I b" "I (b\<lparr>b_eofAckWait := x39\<rparr>) = I b"
  "I (b\<lparr>b_rxState := x40\<rparr>) = I b" "I (b\<lparr>b_filesRcvd := x41\<rparr>) = I b"
  "I (b\<lparr>b_lastRefusedFinfo := x42\<rparr>) = I b" "I (b\<lparr>b_lastRefusedAck := x43\<rparr>) = I b"
  "I (b\<lparr>b_rxWriter := x44\<rparr>) = I b" "I (b\<lparr>b_rxOpen := x45\<rparr>) = I b"
  "I (b\<lparr>b_rxInfo := x46\<rparr>) = I b" "I (b\<lparr>b_rxPos := x47\<rparr>) = I b"
  "I (b\<lparr>b_rxRetries := x48\<rparr>) = I b" "I (b\<lparr>b_rxSyncID := x49\<rparr>) = I b"
  "I (b\<lparr>b_rxLastSync := x50\<rparr>) = I b" "I (b\<lparr>b_rxTimer := x51\<rparr>) = I b"
  "I (b\<lparr>b_rxBlkLen := x52\<rparr>) = I b" "I (b\<lparr>b_devState := x53\<rparr>) = I b"
  "I (b\<lparr>b_devRetries := x54\<rparr>) = I b" "I (b\<lparr>b_devTxID := x55\<rparr>) = I b"
  "I (b\<lparr>b_devRxID := x56\<rparr>) = I b" "I (b\<lparr>b_devPending := x57\<rparr>) = I b"
  "I (b\<lparr>b_devQueue := x58\<rparr>) = I b"
  by (rule view; simp)+

lemma I_effects [simp]:
  "I (tick b) = I b" "I (feedBraindead E' b) = I b" "I (set_txTimer E' t b) = I b" "I (armTx E' b) = I b"
  "I (finishTxFile b) = I (closeTxOffer b)" "I (skipToEOF x b) = I b" "I (prepareFinfo b) = I b"
  "I (queueDev req b) = I b" "I (batch_sync E' b) = I b" "I (txDataAck pkt b) = I b"
  "I (devDack pkt b) = I b" "I (devPromote b) = I b"
  by (simp_all add: tick_def feedBraindead_def set_txTimer_def armTx_def finishTxFile_def skipToEOF_def
      prepareFinfo_def queueDev_def batch_sync_def txDataAck_def devDack_def devPromote_def Let_def
      split: option.split sum.split list.split)

lemma I_blocks [simp]:
  "I b \<Longrightarrow> I (closeWriter w b)" "I b \<Longrightarrow> I (recvCompleted i n e b)" "I b \<Longrightarrow> I (rxCloseFile x b)"
  "I b \<Longrightarrow> I (closeOffer ofr b)" "I b \<Longrightarrow> I (closeTxOffer b)" "I b \<Longrightarrow> I (sendCompleted n e b)"
  "I b \<Longrightarrow> I (rejectOffer ofr y b)"
  by (simp_all add: closeWriter_def recvCompleted_def rxCloseFile_def closeOffer_def closeTxOffer_def
      sendCompleted_def rejectOffer_def event Let_def split: option.split)

lemma I_write [simp]: "I b \<Longrightarrow> stays (writer_write E' s b)" "I b \<Longrightarrow> stays (batch_write E' t p b)"
  by (simp_all add: batch_write_def post_writer_write event split: option.split)

lemma I_then [simp]:
  "stays r \<Longrightarrow> (\<And>b. I b \<Longrightarrow> I (f b)) \<Longrightarrow> stays (andThen r (\<lambda>b. fine (f b)))"
  by (rule post_andThen [where J = I]) simp_all

lemma I_times: "I b \<Longrightarrow> stays (write_times n E' t b)"
proof (induction n arbitrary: b)
  case (Suc n)
  show ?case unfolding write_times.simps by (rule post_andThen [OF I_write(2) [OF Suc.prems]]) (rule Suc.IH)
qed simp

lemma I_badPosition [simp]: "I b \<Longrightarrow> stays (badPosition E' off eof b)"
  by (simp add: badPosition_def Let_def split: option.split)

lemma I_requestSkip [simp]: "I b \<Longrightarrow> stays (requestSkip E' e b)"
  by (simp add: requestSkip_def Let_def)

lemma I_rxInit: "I b \<Longrightarrow> stays (rxInit E' pkt b)"
proof -
  assume b: "I b"
  have "stays (negotiate p b)" for p using b by (simp add: negotiate_def Let_def)
  then have "stays (if b_rxState b = hrxInit then
          (case parseInit (pkt_payload pkt) of
             Inl _ \<Rightarrow> fine b
           | Inr p \<Rightarrow> andThen (negotiate p b) (\<lambda>b. fine (b\<lparr>b_rxState := hrxFinfo\<rparr>)))
        else fine b)"
    using b by (simp split: sum.split)
  then show ?thesis unfolding rxInit_def by (rule post_andThen) (rule I_write)
qed

lemma I_acceptFinfo: "I b \<Longrightarrow> acceptFinfo E' payload b = (ack, b') \<Longrightarrow> I b'"
  by (auto simp: acceptFinfo_def event Let_def split: sum.splits prod.splits option.splits if_splits)

lemma I_rxFinfo: "I b \<Longrightarrow> stays (rxFinfo E' pkt b)"
proof -
  assume b: "I b"
  have "I b'" if "acceptFinfo E' p (feedBraindead E' b) = (ack, b')" for p ack b'
    using I_acceptFinfo [OF _ that] b by simp
  with b show ?thesis by (auto simp: rxFinfo_def Let_def split: rxState.split prod.split)
qed

lemma I_rxData: "I b \<Longrightarrow> stays (rxData E' pkt b)"
proof -
  assume b: "I b"
  have "I b'" if "rxWrite E' data ((feedBraindead E' b)\<lparr>b_rxBlkLen := n\<rparr>) = (b', r)" for data n b' r
    using that b by (auto simp: rxWrite_def event Let_def split: option.splits)
  with b show ?thesis
    by (auto simp: rxData_def event Let_def split: sum.split prod.split option.split)
qed

lemma I_rxEOF: "I b \<Longrightarrow> stays (rxEOF E' pkt b)"
  by (simp add: rxEOF_def split: rxState.split sum.split)

lemma I_txFinfoAck: "I b \<Longrightarrow> stays (txFinfoAck E' pkt b)"
  by (auto simp: txFinfoAck_def event Let_def split: sum.split option.split)

lemma I_txRpos: "I b \<Longrightarrow> stays (txRpos E' pkt b)"
  by (simp add: txRpos_def event Let_def split: sum.split option.split)

lemma I_txEOFAck: "I b \<Longrightarrow> I (txEOFAck E' b)"
  by (auto simp: txEOFAck_def Let_def split: option.split)

lemma I_txIdle: "I b \<Longrightarrow> I (txIdle E' b)"
  by (simp add: txIdle_def)

lemma I_txEnd: "I b \<Longrightarrow> stays (txEnd E' b)"
  by (simp add: txEnd_def I_times)

lemma I_devRx: "I b \<Longrightarrow> stays (devRx E' pkt b)"
  by (simp add: devRx_def event Let_def split: sum.split)

lemma I_packet: "I b \<Longrightarrow> stays (handlePacket E' pkt b)"
  by (simp add: handlePacket_def event Let_def I_rxInit I_rxFinfo I_txFinfoAck I_rxData I_txRpos I_rxEOF
      I_txEOFAck I_txIdle I_txEnd I_devRx)

lemma I_txTimeout: "I b \<Longrightarrow> stays (txTimeout E' b)"
  by (simp add: txTimeout_def Let_def)

lemma I_devTimeout: "I b \<Longrightarrow> stays (devTimeout b)"
  by (simp add: devTimeout_def Let_def)

lemma I_devAction: "I b \<Longrightarrow> stays (devAction E' b)"
  by (simp add: devAction_def Let_def split: option.split)

lemma I_pull: "pullOffers E' b = Some b' \<Longrightarrow> I b \<Longrightarrow> I b'"
  by (erule pullOffers_rule [where I = I]) (simp_all add: event)

lemma I_sendData: "I b \<Longrightarrow> stays (sendData E' b)"
proof -
  assume b: "I b"
  have "stays (andThen (batch_write E' pktDATA p b') (sendData_sent E' n))" if "I b'" for p n b'
    by (rule post_andThen [OF I_write(2) [OF that]]) (simp add: sendData_sent_def event Let_def)
  with b show ?thesis by (simp add: sendData_def event Let_def split: option.split)
qed

lemma I_sendFinfo: "I b \<Longrightarrow> sendFinfo E' b = Some r \<Longrightarrow> stays r"
  using I_pull by (auto simp: sendFinfo_def split: option.splits if_splits)

lemma I_txAction: "I b \<Longrightarrow> txAction E' b = Some r \<Longrightarrow> stays r"
proof -
  assume b: "I b" and r: "txAction E' b = Some r"
  have start: "stays (andThen (writeRaw E' autostart b) (\<lambda>b. andThen (batch_write E' pktSTART [] b) (\<lambda>b.
      fine ((set_txTimer E' startInterval b)\<lparr>b_txState := htxSwait\<rparr>))))"
    by (rule post_andThen [where J = I]) (simp_all add: b post_writeRaw event split: option.split)
  show ?thesis
  proof (cases "b_txState b")
    case htxFinfo
    with r show ?thesis using I_sendFinfo [OF b] by (auto simp: txAction_def)
  qed (use b r start in \<open>auto simp: txAction_def sendInit_def I_sendData I_times\<close>)
qed

lemma I_teardown: "I b \<Longrightarrow> I (teardown e b)"
  by (simp add: teardown_def Let_def)

lemma I_batch: "batch_invariant E I I"
proof unfold_locales
  fix b dq req
  assume "I b"
  then show "I (queueDev req (b\<lparr>s_devQ := dq\<rparr>))" by simp
qed (simp_all add: calls I_packet I_txTimeout I_devTimeout I_devAction I_txAction)

end

sublocale session_invariant \<subseteq> batch: batch_invariant E I I
  by (rule I_batch)

subsection \<open>The session between its calls\<close>

definition closes :: "event list \<Rightarrow> nat" where
  "closes es = length (filter (\<lambda>e. e = EvTransportClose) es)"

lemma closes_append [simp]:
  "closes (xs @ ys) = closes xs + closes ys" "closes [] = 0" "closes (e # es) = (if e = EvTransportClose then Suc (closes es) else closes es)"
  by (simp_all add: closes_def)

text \<open>
  The sessions a program can hold: a new one, and what the calls, the reader goroutine and
  complete runs make of it.
\<close>

inductive lived :: "session \<Rightarrow> bool" where
  lv_new: "lived (NewSession cfg)"
| lv_call: "lived s \<Longrightarrow> lived (absorb E x s)"
| lv_run: "lived s \<Longrightarrow> Run E ctx s = Some (s', e) \<Longrightarrow> lived s'"

definition err_ok :: "'a session_scheme \<Rightarrow> bool" where
  "err_ok s \<longleftrightarrow> (s_closed s \<longrightarrow> s_aborted s) \<and> (s_aborted s \<longleftrightarrow> s_err s \<noteq> None)"

definition rest_ok :: "session \<Rightarrow> bool" where
  "rest_ok s \<longleftrightarrow> err_ok s \<and> \<not> s_runActive s \<and> closes (s_log s) \<le> 1 \<and> (\<not> s_closed s \<longrightarrow> closes (s_log s) = 0)"

definition busy_ok :: "'a session_scheme \<Rightarrow> bool" where
  \<comment> \<open>while \<open>Run\<close> is active, the transport is known\<close>
  "busy_ok b \<longleftrightarrow> err_ok b \<and> s_closerSet b \<and> closes (s_log b) = (if s_closed b then 1 else 0)"

lemmas exported_defs = SendDevice_def Abort_def Close_def session_close_def courtesyCancel_def triggerAbort_def
  recordError_def writeRaw_def emit_def Let_def

lemma busy_absorb: "busy_ok b \<Longrightarrow> busy_ok (absorb E x b)"
  by (cases x) (auto simp: busy_ok_def err_ok_def exported_defs split: prod.split bool.split)

lemma rest_absorb: "rest_ok s \<Longrightarrow> rest_ok (absorb E x s)"
  by (cases x) (auto simp: rest_ok_def err_ok_def exported_defs split: prod.split bool.split)

interpretation life: session_invariant E "busy_ok :: batch \<Rightarrow> bool" for E
  by unfold_locales (simp_all add: busy_absorb, auto simp: busy_ok_def err_ok_def emit_def)

lemma batch_busy: "batch_run E b = Some r \<Longrightarrow> busy_ok b \<Longrightarrow> busy_ok (fst r)"
proof -
  assume r: "batch_run E b = Some r" and b: "busy_ok b"
  then obtain b1 e1 where r1: "run_loop E (feedBraindead E b) = Some (b1, e1)" "r = (teardown e1 b1, e1)"
    by (auto simp: batch_run_def)
  have "busy_ok (feedBraindead E b)" using b by simp
  with r1(1) have "busy_ok b1" using life.batch.run_loop_keeps [of E] by (cases e1) fastforce+
  with r1(2) show ?thesis by (simp add: life.I_teardown)
qed

text \<open>The end of a run: either nothing is touched, or the error is recorded and the transport closed.\<close>

lemma finish_busy:
  assumes "busy_ok (fst r)" and "run_finish E r = (s, x)"
  shows "busy_ok s \<and> (x = None \<longrightarrow> s_log s = s_log (fst r) \<and> s_aborted s = s_aborted (fst r))
    \<and> (x \<noteq> None \<longrightarrow> s_err s = x \<and> s_closed s)"
proof (cases "case snd r of Some e \<Rightarrow> if endPhaseHangup e (fst r) then None else Some e | None \<Rightarrow> None")
  case None
  with assms show ?thesis
    by (auto simp: run_finish_def Let_def busy_ok_def err_ok_def session.defs)
next
  case (Some e)
  define s1 where "s1 = triggerAbort (recordError e (session.truncate (fst r)))"
  define s2 where "s2 = (if \<not> errors_is e ErrPeerCancel \<and> \<not> isTransportErr e then courtesyCancel E s1 else s1)"
  have s1: "busy_ok s1 \<and> s_err s1 \<noteq> None \<and> s_aborted s1"
    using assms(1) by (auto simp: s1_def busy_ok_def err_ok_def recordError_def triggerAbort_def session.defs)
  then have s2: "busy_ok s2 \<and> s_err s2 \<noteq> None \<and> s_aborted s2"
    by (auto simp: s2_def busy_ok_def err_ok_def courtesyCancel_def writeRaw_def emit_def Let_def)
  have "s = session_close s2 \<and> x = s_err (session_close s2)"
    using assms(2) Some by (auto simp: run_finish_def Let_def s1_def s2_def)
  with s2 show ?thesis
    by (auto simp: session_close_def busy_ok_def err_ok_def emit_def Let_def)
qed

lemma run_outcome:
  assumes "rest_ok s" and "\<not> s_aborted s" and "cf_Closer (s_config s) \<or> en_closable E" and "Run E ctx s = Some (s', x)"
  shows "busy_ok s' \<and> \<not> s_runActive s' \<and> (x \<noteq> None \<longrightarrow> s_err s' = x \<and> s_closed s')"
proof -
  define s1 where "s1 = run_setup ctx (s\<lparr>s_runActive := True, s_closerSet := True\<rparr>)"
  have b: "busy_ok (newBatch s1)"
    using assms(1,2) by (simp add: s1_def run_setup_def newBatch_def session.defs Let_def rest_ok_def busy_ok_def err_ok_def)
  obtain r where r: "batch_run E (newBatch s1) = Some r"
    and fin: "(case run_finish E r of (s, e) \<Rightarrow> (s\<lparr>s_runActive := False\<rparr>, e)) = (s', x)"
    using assms by (auto simp: Run_def Let_def s1_def rest_ok_def split: if_splits)
  obtain s2 where s2: "run_finish E r = (s2, x)" "s' = s2\<lparr>s_runActive := False\<rparr>"
    using fin by (auto split: prod.splits)
  with finish_busy [OF batch_busy [OF r b] s2(1)] show ?thesis by (auto simp: busy_ok_def err_ok_def)
qed

text \<open>After an abort nothing runs any more.\<close>

lemma run_aborted:
  assumes "rest_ok s" and "s_aborted s" and "cf_Closer (s_config s) \<or> en_closable E"
  shows "\<exists>s'. Run E ctx s = Some (s', s_err s) \<and> s_log s' = s_log s \<and> rest_ok s'"
  using assms by (auto simp: Run_def rest_ok_def err_ok_def Let_def)

lemma rest_run: "rest_ok s \<Longrightarrow> Run E ctx s = Some (s', x) \<Longrightarrow> rest_ok s'"
proof (cases "cf_Closer (s_config s) \<or> en_closable E")
  case c: True
  assume s: "rest_ok s" and r: "Run E ctx s = Some (s', x)"
  show ?thesis
  proof (cases "s_aborted s")
    case True
    with run_aborted [OF s True c, of ctx] r show ?thesis by auto
  next
    case False
    with run_outcome [OF s False c r] show ?thesis by (auto simp: rest_ok_def busy_ok_def)
  qed
qed (auto simp: Run_def rest_ok_def err_ok_def Let_def)

lemma rest_lived: "lived s \<Longrightarrow> rest_ok s"
proof (induction rule: lived.induct)
  case (lv_new cfg)
  show ?case by (simp add: rest_ok_def err_ok_def NewSession_def)
qed (simp_all add: rest_absorb rest_run)

subsection \<open>The properties\<close>

text \<open>
  Property C16. Between calls, whatever calls were made in whatever order and whatever the
  reader, the peer and the handlers did: no \<open>Run\<close> is active, the transport was closed at most
  once and only by the one closing of the session, a closed session is aborted, and an error
  is recorded exactly when the session is aborted.
\<close>

theorem session_lifecycle:
  assumes "lived s"
  shows "\<not> s_runActive s \<and> closes (s_log s) \<le> 1 \<and> (closes (s_log s) = 1 \<longrightarrow> s_closed s)
    \<and> (s_closed s \<longrightarrow> s_aborted s) \<and> (s_aborted s \<longleftrightarrow> s_err s \<noteq> None)"
  using rest_lived [OF assms] by (auto simp: rest_ok_def err_ok_def)

text \<open>
  Property C15. An error of \<open>Run\<close> is final: it is the recorded one, the transport has been
  closed exactly once, and every later \<open>Run\<close> returns the same error and does nothing. After a
  nil, the transport has not been closed unless \<open>Abort\<close> or \<open>Close\<close> was called meanwhile.
\<close>

theorem run_error_final:
  assumes "lived s" and "\<not> s_aborted s" and "cf_Closer (s_config s) \<or> en_closable E" and "Run E ctx s = Some (s', x)"
  shows "(\<forall>e. x = Some e \<longrightarrow> s_err s' = Some e \<and> closes (s_log s') = 1
      \<and> (\<forall>E2 ctx2. cf_Closer (s_config s') \<or> en_closable E2 \<longrightarrow>
          (\<exists>s2. Run E2 ctx2 s' = Some (s2, Some e) \<and> s_log s2 = s_log s')))
    \<and> (x = None \<and> \<not> s_aborted s' \<longrightarrow> closes (s_log s') = 0)"
proof -
  have r: "rest_ok s" by (rule rest_lived [OF assms(1)])
  have o: "busy_ok s' \<and> (x \<noteq> None \<longrightarrow> s_err s' = x \<and> s_closed s')" "rest_ok s'"
    using run_outcome [OF r assms(2-4)] rest_run [OF r assms(4)] by simp_all
  then have "s_aborted s'" if "x = Some e" for e using that by (simp add: busy_ok_def err_ok_def)
  moreover have "\<exists>s2. Run E2 ctx2 s' = Some (s2, s_err s') \<and> s_log s2 = s_log s'"
    if "s_aborted s'" "cf_Closer (s_config s') \<or> en_closable E2" for E2 ctx2
    using run_aborted [OF o(2) that, of ctx2] by blast
  ultimately have later: "\<exists>s2. Run E2 ctx2 s' = Some (s2, Some e) \<and> s_log s2 = s_log s'"
    if "x = Some e" "cf_Closer (s_config s') \<or> en_closable E2" for e E2 ctx2
    using o(1) that by (metis option.distinct(1))
  have "s_err s' = Some e \<and> closes (s_log s') = 1" if "x = Some e" for e
    using o(1) that by (simp add: busy_ok_def)
  moreover have "closes (s_log s') = 0" if "\<not> s_aborted s'"
    using o(1) that by (auto simp: busy_ok_def err_ok_def)
  ultimately show ?thesis using later by blast
qed

text \<open>
  Property C40. \<open>Close\<close> before the first \<open>Run\<close> uses up the one closing of the session while no
  transport is known yet: the later \<open>Run\<close> returns \<open>ErrSessionClosed\<close>, nothing closes the
  transport, neither then nor in a second \<open>Close\<close>. \<open>Close\<close> is documented to release the
  transport and an error of \<open>Run\<close> to mean that the transport is closed.
\<close>

theorem close_before_run:
  assumes "cf_Closer (defaults cfg) \<or> en_closable E"
  shows "\<exists>s'. Run E ctx (Close (NewSession cfg)) = Some (s', Some ErrSessionClosed) \<and> closes (s_log s') = 0
    \<and> closes (s_log (Close s')) = 0 \<and> closes (s_log (Abort E s')) = 0"
  using assms
  by (simp add: Run_def Close_def Abort_def NewSession_def recordError_def triggerAbort_def session_close_def
      courtesyCancel_def Let_def)

text \<open>The theorems at a concrete session.\<close>

theorem session_lifecycle_witness: "s_err (Close (NewSession None)) \<noteq> None"
proof -
  have "lived (absorb demoEnv OutClose (NewSession None))" by (intro lv_call lv_new)
  then have l: "lived (Close (NewSession None))" by simp
  have "s_aborted (Close (NewSession None))"
    by (simp add: Close_def triggerAbort_def session_close_def emit_def Let_def)
  with session_lifecycle [OF l] show ?thesis by blast
qed

theorem close_before_run_witness:
  "\<exists>s'. Run demoEnv None (Close (NewSession None)) = Some (s', Some ErrSessionClosed) \<and> closes (s_log s') = 0"
proof -
  have "en_closable demoEnv" by (simp add: demoEnv_def)
  then show ?thesis using close_before_run [of None demoEnv None] by blast
qed

text \<open>A batch that fails at once: the transport is broken.\<close>

definition brokenEnv :: env where "brokenEnv = demoEnv\<lparr>en_write := (\<lambda>_. Some SysEPIPE)\<rparr>"

lemma broken_run: "\<exists>s'. Run brokenEnv None (NewSession None) = Some (s', Some SysEPIPE)"
proof -
  define s1 where "s1 = run_setup None ((NewSession None)\<lparr>s_runActive := True, s_closerSet := True\<rparr>)"
  define b where "b = feedBraindead brokenEnv (newBatch s1)"
  have b: "b_txState b = htxStart" "b_devState b = htdDone" "b_devQueue b = []" "s_err b = None"
    by (simp_all add: b_def feedBraindead_def tick_def newBatch_def session.defs s1_def run_setup_def NewSession_def Let_def)
  have "devAction brokenEnv b = fine b" using b by (simp add: devAction_def devPromote_def Let_def)
  moreover have "txAction brokenEnv b = Some (emit (EvRaw autostart (Some SysEPIPE)) b, Some SysEPIPE)"
    using b by (simp add: txAction_def writeRaw_def brokenEnv_def Let_def)
  ultimately have "run_body brokenEnv b = Some (emit (EvRaw autostart (Some SysEPIPE)) b, Some SysEPIPE)"
    by (simp add: run_body_def fine_def)
  then have "run_loop brokenEnv b = Some (emit (EvRaw autostart (Some SysEPIPE)) b, Some SysEPIPE)"
    using b by (subst run_loop.simps) simp
  then obtain b1 where r: "batch_run brokenEnv (newBatch s1) = Some (b1, Some SysEPIPE)"
    "b1 = teardown (Some SysEPIPE) (emit (EvRaw autostart (Some SysEPIPE)) b)"
    by (simp add: batch_run_def b_def)
  have "b_txState b1 = htxStart" "s_err b1 = None"
    unfolding r(2) using b
    by (simp_all add: teardown_def rxCloseFile_def closeWriter_def recvCompleted_def sendCompleted_def closeTxOffer_def
        closeOffer_def emit_def Let_def split: option.split)
  then have "snd (run_finish brokenEnv (b1, Some SysEPIPE)) = Some SysEPIPE"
    by (simp add: run_finish_def endPhaseHangup_def tx_order recordError_def triggerAbort_def courtesyCancel_def
        writeRaw_def session_close_def emit_def session.defs Let_def)
  moreover have "en_closable brokenEnv" by (simp add: brokenEnv_def demoEnv_def)
  moreover have "\<not> s_runActive (NewSession None)" "\<not> s_aborted (NewSession None)" by (simp_all add: NewSession_def)
  ultimately show ?thesis using r(1)
    by (auto simp: Run_def Let_def s1_def split: prod.split)
qed

theorem run_error_final_witness:
  "\<exists>s'. Run brokenEnv None (NewSession None) = Some (s', Some SysEPIPE) \<and> s_err s' = Some SysEPIPE \<and> closes (s_log s') = 1"
proof -
  obtain s' where r: "Run brokenEnv None (NewSession None) = Some (s', Some SysEPIPE)" using broken_run by blast
  have "\<not> s_aborted (NewSession None)" "en_closable brokenEnv"
    by (simp_all add: NewSession_def brokenEnv_def demoEnv_def)
  from run_error_final [OF lv_new this(1) _ r] this(2) r show ?thesis by blast
qed

end
