(* ===== verification/Hydra_Resync.thy ===== *)
theory Hydra_Resync
  imports Hydra_Demo
begin

section \<open>Where two machines disagree\<close>

text \<open>
  Two places where the sides, or the machines of one side, keep state that does not fit
  together: the synchronisation id of reposition requests, and the device queue at the end of
  a batch.
\<close>

subsection \<open>The first reposition request of a later file\<close>

text \<open>The first request of a file carries the id 1, because accepting the file resets it.\<close>

lemma accepted_resets:
  "acceptFinfo E payload r = (ack, r') \<Longrightarrow> b_rxState r \<noteq> hrxData \<Longrightarrow> b_rxState r' = hrxData \<Longrightarrow>
    b_rxSyncID r' = 0 \<and> b_rxRetries r' = 0 \<and> b_rxTimer r' = None \<and> s_config r' = s_config r
      \<and> 0 \<le> b_rxPos r' \<and> b_rxPos r' \<le> SafeMaxOffset"
  by (auto simp: acceptFinfo_def recvCompleted_def closeWriter_def emit_def Let_def
      split: sum.splits prod.splits option.splits if_splits)

lemma first_request:
  assumes "b_rxSyncID r = 0" and "b_rxRetries r = 0" and "b_rxTimer r = None" and "1 \<le> cf_MaxRetries (s_config r)"
  shows "\<exists>s x. s_log (fst (badPosition E offset isEOF r)) = s_log r @ [EvSend s x]
    \<and> sn_packet s = \<lparr>pkt_typ = pktRPOS, pkt_payload =
        marshalRpos \<lparr>rp_offset = b_rxPos r, rp_blocksize = ladder (b_rxBlkLen r div 2), rp_id = 1\<rparr>\<rparr>"
  using assms by (auto simp: badPosition_def batch_write_def writer_write_def emit_def tick_def Let_def)

text \<open>
  Property C37. A resynchronisation is lost across files. The receiver starts its request ids
  again with every file it accepts, so the first request of every file carries the id 1; the
  sender keeps the id of the last request it honoured when it goes on to the next file. A
  sender that honoured the id 1 in an earlier file takes the first request of a later file
  for a duplicate: it counts a retry, and neither its position nor its state changes, so it
  goes on sending past the gap.
\<close>

theorem resync_lost_across_files:
  assumes "acceptFinfo E payload r = (ack, r')" and "b_rxState r \<noteq> hrxData" and "b_rxState r' = hrxData"
    and "1 \<le> cf_MaxRetries (s_config r)" and "b_txSyncID b = 1" and "b_txSyncID c = b_txSyncID (prepareFinfo (finishTxFile b))"
    and "in_transfer (b_txState c)" and "b_txRetries c < cf_MaxRetries (s_config c)"
  shows "\<exists>s x rp. s_log (fst (badPosition E offset isEOF r')) = s_log r' @ [EvSend s x]
    \<and> pkt_typ (sn_packet s) = pktRPOS \<and> parseRpos (pkt_payload (sn_packet s)) = Inr rp \<and> rp_offset rp = b_rxPos r'
    \<and> txRpos E' (sn_packet s) c = fine (c\<lparr>b_txRetries := b_txRetries c + 1\<rparr>)"
proof -
  have r': "b_rxSyncID r' = 0" "b_rxRetries r' = 0" "b_rxTimer r' = None" "s_config r' = s_config r"
    "0 \<le> b_rxPos r'" "b_rxPos r' \<le> SafeMaxOffset"
    using accepted_resets [OF assms(1-3)] by simp_all
  let ?rp = "\<lparr>rp_offset = b_rxPos r', rp_blocksize = ladder (b_rxBlkLen r' div 2), rp_id = 1\<rparr>"
  obtain s x where s: "s_log (fst (badPosition E offset isEOF r')) = s_log r' @ [EvSend s x]"
    "sn_packet s = \<lparr>pkt_typ = pktRPOS, pkt_payload = marshalRpos ?rp\<rparr>"
    using first_request [OF r'(1-3)] assms(4) r'(4) by metis
  have p: "parseRpos (marshalRpos ?rp) = Inr ?rp"
    by (rule parseRpos_marshal) (use r'(5,6) in \<open>simp add: rpos_in_range_def fits_int32_def ladder_def\<close>)
  have "b_txSyncID (prepareFinfo (finishTxFile b)) = 1"
    using assms(5) by (simp add: prepareFinfo_def finishTxFile_def closeTxOffer_def closeOffer_def emit_def Let_def
        split: option.split)
  then have "txRpos E' (sn_packet s) c = fine (c\<lparr>b_txRetries := b_txRetries c + 1\<rparr>)"
    using assms(6-8) s(2) p by (simp add: txRpos_def Let_def)
  with s p show ?thesis by (intro exI [of _ s] exI [of _ x] exI [of _ ?rp]) simp
qed

text \<open>The theorem at a file of two bytes and a sender that repositioned once before.\<close>

definition receiverB :: batch where "receiverB = ex_start\<lparr>b_rxState := hrxFinfo\<rparr>"
definition senderA :: batch where "senderA = ex_start\<lparr>b_txState := htxEOFAck, b_txSyncID := 1\<rparr>"

lemma receiverB_accepts:
  "\<exists>r'. acceptFinfo exEnv (marshalFinfo peerFile False) receiverB = (0, r') \<and> b_rxState r' = hrxData"
proof -
  have "parseFinfo (marshalFinfo peerFile False) = Inr peerFile"
    using parseFinfo_marshal [of peerFile False] by (simp add: peerFile_def)
  then show ?thesis
    by (simp add: acceptFinfo_def finfo_info_def peerFile_def Let_def to_int32_def)
qed

theorem resync_lost_across_files_witness:
  "\<exists>p b'. txRpos exEnv p (senderA\<lparr>b_txState := htxXdata\<rparr>) = fine b' \<and> b_txPos b' = b_txPos senderA"
proof -
  obtain r' where r: "acceptFinfo exEnv (marshalFinfo peerFile False) receiverB = (0, r')" "b_rxState r' = hrxData"
    using receiverB_accepts by blast
  have "cf_MaxRetries (defaults None) = 10" by (simp add: defaults_def zeroConfig_def Let_def)
  moreover have "s_config ex_start = defaults None" by (rule ex_start_facts)
  moreover have "b_txRetries ex_start = 0"
    by (simp add: ex_start_def batch_start_def newBatch_def session.defs Let_def feedBraindead_def tick_def)
  moreover have "b_txSyncID (prepareFinfo (finishTxFile senderA)) = 1"
    by (simp add: senderA_def prepareFinfo_def finishTxFile_def closeTxOffer_def closeOffer_def emit_def Let_def
        split: option.split)
  ultimately have "\<exists>s x rp. s_log (fst (badPosition exEnv 5 False r')) = s_log r' @ [EvSend s x]
    \<and> pkt_typ (sn_packet s) = pktRPOS \<and> parseRpos (pkt_payload (sn_packet s)) = Inr rp \<and> rp_offset rp = b_rxPos r'
    \<and> txRpos exEnv (sn_packet s) (senderA\<lparr>b_txState := htxXdata\<rparr>)
      = fine (senderA\<lparr>b_txState := htxXdata, b_txRetries := b_txRetries (senderA\<lparr>b_txState := htxXdata\<rparr>) + 1\<rparr>)"
    by (intro resync_lost_across_files [OF r(1) _ r(2), of senderA])
      (simp_all add: receiverB_def senderA_def in_transfer_def)
  then show ?thesis by (elim exE conjE) (rule exI, rule exI, rule conjI, assumption, simp)
qed

subsection \<open>Datagrams at the end of a batch\<close>

text \<open>
  Property C38. A datagram that waits in the queue while none is in flight does not hold the END
  exchange up: the synchronisation looks at the machine, which is idle, and not at the
  queue. Once the END exchange has begun nothing is sent from the queue any more, and the
  next batch starts with an empty one, so a datagram that \<open>SendDevice\<close> took is lost without an error.
  The comment on \<open>endPhaseHangup\<close> says that the gate waits for the device queue.
\<close>

theorem queued_datagram_lost:
  assumes "b_txState b = htxRend" and "b_rxState b = hrxDone" and "b_devState b = htdDone"
  shows "b_txState (batch_sync E b) = htxEnd \<and> b_devQueue (batch_sync E b) = b_devQueue b
    \<and> (\<forall>b1. htxEnd \<le> b_txState b1 \<longrightarrow>
        (\<exists>b'. devAction E b1 = fine b' \<and> s_log b' = s_log b1 \<and> b_txState b' = b_txState b1))
    \<and> b_devQueue (newBatch s) = []"
proof -
  have s: "batch_sync E b = b\<lparr>b_txTimer := None, b_txRetries := 0, b_txState := htxEnd\<rparr>"
    using assms by (simp add: batch_sync_def)
  have d: "s_log (devPromote c) = s_log c \<and> b_txState (devPromote c) = b_txState c" for c
    by (simp add: devPromote_def split: list.split)
  have "devAction E c = fine (devPromote c)" if "htxEnd \<le> b_txState c" for c
    using that d [of c] by (simp add: devAction_def Let_def)
  then have "\<exists>b'. devAction E c = fine b' \<and> s_log b' = s_log c \<and> b_txState b' = b_txState c"
    if "htxEnd \<le> b_txState c" for c
    using that d [of c] by blast
  with s show ?thesis by (simp add: newBatch_def session.defs Let_def)
qed

theorem queued_datagram_lost_witness:
  "\<exists>b. b_devQueue b = [\<lparr>dd_id = 0, dd_device = str ''CON'', dd_payload = [1]\<rparr>]
    \<and> b_txState (batch_sync exEnv b) = htxEnd \<and> b_devQueue (batch_sync exEnv b) \<noteq> []"
proof -
  let ?b = "ex_start\<lparr>b_txState := htxRend, b_rxState := hrxDone, b_devState := htdDone,
    b_devQueue := [\<lparr>dd_id = 0, dd_device = str ''CON'', dd_payload = [1]\<rparr>]\<rparr>"
  show ?thesis using queued_datagram_lost [of ?b exEnv] by (intro exI [of _ ?b]) simp
qed

end
