(* ===== verification/Hydra_DeviceNet.thy ===== *)
theory Hydra_DeviceNet
  imports Hydra_Gate
begin

section \<open>The device channel between two sides\<close>

text \<open>
  The sending half of one session and the receiving half of the other, joined by two
  channels that keep the order of what they carry and may lose any of it. The steps are the
  functions of \<open>dev.go\<close>; everything else either side does is a step that leaves the fields of
  the device machine alone. What the sending side queued is delivered in order, each datagram
  once, with at most the datagram in flight and the queue outstanding.
\<close>

subsection \<open>The network\<close>

definition frames_sent :: "byte \<Rightarrow> event list \<Rightarrow> packet list" where
  \<comment> \<open>the packets of a type the transport took\<close>
  "frames_sent t es = concat (map (\<lambda>e. case e of
     EvSend f None \<Rightarrow> if pkt_typ (sn_packet f) = t then [sn_packet f] else [] | _ \<Rightarrow> []) es)"

definition new_frames :: "byte \<Rightarrow> batch \<Rightarrow> batch \<Rightarrow> packet list" where
  "new_frames t b b' = frames_sent t (drop (length (s_log b)) (s_log b'))"

definition deliveries :: "event list \<Rightarrow> (gostring \<times> byte list) list" where
  "deliveries es = concat (map (\<lambda>e. case e of EvDevice d p \<Rightarrow> [(d, p)] | _ \<Rightarrow> []) es)"

definition datagram :: "devDataPkt \<Rightarrow> gostring \<times> byte list" where
  "datagram d = (dd_device d, dd_payload d)"

record dnet =
  dn_snd :: batch
  dn_rcv :: batch
  dn_data :: "packet list"
  dn_acks :: "packet list"
  dn_taken :: "(gostring \<times> byte list) list"

definition same_device :: "batch \<Rightarrow> batch \<Rightarrow> bool" where
  "same_device b b' \<longleftrightarrow> b_devState b' = b_devState b \<and> b_devPending b' = b_devPending b \<and> b_devQueue b' = b_devQueue b
     \<and> b_devTxID b' = b_devTxID b \<and> b_devRxID b' = b_devRxID b \<and> deliveries (s_log b') = deliveries (s_log b)"

inductive dstep :: "env \<Rightarrow> env \<Rightarrow> dnet \<Rightarrow> dnet \<Rightarrow> bool" for Es Er where
  dn_queue: "0 \<notin> set (dr_device req) \<Longrightarrow>
    dstep Es Er n (n\<lparr>dn_snd := queueDev req (dn_snd n),
      dn_taken := dn_taken n @ [datagram (last (b_devQueue (queueDev req (dn_snd n))))]\<rparr>)"
| dn_act: "devAction Es (dn_snd n) = (a, None) \<Longrightarrow> htxRinit < b_txState (dn_snd n) \<longrightarrow> has (b_opts (dn_snd n)) capDEV \<Longrightarrow>
    dstep Es Er n (n\<lparr>dn_snd := a, dn_data := dn_data n @ new_frames pktDEVDATA (dn_snd n) a\<rparr>)"
| dn_timer: "devTimeout ((dn_snd n)\<lparr>b_devTimer := None\<rparr>) = (a, None) \<Longrightarrow> dstep Es Er n (n\<lparr>dn_snd := a\<rparr>)"
| dn_deliver: "dn_data n = p # ps \<Longrightarrow> devRx Er p (dn_rcv n) = (b, None) \<Longrightarrow>
    dstep Es Er n (n\<lparr>dn_rcv := b, dn_data := ps, dn_acks := dn_acks n @ new_frames pktDEVDACK (dn_rcv n) b\<rparr>)"
| dn_ack: "dn_acks n = p # ps \<Longrightarrow> dstep Es Er n (n\<lparr>dn_snd := devDack p (dn_snd n), dn_acks := ps\<rparr>)"
| dn_lose_data: "dn_data n = ps @ p # qs \<Longrightarrow> dstep Es Er n (n\<lparr>dn_data := ps @ qs\<rparr>)"
| dn_lose_ack: "dn_acks n = ps @ p # qs \<Longrightarrow> dstep Es Er n (n\<lparr>dn_acks := ps @ qs\<rparr>)"
| dn_other_snd: "same_device (dn_snd n) a \<Longrightarrow> dstep Es Er n (n\<lparr>dn_snd := a\<rparr>)"
| dn_other_rcv: "same_device (dn_rcv n) b \<Longrightarrow> dstep Es Er n (n\<lparr>dn_rcv := b\<rparr>)"

definition dn_start :: "session \<Rightarrow> session \<Rightarrow> dnet" where
  "dn_start s r = \<lparr>dn_snd = newBatch s, dn_rcv = newBatch r, dn_data = [], dn_acks = [], dn_taken = []\<rparr>"

subsection \<open>Channel contents\<close>

definition data_of :: "u32 \<Rightarrow> packet \<Rightarrow> bool" where
  "data_of i p \<longleftrightarrow> (\<exists>d. parseDevData (pkt_payload p) = Inr d \<and> dd_id d = i)"

definition data_is :: "devDataPkt \<Rightarrow> packet \<Rightarrow> bool" where
  "data_is d p \<longleftrightarrow> parseDevData (pkt_payload p) = Inr d"

definition ack_of :: "u32 \<Rightarrow> packet \<Rightarrow> bool" where
  "ack_of i p \<longleftrightarrow> parseDevAck (pkt_payload p) = Inr i"

subsection \<open>The invariant\<close>

text \<open>
  Of the sender \<open>a\<close>, the receiver's last id \<open>rx\<close>, what it delivered, the two channels and what
  was taken: nothing in flight, in flight and not delivered, in flight and delivered.
\<close>

definition proper :: "devDataPkt \<Rightarrow> bool" where
  "proper d \<longleftrightarrow> 0 \<notin> set (dd_device d) \<and> length (dd_device d) = 3"

definition dev_rel :: "batch \<Rightarrow> u32 \<Rightarrow> (gostring \<times> byte list) list \<Rightarrow> packet list \<Rightarrow> packet list \<Rightarrow>
    (gostring \<times> byte list) list \<Rightarrow> bool" where
  "dev_rel a rx D data acks taken \<longleftrightarrow> list_all proper (b_devQueue a) \<and>
     (case b_devPending a of
        None \<Rightarrow> b_devState a = htdDone \<and> rx = b_devTxID a \<and> list_all (data_of rx) data \<and> list_all (ack_of rx) acks
          \<and> taken = D @ map datagram (b_devQueue a)
      | Some d \<Rightarrow> b_devState a \<noteq> htdDone \<and> dd_id d = b_devTxID a \<and> proper d \<and>
          ((rx = dd_id d - 1 \<and> phased (data_of rx) (data_is d) data \<and> list_all (ack_of rx) acks
             \<and> taken = D @ datagram d # map datagram (b_devQueue a))
           \<or> (rx = dd_id d \<and> list_all (data_of rx) data \<and> phased (ack_of (rx - 1)) (ack_of rx) acks
             \<and> taken = D @ map datagram (b_devQueue a))))"

lemma dev_rel_view:
  "b_devState a' = b_devState a \<Longrightarrow> b_devPending a' = b_devPending a \<Longrightarrow> b_devQueue a' = b_devQueue a \<Longrightarrow>
    b_devTxID a' = b_devTxID a \<Longrightarrow> dev_rel a' rx D data acks taken = dev_rel a rx D data acks taken"
  by (simp add: dev_rel_def split: option.split)

lemma data_is_of: "data_is d p \<Longrightarrow> data_of (dd_id d) p"
  by (auto simp: data_is_def data_of_def)

subsection \<open>The sender's steps\<close>

lemma rel_queue:
  "dev_rel a rx D data acks taken \<Longrightarrow> 0 \<notin> set (dr_device req) \<Longrightarrow>
    dev_rel (queueDev req a) rx D data acks (taken @ [datagram (last (b_devQueue (queueDev req a)))])"
proof -
  assume r: "dev_rel a rx D data acks taken" and z: "0 \<notin> set (dr_device req)"
  obtain d where d: "b_devQueue (queueDev req a) = b_devQueue a @ [d]" "proper d"
  proof -
    have "0 \<notin> set (if 3 < length (dr_device req) then take 3 (dr_device req) else dr_device req)"
      using z by (auto dest: in_set_takeD)
    then show ?thesis using that by (simp add: queueDev_def proper_def Let_def)
  qed
  have "b_devState (queueDev req a) = b_devState a" "b_devPending (queueDev req a) = b_devPending a"
    "b_devTxID (queueDev req a) = b_devTxID a"
    by (simp_all add: queueDev_def Let_def)
  with r d show ?thesis by (auto simp: dev_rel_def split: option.splits)
qed

lemma rel_promote: "dev_rel a rx D data acks taken \<Longrightarrow> dev_rel (devPromote a) rx D data acks taken"
  by (auto simp: devPromote_def dev_rel_def proper_def datagram_def phased_all split: list.split)

lemma promote_keeps:
  "s_log (devPromote a) = s_log a" "b_txState (devPromote a) = b_txState a" "b_opts (devPromote a) = b_opts a"
  by (simp_all add: devPromote_def split: list.split)

lemma rel_act:
  assumes r: "dev_rel a rx D data acks taken" and act: "devAction Es a = (a', None)"
    and dev: "htxRinit < b_txState a \<longrightarrow> has (b_opts a) capDEV"
  shows "dev_rel a' rx D (data @ new_frames pktDEVDATA a a') acks taken"
proof -
  let ?a = "devPromote a"
  have p: "dev_rel ?a rx D data acks taken" by (rule rel_promote [OF r])
  show ?thesis
  proof (cases "b_devState ?a \<noteq> htdData \<or> b_txState ?a \<le> htxRinit \<or> b_txState ?a \<ge> htxEnd")
    case True
    then have "a' = ?a" using act by (auto simp: devAction_def Let_def fine_def split: if_splits)
    then show ?thesis using p by (simp add: new_frames_def promote_keeps frames_sent_def)
  next
    case False
    then have h: "has (b_opts ?a) capDEV" using dev by (simp add: promote_keeps not_le)
    from False obtain d where d: "b_devPending ?a = Some d" using p by (auto simp: dev_rel_def split: option.splits)
    let ?s = "\<lparr>sn_packet = \<lparr>pkt_typ = pktDEVDATA, pkt_payload = marshalDevData d\<rparr>, sn_opts = b_opts ?a, sn_prefix = b_prefix ?a\<rparr>"
    have a': "s_log a' = s_log a @ [EvSend ?s None]" "b_devState a' = htdDack" "b_devPending a' = Some d"
      "b_devQueue a' = b_devQueue ?a" "b_devTxID a' = b_devTxID ?a"
      using act False h d
      by (auto simp: devAction_def Let_def batch_write_def writer_write_def emit_def tick_def fine_def andThen_def
          promote_keeps split: option.splits)
    let ?p = "\<lparr>pkt_typ = pktDEVDATA, pkt_payload = marshalDevData d\<rparr>"
    have "new_frames pktDEVDATA a a' = [?p]" by (simp add: new_frames_def frames_sent_def a'(1))
    moreover have "data_is d ?p" using p d by (simp add: dev_rel_def proper_def data_is_def)
    ultimately show ?thesis
      using p d a' False data_is_of [of d ?p] by (auto simp: dev_rel_def intro: phased_snoc)
  qed
qed

lemma rel_timer:
  "dev_rel a rx D data acks taken \<Longrightarrow> devTimeout (a\<lparr>b_devTimer := None\<rparr>) = (a', None) \<Longrightarrow>
    dev_rel a' rx D data acks taken"
  by (auto simp: devTimeout_def dev_rel_def fine_def failed_def Let_def split: if_splits option.splits)

lemma rel_ack: "dev_rel a rx D data (p # ps) taken \<Longrightarrow> dev_rel (devDack p a) rx D data ps taken"
proof -
  assume r: "dev_rel a rx D data (p # ps) taken"
  show ?thesis
  proof (cases "b_devPending a")
    case None
    then have "devDack p a = a" by (simp add: devDack_def split: sum.split)
    with r None show ?thesis by (auto simp: dev_rel_def)
  next
    case (Some d)
    consider (old) "ack_of (dd_id d - 1) p" "dev_rel a rx D data ps taken"
      | (new) "ack_of (dd_id d) p" "rx = dd_id d" "list_all (ack_of rx) ps"
      using r Some phased_Cons [of "ack_of (rx - 1)" "ack_of rx" p ps] by (auto simp: dev_rel_def)
    then show ?thesis
    proof cases
      case old
      then have "devDack p a = a" using Some by (simp add: devDack_def ack_of_def)
      with old show ?thesis by simp
    next
      case new
      show ?thesis
      proof (cases "b_devState a = htdDack")
        case True
        with new Some have "devDack p a = a\<lparr>b_devPending := None, b_devRetries := 0, b_devTimer := None, b_devState := htdDone\<rparr>"
          by (simp add: devDack_def ack_of_def)
        with r Some new show ?thesis by (auto simp: dev_rel_def)
      next
        case False
        with new Some have "devDack p a = a" by (simp add: devDack_def ack_of_def)
        with r Some new show ?thesis by (auto simp: dev_rel_def phased_all)
      qed
    qed
  qed
qed

subsection \<open>The receiver's step and the losses\<close>

lemma devRx_new:
  assumes "parseDevData (pkt_payload p) = Inr d" and "length (dd_device d) \<le> 3" and "devRx Er p b = (b', None)" and "en_hasDev Er"
  shows "b_devRxID b' = dd_id d"
    "deliveries (s_log b') = deliveries (s_log b) @ (if dd_id d = b_devRxID b then [] else [datagram d])"
    "\<exists>q. new_frames pktDEVDACK b b' = [q] \<and> ack_of (dd_id d) q"
  using assms
  by (auto simp: devRx_def batch_write_def writer_write_def emit_def new_frames_def frames_sent_def deliveries_def
      datagram_def ack_of_def Let_def split: if_splits)

lemma devRx_dup:
  assumes "data_of (b_devRxID b) p" and "devRx Er p b = (b', None)"
  shows "b_devRxID b' = b_devRxID b" "deliveries (s_log b') = deliveries (s_log b)"
    "\<exists>q. new_frames pktDEVDACK b b' = [q] \<and> ack_of (b_devRxID b) q"
  using assms
  by (auto simp: data_of_def devRx_def batch_write_def writer_write_def emit_def new_frames_def frames_sent_def
      deliveries_def ack_of_def Let_def)

lemma rel_deliver:
  assumes r: "dev_rel a (b_devRxID b) D (p # ps) acks taken" and rx: "devRx Er p b = (b', None)" and h: "en_hasDev Er"
    and D: "deliveries (s_log b) = D0 @ D"
  shows "\<exists>D'. deliveries (s_log b') = D0 @ D' \<and>
    dev_rel a (b_devRxID b') D' ps (acks @ new_frames pktDEVDACK b b') taken"
proof -
  consider (dup) "data_of (b_devRxID b) p" "dev_rel a (b_devRxID b) D ps acks taken"
    | (fresh) d where "b_devPending a = Some d" "data_is d p" "b_devRxID b = dd_id d - 1" "list_all (data_is d) ps"
    using r phased_Cons [of "data_of (b_devRxID b)" _ p ps] by (fastforce simp: dev_rel_def split: option.splits)
  then show ?thesis
  proof cases
    case dup
    from devRx_dup [OF dup(1) rx] obtain q where q: "b_devRxID b' = b_devRxID b"
      "deliveries (s_log b') = deliveries (s_log b)" "new_frames pktDEVDACK b b' = [q]" "ack_of (b_devRxID b) q" by blast
    have "dev_rel a (b_devRxID b) D ps (acks @ [q]) taken"
      using dup(2) q(4) by (auto simp: dev_rel_def phased_snoc split: option.splits)
    with q D show ?thesis by auto
  next
    case fresh
    have d: "proper d" using r fresh(1) by (simp add: dev_rel_def)
    have p: "parseDevData (pkt_payload p) = Inr d" using fresh(2) by (simp add: data_is_def)
    have "length (dd_device d) \<le> 3" using d by (simp add: proper_def)
    from devRx_new [OF p this rx h] obtain q where q: "b_devRxID b' = dd_id d"
      "deliveries (s_log b') = D0 @ (D @ [datagram d])" "new_frames pktDEVDACK b b' = [q]" "ack_of (dd_id d) q"
      using fresh(3) D by auto
    have "list_all (data_of (dd_id d)) ps" using fresh(4) data_is_of by (auto simp: list_all_iff)
    moreover have "list_all (ack_of (dd_id d - 1)) acks" "taken = D @ datagram d # map datagram (b_devQueue a)"
      "dev_rel a (b_devRxID b) D (p # ps) acks taken"
      using r fresh(1,3) by (auto simp: dev_rel_def)
    ultimately have "dev_rel a (dd_id d) (D @ [datagram d]) ps (acks @ [q]) taken"
      using fresh(1) q(4) by (auto simp: dev_rel_def intro: phased_snoc phased_all)
    with q show ?thesis by auto
  qed
qed

lemma rel_lose:
  "dev_rel a rx D (ps @ p # qs) acks taken \<Longrightarrow> dev_rel a rx D (ps @ qs) acks taken"
  "dev_rel a rx D data (as @ k # bs) taken \<Longrightarrow> dev_rel a rx D data (as @ bs) taken"
  using phased_lose by (fastforce simp: dev_rel_def split: option.splits)+

subsection \<open>The property\<close>

definition dn_ok :: "(gostring \<times> byte list) list \<Rightarrow> dnet \<Rightarrow> bool" where
  "dn_ok D0 n \<longleftrightarrow> (\<exists>D. deliveries (s_log (dn_rcv n)) = D0 @ D
     \<and> dev_rel (dn_snd n) (b_devRxID (dn_rcv n)) D (dn_data n) (dn_acks n) (dn_taken n))"

lemma dn_ok_step: "dstep Es Er n n' \<Longrightarrow> en_hasDev Er \<Longrightarrow> dn_ok D0 n \<Longrightarrow> dn_ok D0 n'"
proof (induction rule: dstep.induct)
  case (dn_queue req n)
  then show ?case using rel_queue by (fastforce simp: dn_ok_def)
next
  case (dn_act n a)
  then show ?case using rel_act by (fastforce simp: dn_ok_def)
next
  case (dn_timer n a)
  then show ?case using rel_timer by (fastforce simp: dn_ok_def)
next
  case (dn_deliver n p ps b)
  then show ?case using rel_deliver [of "dn_snd n" "dn_rcv n" _ p ps] by (fastforce simp: dn_ok_def)
next
  case (dn_ack n p ps)
  then show ?case using rel_ack by (fastforce simp: dn_ok_def)
next
  case (dn_lose_data n ps p qs)
  then show ?case using rel_lose(1) by (fastforce simp: dn_ok_def)
next
  case (dn_lose_ack n ps p qs)
  then show ?case using rel_lose(2) by (fastforce simp: dn_ok_def)
next
  case (dn_other_snd n a)
  then show ?case using dev_rel_view [of a "dn_snd n"] by (auto simp: dn_ok_def same_device_def)
next
  case (dn_other_rcv n b)
  then show ?case by (auto simp: dn_ok_def same_device_def)
qed

lemma dn_ok_start: "dn_ok (deliveries (s_log r)) (dn_start s r)"
  by (simp add: dn_ok_def dn_start_def newBatch_def session.defs dev_rel_def Let_def)


text \<open>One datagram on its way: queued, sent and delivered.\<close>

definition chat :: devRequest where "chat = \<lparr>dr_device = str ''CON'', dr_payload = str ''hi''\<rparr>"

definition chatEnv :: env where "chatEnv = demoEnv\<lparr>en_hasDev := True\<rparr>"

lemma chat_delivered:
  "\<exists>n. (dstep chatEnv chatEnv)\<^sup>*\<^sup>* (dn_start demoSession demoSession) n
    \<and> deliveries (s_log (dn_rcv n)) = [(str ''CON'', str ''hi'')] \<and> b_devQueue (dn_snd n) = []"
proof -
  let ?R = "dstep chatEnv chatEnv" and ?n0 = "dn_start demoSession demoSession"
  define a1 where "a1 = queueDev chat (newBatch demoSession)"
  define a2 where "a2 = a1\<lparr>b_txState := htxXdata, b_opts := capDEV\<rparr>"
  define d where "d = \<lparr>dd_id = 1, dd_device = str ''CON'', dd_payload = str ''hi''\<rparr>"
  define p where "p = \<lparr>pkt_typ = pktDEVDATA, pkt_payload = marshalDevData d\<rparr>"
  define a3 where "a3 = fst (devAction chatEnv a2)"
  define b1 where "b1 = fst (devRx chatEnv p (newBatch demoSession))"
  have w: "en_write chatEnv es = None" for es by (simp add: chatEnv_def demoEnv_def)
  have z: "s_log demoSession = []" by (simp add: demoSession_def run_setup_def NewSession_def)
  have q: "b_devQueue (newBatch demoSession) = []" "b_devState (newBatch demoSession) = htdDone"
    "b_devPending (newBatch demoSession) = None" "b_devTxID (newBatch demoSession) = 0"
    "b_devRxID (newBatch demoSession) = 0" "s_log (newBatch demoSession) = []"
    by (simp_all add: newBatch_def session.defs Let_def z)
  have a2: "b_devQueue a2 = [\<lparr>dd_id = 0, dd_device = str ''CON'', dd_payload = str ''hi''\<rparr>]" "b_devState a2 = htdDone"
    "b_devPending a2 = None" "b_devTxID a2 = 0" "s_log a2 = []" "b_txState a2 = htxXdata" "has (b_opts a2) capDEV"
    by (simp_all add: a2_def a1_def queueDev_def chat_def q has_def cap_defs Let_def)
  let ?s = "\<lparr>sn_packet = p, sn_opts = b_opts a2, sn_prefix = b_prefix a2\<rparr>"
  have act: "devAction chatEnv a2 = (a3, None)" and a3: "s_log a3 = [EvSend ?s None]" "b_devQueue a3 = []"
    unfolding a3_def using a2
    by (simp_all add: devAction_def devPromote_def tx_order batch_write_def writer_write_def w emit_def fine_def p_def d_def
        tick_def Let_def)
  have frames: "new_frames pktDEVDATA a2 a3 = [p]"
    by (simp add: new_frames_def frames_sent_def a2 a3 p_def)
  have rx: "devRx chatEnv p (newBatch demoSession) = (b1, None)"
    and b1: "deliveries (s_log b1) = [(str ''CON'', str ''hi'')]"
    unfolding b1_def using q
    by (simp_all add: devRx_def p_def d_def chatEnv_def demoEnv_def batch_write_def writer_write_def emit_def deliveries_def
        fine_def Let_def)
  define n1 where "n1 = ?n0\<lparr>dn_snd := a1, dn_taken := [datagram (last (b_devQueue a1))]\<rparr>"
  define n2 where "n2 = n1\<lparr>dn_snd := a2\<rparr>"
  define n3 where "n3 = n2\<lparr>dn_snd := a3, dn_data := [p]\<rparr>"
  define n4 where "n4 = n3\<lparr>dn_rcv := b1, dn_data := [], dn_acks := new_frames pktDEVDACK (newBatch demoSession) b1\<rparr>"
  have s1: "?R ?n0 n1"
    using dn_queue [of chat chatEnv chatEnv ?n0] by (simp add: chat_def dn_start_def a1_def n1_def)
  have "same_device (dn_snd n1) a2" by (simp add: same_device_def a2_def n1_def)
  then have s2: "?R n1 n2" unfolding n2_def by (rule dn_other_snd)
  have s3: "?R n2 n3"
    using dn_act [of chatEnv n2 a3 chatEnv] act a2 frames by (simp add: n1_def n2_def n3_def dn_start_def)
  have s4: "?R n3 n4"
    using dn_deliver [of n3 p "[]" chatEnv b1 chatEnv] rx by (simp add: n1_def n2_def n3_def n4_def dn_start_def)
  have "?R\<^sup>*\<^sup>* ?n0 n4" using s1 s2 s3 s4 by (meson converse_rtranclp_into_rtranclp rtranclp.rtrancl_refl)
  moreover have "deliveries (s_log (dn_rcv n4)) = [(str ''CON'', str ''hi'')]" "b_devQueue (dn_snd n4) = []"
    using b1 a3(2) by (simp_all add: n1_def n2_def n3_def n4_def)
  ultimately show ?thesis by blast
qed


end
