(* ===== verification/Hydra_StaleAck.thy ===== *)
theory Hydra_StaleAck
  imports Hydra_Demo
begin

section \<open>A late refusal\<close>

text \<open>
  The sending half of one session and the receiving half of the other, joined by two channels
  that keep the order and lose nothing. A FINFO acknowledgement does not say which FINFO it
  answers; the sender's flag \<open>finfoAckWait\<close> is to keep duplicates out. The theory follows one
  run in which a retransmitted FINFO is refused twice, and the second refusal arrives when the
  next file has been announced.
\<close>

subsection \<open>The network\<close>

record fnet =
  fn_snd :: batch
  fn_rcv :: batch
  fn_fwd :: "packet list"
  fn_back :: "packet list"

definition all_frames :: "batch \<Rightarrow> batch \<Rightarrow> packet list" where
  "all_frames b b' = concat (map (\<lambda>e. case e of EvSend f None \<Rightarrow> [sn_packet f] | _ \<Rightarrow> [])
     (drop (length (s_log b)) (s_log b')))"

inductive fstep :: "env \<Rightarrow> env \<Rightarrow> fnet \<Rightarrow> fnet \<Rightarrow> bool" for Es Er where
  fn_act: "txAction Es (fn_snd n) = Some (a, None) \<Longrightarrow>
    fstep Es Er n (n\<lparr>fn_snd := a, fn_fwd := fn_fwd n @ all_frames (fn_snd n) a\<rparr>)"
| fn_timer: "b_txTimer (fn_snd n) \<noteq> None \<Longrightarrow> txTimeout Es ((fn_snd n)\<lparr>b_txTimer := None\<rparr>) = (a, None) \<Longrightarrow>
    fstep Es Er n (n\<lparr>fn_snd := a, fn_fwd := fn_fwd n @ all_frames (fn_snd n) a\<rparr>)"
| fn_answer: "fn_back n = p # ps \<Longrightarrow> handlePacket Es p (fn_snd n) = (a, None) \<Longrightarrow>
    fstep Es Er n (n\<lparr>fn_snd := a, fn_back := ps\<rparr>)"
| fn_arrive: "fn_fwd n = p # ps \<Longrightarrow> handlePacket Er p (fn_rcv n) = (b, None) \<Longrightarrow>
    fstep Es Er n (n\<lparr>fn_rcv := b, fn_fwd := ps, fn_back := fn_back n @ all_frames (fn_rcv n) b\<rparr>)"

subsection \<open>The application on both sides\<close>

definition asked :: "event list \<Rightarrow> nat" where
  "asked es = length (filter is_offer es)"

definition offerN :: "nat \<Rightarrow> FileOffer" where
  \<comment> \<open>the file number \<open>k\<close>: its name is one letter, its content three bytes \<open>k\<close>\<close>
  "offerN k = \<lparr>fo_Name = [0x40 + of_nat k], fo_Path = [], fo_Size = 3, fo_ModTime = None, fo_Reader = Some k,
     fo_Seeker = False, fo_Close = False\<rparr>"

definition contentN :: "nat \<Rightarrow> byte list" where
  "contentN k = replicate 3 (of_nat k)"

definition offerEnv :: env where
  "offerEnv = demoEnv\<lparr>en_nextFile := (\<lambda>es. Some (offerN (Suc (asked es)))),
     en_source := (\<lambda>_ h _. (contentN h, IoEOF))\<rparr>"

definition choosyEnv :: env where
  \<comment> \<open>the receiver has the first file already and takes every other one\<close>
  "choosyEnv = demoEnv\<lparr>en_accept := (\<lambda>_ info. if fi_Name info = fo_Name (offerN 1) then (None, 0, Some ErrSkip)
     else (Some (unat (hd (fi_Name info)) - 0x40), 0, None))\<rparr>"

definition metaN :: "nat \<Rightarrow> fileMeta" where
  "metaN k = \<lparr>fm_mtime = 0, fm_size = 3, fm_txid = 0, fm_count = 0, fm_name = fo_Name (offerN k), fm_path = []\<rparr>"

definition finfoN :: "nat \<Rightarrow> packet" where
  "finfoN k = \<lparr>pkt_typ = pktFINFO, pkt_payload = marshalFinfo (metaN k) False\<rparr>"

lemma nameN: "k \<in> {1, 2, 3} \<Longrightarrow> txWireName (fo_Name (offerN k)) = fo_Name (offerN k)"
  by (elim insertE emptyE) (simp_all add: offerN_def, code_simp+)

lemma env_simps [simp]:
  "en_write offerEnv es = None" "en_write choosyEnv es = None" "en_writeFile choosyEnv es h d = None"
  "en_nextFile offerEnv es = Some (offerN (Suc (asked es)))" "en_source offerEnv es h n = (contentN h, IoEOF)"
  by (simp_all add: offerEnv_def choosyEnv_def demoEnv_def)

subsection \<open>What the two sides go through\<close>

text \<open>The sender between files, waiting for the answer on file \<open>k\<close>, and sending it.\<close>

definition snd_base :: "nat \<Rightarrow> batch \<Rightarrow> bool" where
  \<comment> \<open>\<open>k\<close> files were offered so far\<close>
  "snd_base k b \<longleftrightarrow> asked (s_log b) = k \<and> b_opts b = 0 \<and> \<not> b_batchEnded b \<and> bs_size (b_blk b) = 512
     \<and> b_txWindow b = 0 \<and> cf_MaxRetries (s_config b) = 10 \<and> b_txRetries b \<in> {0..1}"

definition snd_idle :: "nat \<Rightarrow> batch \<Rightarrow> bool" where
  "snd_idle k b \<longleftrightarrow> snd_base k b \<and> b_txState b = htxFinfo \<and> b_lastFinfo b = None \<and> b_txOffer b = None \<and> b_txRetries b = 0"

definition snd_asked :: "nat \<Rightarrow> txState \<Rightarrow> batch \<Rightarrow> bool" where
  "snd_asked k st b \<longleftrightarrow> snd_base k b \<and> b_txState b = st \<and> b_lastFinfo b = Some (pkt_payload (finfoN k)) \<and> b_finfoAckWait b
     \<and> b_txOffer b = Some (offerN k) \<and> b_txReader b = Some k \<and> b_txInfo b = offerInfo (offerN k) \<and> \<not> b_txEOB b
     \<and> \<not> b_txSkip b \<and> b_txTimer b \<noteq> None"

definition snd_data :: "nat \<Rightarrow> batch \<Rightarrow> bool" where
  "snd_data k b \<longleftrightarrow> snd_base k b \<and> b_txState b = htxXdata \<and> b_txReader b = Some k \<and> \<not> b_txSkip b \<and> b_txPos b = 0"

definition rcv_idle :: "byte list option \<Rightarrow> batch \<Rightarrow> bool" where
  "rcv_idle refused b \<longleftrightarrow> b_rxState b = hrxFinfo \<and> b_rxWindow b = 0 \<and> b_lastRefusedFinfo b = refused
     \<and> (refused \<noteq> None \<longrightarrow> b_lastRefusedAck b = ackHaveFile)"

definition rcv_open :: "nat \<Rightarrow> batch \<Rightarrow> bool" where
  "rcv_open h b \<longleftrightarrow> b_rxState b = hrxData \<and> b_rxPos b = 0 \<and> b_rxWriter b = Some h \<and> b_rxWindow b = 0"

lemmas snd_defs = snd_base_def snd_idle_def snd_asked_def snd_data_def
lemmas rcv_defs = rcv_idle_def rcv_open_def

lemma asked_append [simp]: "asked (xs @ ys) = asked xs + asked ys" "asked [] = 0"
  "asked (e # es) = (if is_offer e then Suc (asked es) else asked es)"
  by (simp_all add: asked_def)

lemma offerN_facts [simp]:
  "fo_Size (offerN k) = 3" "fo_Reader (offerN k) = Some k" "fo_Path (offerN k) = []" "\<not> fo_Close (offerN k)"
  "fo_ModTime (offerN k) = None" "\<not> fo_Seeker (offerN k)"
  by (simp_all add: offerN_def)

lemma announceN: "k \<in> {1, 2, 3} \<Longrightarrow>
  marshalFinfo \<lparr>fm_mtime = 0, fm_size = 3, fm_txid = 0, fm_count = 0, fm_name = txWireName (fo_Name (offerN k)), fm_path = []\<rparr> False
    = pkt_payload (finfoN k)"
  by (simp add: nameN finfoN_def metaN_def)

lemma snd_announce:
  assumes b: "snd_idle j b" and k: "k \<in> {1, 2, 3}" "k = Suc j"
  shows "\<exists>b'. txAction offerEnv b = Some (b', None) \<and> snd_asked k htxFinfoAck b' \<and> b_txRetries b' = 0
    \<and> all_frames b b' = [finfoN k] \<and> (\<exists>es. s_log b' = s_log b @ es)"
proof -
  let ?o = "offerN k"
  have pull: "pullOffers offerEnv b = Some ((emit (EvNextFile (Some ?o)) b)\<lparr>b_txOffer := Some ?o\<rparr>)"
    using b k(2) by (subst pullOffers.simps) (simp add: snd_defs Let_def)
  have "\<not> has 0 capFPT" by (simp add: has_def)
  with b pull k announceN [OF k(1)] show ?thesis
    by (simp add: txAction_def sendFinfo_def prepareFinfo_def batch_write_def writer_write_def emit_def fine_def armTx_def
        set_txTimer_def tick_def all_frames_def snd_defs finfoN_def is_offer_def Let_def)
qed

lemma snd_again:
  assumes b: "snd_asked k htxFinfoAck b" "b_txRetries b = 0"
  shows "\<exists>b'. txTimeout offerEnv (b\<lparr>b_txTimer := None\<rparr>) = (b', None) \<and> all_frames b b' = []
    \<and> (\<exists>b2. txAction offerEnv b' = Some (b2, None) \<and> snd_asked k htxFinfoAck b2 \<and> all_frames b' b2 = [finfoN k]
      \<and> (\<exists>es. s_log b2 = s_log b @ es))"
  using b
  by (simp add: txTimeout_def retry_state_def txAction_def sendFinfo_def batch_write_def writer_write_def emit_def fine_def
      armTx_def set_txTimer_def tick_def all_frames_def snd_defs finfoN_def is_offer_def Let_def)

text \<open>The sender takes a refusal, whichever file it was meant for.\<close>

lemma snd_refused:
  assumes b: "snd_asked k htxFinfoAck b"
  shows "\<exists>b'. handlePacket offerEnv \<lparr>pkt_typ = pktFINFOACK, pkt_payload = marshalOffset ackHaveFile\<rparr> b = (b', None)
    \<and> snd_idle k b' \<and> EvSendCompleted (offerInfo (offerN k)) 0 (Some ErrSkip) \<in> set (s_log b') \<and> (\<exists>es. s_log b' = s_log b @ es)"
  using b
  by (simp add: handlePacket_def txFinfoAck_def finishTxFile_def closeTxOffer_def closeOffer_def sendCompleted_def
      feedBraindead_def emit_def fine_def tick_def snd_defs is_offer_def fits_int32_def Let_def)

lemma snd_accepted:
  assumes b: "snd_asked k htxFinfoAck b"
  shows "\<exists>b'. handlePacket offerEnv \<lparr>pkt_typ = pktFINFOACK, pkt_payload = marshalOffset 0\<rparr> b = (b', None)
    \<and> snd_data k b' \<and> (\<exists>es. s_log b' = s_log b @ es)"
  using b
  by (simp add: handlePacket_def txFinfoAck_def feedBraindead_def emit_def fine_def tick_def snd_defs is_offer_def
      fits_int32_def offerInfo_def Let_def)

lemma snd_sends:
  assumes b: "snd_data k b"
  shows "\<exists>b'. txAction offerEnv b = Some (b', None)
    \<and> all_frames b b' = [\<lparr>pkt_typ = pktDATA, pkt_payload = marshalData 0 (contentN k)\<rparr>]
    \<and> EvRead k (contentN k) (Some IoUnexpectedEOF) \<in> set (s_log b') \<and> (\<exists>es. s_log b' = s_log b @ es)"
proof -
  have "read_full (contentN k) IoEOF 512 = (contentN k, Some IoUnexpectedEOF)"
    by (simp add: read_full_def contentN_def)
  moreover have "length (contentN k) = 3" by (simp add: contentN_def)
  ultimately show ?thesis using b
    by (simp add: txAction_def sendData_def sendData_sent_def batch_write_def writer_write_def emit_def fine_def
        all_frames_def snd_defs Let_def)
qed

text \<open>The receiver refuses the first file, again when it is announced again, and takes the second.\<close>

lemma parseN: "k \<in> {1, 2, 3} \<Longrightarrow> parseFinfo (pkt_payload (finfoN k)) = Inr (metaN k) \<and> \<not> isFinfoEOB (pkt_payload (finfoN k))"
proof -
  assume k: "k \<in> {1, 2, 3}"
  have "fm_name (metaN k) \<noteq> []" "0 \<notin> set (fm_name (metaN k))"
    using k by (auto simp: metaN_def offerN_def)
  with parseFinfo_marshal [of "metaN k" False] have "parseFinfo (marshalFinfo (metaN k) False) = Inr (metaN k)"
    by (simp add: metaN_def)
  then show ?thesis by (simp add: finfoN_def marshalFinfo_not_EOB)
qed

lemma finfoN_other: "pkt_payload (finfoN 1) \<noteq> pkt_payload (finfoN 2)"
proof
  assume "pkt_payload (finfoN 1) = pkt_payload (finfoN 2)"
  then have "metaN 1 = metaN 2" using parseN [of 1] parseN [of 2] by simp
  then show False by (simp add: metaN_def offerN_def)
qed

lemma answers:
  "en_accept choosyEnv es (finfo_info (metaN 1) n) = (None, 0, Some ErrSkip)"
  "en_accept choosyEnv es (finfo_info (metaN 2) n) = (Some 2, 0, None)"
  by (simp_all add: choosyEnv_def finfo_info_def metaN_def offerN_def)

lemma sizeN: "fi_Size (finfo_info (metaN k) n) = 3" "fm_size (metaN k) = 3"
  by (simp_all add: finfo_info_def metaN_def)

definition refusal :: packet where
  "refusal = \<lparr>pkt_typ = pktFINFOACK, pkt_payload = marshalOffset ackHaveFile\<rparr>"

definition consent :: packet where
  "consent = \<lparr>pkt_typ = pktFINFOACK, pkt_payload = marshalOffset 0\<rparr>"

lemmas rcv_eval = handlePacket_def rxFinfo_def batch_write_def writer_write_def emit_def feedBraindead_def tick_def
  all_frames_def fine_def Let_def

lemma rcv_refuses:
  assumes b: "rcv_idle None b"
  shows "\<exists>b'. handlePacket choosyEnv (finfoN 1) b = (b', None) \<and> rcv_idle (Some (pkt_payload (finfoN 1))) b'
    \<and> all_frames b b' = [refusal] \<and> (\<exists>es. s_log b' = s_log b @ es)"
proof -
  have "acceptFinfo choosyEnv (pkt_payload (finfoN 1)) b1
      = (ackHaveFile, recvCompleted (finfo_info (metaN 1) (b_filesRcvd b1)) 0 (Some ErrSkip)
          (emit (EvAccept (finfo_info (metaN 1) (b_filesRcvd b1)) None 0 (Some ErrSkip)) b1))" for b1
    using parseN [of 1] by (simp add: acceptFinfo_def answers sizeN closeWriter_def Let_def del: One_nat_def)
  moreover have "pkt_payload (finfoN 1) \<noteq> []" using parseN [of 1] by (auto simp: parseFinfo_def simp del: One_nat_def)
  moreover have "pkt_typ (finfoN 1) = pktFINFO" by (simp add: finfoN_def)
  ultimately show ?thesis using b parseN [of 1]
    by (simp add: rcv_eval rcv_defs recvCompleted_def refusal_def del: One_nat_def)
qed

lemma rcv_refuses_again:
  assumes b: "rcv_idle (Some (pkt_payload (finfoN 1))) b"
  shows "\<exists>b'. handlePacket choosyEnv (finfoN 1) b = (b', None) \<and> rcv_idle (Some (pkt_payload (finfoN 1))) b'
    \<and> all_frames b b' = [refusal] \<and> (\<exists>es. s_log b' = s_log b @ es)"
proof -
  have "pkt_typ (finfoN 1) = pktFINFO" by (simp add: finfoN_def)
  then show ?thesis using b parseN [of 1] by (simp add: rcv_eval rcv_defs refusal_def del: One_nat_def)
qed

lemma rcv_accepts:
  assumes b: "rcv_idle (Some (pkt_payload (finfoN 1))) b"
  shows "\<exists>b'. handlePacket choosyEnv (finfoN 2) b = (b', None) \<and> rcv_open 2 b' \<and> all_frames b b' = [consent]
    \<and> (\<exists>n. EvAccept (finfo_info (metaN 2) n) (Some 2) 0 None \<in> set (s_log b')) \<and> (\<exists>es. s_log b' = s_log b @ es)"
proof -
  have "\<exists>b2. acceptFinfo choosyEnv (pkt_payload (finfoN 2)) b1 = (0, b2)
      \<and> s_log b2 = s_log b1 @ [EvAccept (finfo_info (metaN 2) (b_filesRcvd b1)) (Some 2) 0 None]
      \<and> b_rxState b2 = hrxData \<and> b_rxPos b2 = 0 \<and> b_rxWriter b2 = Some 2 \<and> b_rxWindow b2 = b_rxWindow b1" for b1
    using parseN [of 2] by (simp add: acceptFinfo_def answers sizeN to_int32_def emit_def Let_def)
  from this [of "feedBraindead choosyEnv (emit (EvRecv (finfoN 2)) b)"] obtain b2 where
    "acceptFinfo choosyEnv (pkt_payload (finfoN 2)) (feedBraindead choosyEnv (emit (EvRecv (finfoN 2)) b)) = (0, b2)"
    "s_log b2 = s_log b @ [EvRecv (finfoN 2), EvAccept (finfo_info (metaN 2) (b_filesRcvd b)) (Some 2) 0 None]"
    "b_rxState b2 = hrxData" "b_rxPos b2 = 0" "b_rxWriter b2 = Some 2" "b_rxWindow b2 = b_rxWindow b"
    by (auto simp: feedBraindead_def tick_def emit_def)
  moreover have "pkt_typ (finfoN 2) = pktFINFO" by (simp add: finfoN_def)
  moreover have "b_rxState (emit (EvRecv (finfoN 2)) b) = hrxFinfo"
    "b_lastRefusedFinfo (feedBraindead choosyEnv (emit (EvRecv (finfoN 2)) b)) \<noteq> Some (pkt_payload (finfoN 2))"
    using b finfoN_other by (simp_all add: rcv_defs emit_def feedBraindead_def tick_def)
  ultimately show ?thesis using b parseN [of 2]
    by (auto simp: handlePacket_def rxFinfo_def batch_write_def writer_write_def all_frames_def rcv_defs consent_def Let_def)
      (auto simp: emit_def)
qed

lemma rcv_repeats:
  assumes b: "rcv_open h b"
  shows "\<exists>b'. handlePacket choosyEnv (finfoN k) b = (b', None) \<and> rcv_open h b' \<and> all_frames b b' = [consent]
    \<and> (\<exists>es. s_log b' = s_log b @ es)"
  using b by (simp add: rcv_eval rcv_defs consent_def finfoN_def to_int32_def)

lemma rcv_writes:
  assumes b: "rcv_open h b"
  shows "\<exists>b'. handlePacket choosyEnv \<lparr>pkt_typ = pktDATA, pkt_payload = marshalData 0 (contentN k)\<rparr> b = (b', None)
    \<and> EvWrite h (contentN k) None \<in> set (s_log b') \<and> all_frames b b' = [] \<and> (\<exists>es. s_log b' = s_log b @ es)"
  using b
  by (simp add: handlePacket_def rxData_def rxWrite_def emit_def feedBraindead_def tick_def fine_def rcv_defs
      all_frames_def fits_int32_def contentN_def Let_def)

subsection \<open>The run\<close>

definition fn_at :: "batch \<Rightarrow> batch \<Rightarrow> packet list \<Rightarrow> packet list \<Rightarrow> fnet" where
  "fn_at a b fwd back = \<lparr>fn_snd = a, fn_rcv = b, fn_fwd = fwd, fn_back = back\<rparr>"

abbreviation freach :: "fnet \<Rightarrow> fnet \<Rightarrow> bool" where
  "freach \<equiv> (fstep offerEnv choosyEnv)\<^sup>*\<^sup>*"

lemma net_act: "txAction offerEnv a = Some (a', None) \<Longrightarrow> all_frames a a' = ps \<Longrightarrow>
    freach (fn_at a b f k) (fn_at a' b (f @ ps) k)"
  using fn_act [of offerEnv "fn_at a b f k" a' choosyEnv] by (auto simp: fn_at_def)

lemma net_timer: "b_txTimer a \<noteq> None \<Longrightarrow> txTimeout offerEnv (a\<lparr>b_txTimer := None\<rparr>) = (a', None) \<Longrightarrow> all_frames a a' = [] \<Longrightarrow>
    freach (fn_at a b f k) (fn_at a' b f k)"
  using fn_timer [of "fn_at a b f k" offerEnv a' choosyEnv] by (auto simp: fn_at_def)

lemma net_answer: "handlePacket offerEnv p a = (a', None) \<Longrightarrow> freach (fn_at a b f (p # k)) (fn_at a' b f k)"
  using fn_answer [of "fn_at a b f (p # k)" p k offerEnv a' choosyEnv] by (auto simp: fn_at_def)

lemma net_arrive: "handlePacket choosyEnv p b = (b', None) \<Longrightarrow> all_frames b b' = ps \<Longrightarrow>
    freach (fn_at a b (p # f) k) (fn_at a b' f (k @ ps))"
  using fn_arrive [of "fn_at a b (p # f) k" p f choosyEnv b' offerEnv] by (auto simp: fn_at_def)

lemmas net_trans = rtranclp_trans [of "fstep offerEnv choosyEnv"]

text \<open>The first file is announced twice and refused twice.\<close>

lemma run_refusals:
  assumes "snd_idle 0 a" and "rcv_idle None b"
  shows "\<exists>a' b'. freach (fn_at a b [] []) (fn_at a' b' [] [refusal, refusal]) \<and> snd_asked 1 htxFinfoAck a'
    \<and> rcv_idle (Some (pkt_payload (finfoN 1))) b'"
proof -
  have "\<exists>b'. txAction offerEnv a = Some (b', None) \<and> snd_asked 1 htxFinfoAck b' \<and> b_txRetries b' = 0
    \<and> all_frames a b' = [finfoN 1] \<and> (\<exists>es. s_log b' = s_log a @ es)" by (rule snd_announce [OF assms(1)]) simp_all
  then obtain a1 where a1: "txAction offerEnv a = Some (a1, None)" "snd_asked 1 htxFinfoAck a1" "b_txRetries a1 = 0"
    "all_frames a a1 = [finfoN 1]" by blast
  from snd_again [OF a1(2,3)] obtain a2 a3 where a2: "txTimeout offerEnv (a1\<lparr>b_txTimer := None\<rparr>) = (a2, None)"
    "all_frames a1 a2 = []" "txAction offerEnv a2 = Some (a3, None)" "snd_asked 1 htxFinfoAck a3" "all_frames a2 a3 = [finfoN 1]" by blast
  from rcv_refuses [OF assms(2)] obtain b1 where b1: "handlePacket choosyEnv (finfoN 1) b = (b1, None)"
    "rcv_idle (Some (pkt_payload (finfoN 1))) b1" "all_frames b b1 = [refusal]" by blast
  from rcv_refuses_again [OF b1(2)] obtain b2 where b2: "handlePacket choosyEnv (finfoN 1) b1 = (b2, None)"
    "rcv_idle (Some (pkt_payload (finfoN 1))) b2" "all_frames b1 b2 = [refusal]" by blast
  have t: "b_txTimer a1 \<noteq> None" using a1(2) by (simp add: snd_asked_def)
  have s1: "freach (fn_at a b [] []) (fn_at a1 b [finfoN 1] [])"
    using net_act [OF a1(1,4), of b "[]" "[]"] by simp
  have s2: "freach (fn_at a1 b [finfoN 1] []) (fn_at a2 b [finfoN 1] [])" by (rule net_timer [OF t a2(1,2)])
  have s3: "freach (fn_at a2 b [finfoN 1] []) (fn_at a3 b [finfoN 1, finfoN 1] [])"
    using net_act [OF a2(3,5), of b "[finfoN 1]" "[]"] by simp
  have s4: "freach (fn_at a3 b [finfoN 1, finfoN 1] []) (fn_at a3 b1 [finfoN 1] [refusal])"
    using net_arrive [OF b1(1,3), of a3 "[finfoN 1]" "[]"] by simp
  have s5: "freach (fn_at a3 b1 [finfoN 1] [refusal]) (fn_at a3 b2 [] [refusal, refusal])"
    using net_arrive [OF b2(1,3), of a3 "[]" "[refusal]"] by simp
  have "freach (fn_at a b [] []) (fn_at a3 b2 [] [refusal, refusal])"
    by (rule net_trans [OF net_trans [OF net_trans [OF s1 s2] s3] net_trans [OF s4 s5]])
  with a2(4) b2(2) show ?thesis by blast
qed

text \<open>The second refusal meets the announcement of the second file.\<close>

lemma run_late_refusal:
  assumes "snd_asked 1 htxFinfoAck a"
  shows "\<exists>a'. freach (fn_at a b [] [refusal, refusal]) (fn_at a' b [finfoN 2, finfoN 3] []) \<and> snd_asked 3 htxFinfoAck a'
    \<and> EvSendCompleted (offerInfo (offerN 2)) 0 (Some ErrSkip) \<in> set (s_log a')"
proof -
  from snd_refused [OF assms] obtain a4 where a4: "handlePacket offerEnv refusal a = (a4, None)" "snd_idle 1 a4"
    unfolding refusal_def by blast
  have "\<exists>b'. txAction offerEnv a4 = Some (b', None) \<and> snd_asked 2 htxFinfoAck b' \<and> b_txRetries b' = 0
    \<and> all_frames a4 b' = [finfoN 2] \<and> (\<exists>es. s_log b' = s_log a4 @ es)" by (rule snd_announce [OF a4(2)]) simp_all
  then obtain a5 where a5: "txAction offerEnv a4 = Some (a5, None)" "snd_asked 2 htxFinfoAck a5"
    "all_frames a4 a5 = [finfoN 2]" by blast
  from snd_refused [OF a5(2)] obtain a6 where a6: "handlePacket offerEnv refusal a5 = (a6, None)" "snd_idle 2 a6"
    "EvSendCompleted (offerInfo (offerN 2)) 0 (Some ErrSkip) \<in> set (s_log a6)" unfolding refusal_def by blast
  have "\<exists>b'. txAction offerEnv a6 = Some (b', None) \<and> snd_asked 3 htxFinfoAck b' \<and> b_txRetries b' = 0
    \<and> all_frames a6 b' = [finfoN 3] \<and> (\<exists>es. s_log b' = s_log a6 @ es)" by (rule snd_announce [OF a6(2)]) simp_all
  then obtain a7 where a7: "txAction offerEnv a6 = Some (a7, None)" "snd_asked 3 htxFinfoAck a7"
    "all_frames a6 a7 = [finfoN 3]" "\<exists>es. s_log a7 = s_log a6 @ es" by blast
  have s6: "freach (fn_at a b [] [refusal, refusal]) (fn_at a4 b [] [refusal])" by (rule net_answer [OF a4(1)])
  have s7: "freach (fn_at a4 b [] [refusal]) (fn_at a5 b [finfoN 2] [refusal])"
    using net_act [OF a5(1,3), of b "[]" "[refusal]"] by simp
  have s8: "freach (fn_at a5 b [finfoN 2] [refusal]) (fn_at a6 b [finfoN 2] [])" by (rule net_answer [OF a6(1)])
  have s9: "freach (fn_at a6 b [finfoN 2] []) (fn_at a7 b [finfoN 2, finfoN 3] [])"
    using net_act [OF a7(1,3), of b "[finfoN 2]" "[]"] by simp
  have "freach (fn_at a b [] [refusal, refusal]) (fn_at a7 b [finfoN 2, finfoN 3] [])"
    by (rule net_trans [OF net_trans [OF s6 s7] net_trans [OF s8 s9]])
  moreover have "EvSendCompleted (offerInfo (offerN 2)) 0 (Some ErrSkip) \<in> set (s_log a7)" using a6(3) a7(4) by auto
  ultimately show ?thesis using a7(2) by blast
qed

text \<open>The receiver takes the second file, and answers the announcement of the third.\<close>

lemma run_mixed_up:
  assumes "snd_asked 3 htxFinfoAck a" and "rcv_idle (Some (pkt_payload (finfoN 1))) b"
  shows "\<exists>a' b' m. freach (fn_at a b [finfoN 2, finfoN 3] []) (fn_at a' b' [] [consent]) \<and> snd_data 3 a' \<and> rcv_open 2 b'
    \<and> (\<exists>es. s_log a' = s_log a @ es) \<and> EvAccept (finfo_info (metaN 2) m) (Some 2) 0 None \<in> set (s_log b')"
proof -
  from rcv_accepts [OF assms(2)] obtain b3 m where b3: "handlePacket choosyEnv (finfoN 2) b = (b3, None)" "rcv_open 2 b3"
    "all_frames b b3 = [consent]" "EvAccept (finfo_info (metaN 2) m) (Some 2) 0 None \<in> set (s_log b3)" by blast
  from rcv_repeats [OF b3(2), of 3] obtain b4 where b4: "handlePacket choosyEnv (finfoN 3) b3 = (b4, None)" "rcv_open 2 b4"
    "all_frames b3 b4 = [consent]" "\<exists>es. s_log b4 = s_log b3 @ es" by blast
  from snd_accepted [OF assms(1)] obtain a8 where a8: "handlePacket offerEnv consent a = (a8, None)" "snd_data 3 a8"
    "\<exists>es. s_log a8 = s_log a @ es" unfolding consent_def by blast
  have s10: "freach (fn_at a b [finfoN 2, finfoN 3] []) (fn_at a b3 [finfoN 3] [consent])"
    using net_arrive [OF b3(1,3), of a "[finfoN 3]" "[]"] by simp
  have s11: "freach (fn_at a b3 [finfoN 3] [consent]) (fn_at a b4 [] [consent, consent])"
    using net_arrive [OF b4(1,3), of a "[]" "[consent]"] by simp
  have s12: "freach (fn_at a b4 [] [consent, consent]) (fn_at a8 b4 [] [consent])" by (rule net_answer [OF a8(1)])
  have "EvAccept (finfo_info (metaN 2) m) (Some 2) 0 None \<in> set (s_log b4)" using b3(4) b4(4) by auto
  with net_trans [OF net_trans [OF s10 s11] s12] a8(2,3) b4(2) show ?thesis by blast
qed

lemma run_misdelivery:
  assumes "snd_data 3 a" and "rcv_open 2 b"
  shows "\<exists>a' b'. freach (fn_at a b [] k) (fn_at a' b' [] k) \<and> EvRead 3 (contentN 3) (Some IoUnexpectedEOF) \<in> set (s_log a')
    \<and> EvWrite 2 (contentN 3) None \<in> set (s_log b') \<and> (\<exists>es. s_log a' = s_log a @ es) \<and> (\<exists>es. s_log b' = s_log b @ es)"
proof -
  let ?d = "\<lparr>pkt_typ = pktDATA, pkt_payload = marshalData 0 (contentN 3)\<rparr>"
  from snd_sends [OF assms(1)] obtain a9 where a9: "txAction offerEnv a = Some (a9, None)" "all_frames a a9 = [?d]"
    "EvRead 3 (contentN 3) (Some IoUnexpectedEOF) \<in> set (s_log a9)" "\<exists>es. s_log a9 = s_log a @ es" by blast
  from rcv_writes [OF assms(2), of 3] obtain b5 where b5: "handlePacket choosyEnv ?d b = (b5, None)"
    "EvWrite 2 (contentN 3) None \<in> set (s_log b5)" "all_frames b b5 = []" "\<exists>es. s_log b5 = s_log b @ es" by blast
  have s13: "freach (fn_at a b [] k) (fn_at a9 b [?d] k)"
    using net_act [OF a9(1,2), of b "[]" k] by simp
  have s14: "freach (fn_at a9 b [?d] k) (fn_at a9 b5 [] k)"
    using net_arrive [OF b5(1,3), of a9 "[]" k] by simp
  from net_trans [OF s13 s14] a9(3,4) b5(2,4) show ?thesis by blast
qed

text \<open>
  Property C36. A refusal that comes late is taken for the next file, and data ends up in the
  wrong file. From any state in which the sender is between files and the receiver waits for
  an announcement, over channels that keep the order and lose nothing, with one timeout: the
  sender announces the first file twice, the receiver, who has it, refuses it twice; the
  second refusal reaches the sender when it has announced the second file, which it reports
  as one the receiver already has, while the receiver has accepted it; the announcement of
  the third file is answered with the position in the second, and the bytes read from the
  third file are written to the second.
\<close>

theorem stale_refusal_misdelivers:
  assumes "snd_idle 0 a" and "rcv_idle None b"
  shows "\<exists>n m. freach (fn_at a b [] []) n
    \<and> EvSendCompleted (offerInfo (offerN 2)) 0 (Some ErrSkip) \<in> set (s_log (fn_snd n))
    \<and> EvAccept (finfo_info (metaN 2) m) (Some 2) 0 None \<in> set (s_log (fn_rcv n))
    \<and> EvRead 3 (contentN 3) (Some IoUnexpectedEOF) \<in> set (s_log (fn_snd n))
    \<and> EvWrite 2 (contentN 3) None \<in> set (s_log (fn_rcv n))"
proof -
  obtain a1 b1 where 1: "freach (fn_at a b [] []) (fn_at a1 b1 [] [refusal, refusal])" "snd_asked 1 htxFinfoAck a1"
    "rcv_idle (Some (pkt_payload (finfoN 1))) b1" using run_refusals [OF assms] by blast
  obtain a2 where 2: "freach (fn_at a1 b1 [] [refusal, refusal]) (fn_at a2 b1 [finfoN 2, finfoN 3] [])"
    "snd_asked 3 htxFinfoAck a2" "EvSendCompleted (offerInfo (offerN 2)) 0 (Some ErrSkip) \<in> set (s_log a2)"
    using run_late_refusal [OF 1(2)] by blast
  obtain a3 b3 m where 3: "freach (fn_at a2 b1 [finfoN 2, finfoN 3] []) (fn_at a3 b3 [] [consent])" "snd_data 3 a3"
    "rcv_open 2 b3" "\<exists>es. s_log a3 = s_log a2 @ es" "EvAccept (finfo_info (metaN 2) m) (Some 2) 0 None \<in> set (s_log b3)"
    using run_mixed_up [OF 2(2) 1(3)] by blast
  obtain a4 b4 where 4: "freach (fn_at a3 b3 [] [consent]) (fn_at a4 b4 [] [consent])"
    "EvRead 3 (contentN 3) (Some IoUnexpectedEOF) \<in> set (s_log a4)" "EvWrite 2 (contentN 3) None \<in> set (s_log b4)"
    "\<exists>es. s_log a4 = s_log a3 @ es" "\<exists>es. s_log b4 = s_log b3 @ es"
    using run_misdelivery [OF 3(2,3)] by blast
  have "EvSendCompleted (offerInfo (offerN 2)) 0 (Some ErrSkip) \<in> set (s_log a4)"
    "EvAccept (finfo_info (metaN 2) m) (Some 2) 0 None \<in> set (s_log b4)"
    using 2(3) 3(4,5) 4(4,5) by auto
  with net_trans [OF net_trans [OF 1(1) 2(1)] net_trans [OF 3(1) 4(1)]] 4(2,3) show ?thesis
    by (intro exI [of _ "fn_at a4 b4 [] [consent]"] exI [of _ m]) (simp add: fn_at_def)
qed

theorem stale_refusal_misdelivers_witness:
  "\<exists>n. EvRead 3 [3, 3, 3] (Some IoUnexpectedEOF) \<in> set (s_log (fn_snd (n :: fnet)))
    \<and> EvWrite 2 [3, 3, 3] None \<in> set (s_log (fn_rcv n))"
proof -
  let ?a = "(batch_start offerEnv demoSession)\<lparr>b_txState := htxFinfo\<rparr>"
  let ?b = "(batch_start choosyEnv demoSession)\<lparr>b_rxState := hrxFinfo\<rparr>"
  have blk: "bs_size (newBlockSizer 0 2048) = 512" by (simp add: newBlockSizer_def bs_size_def Let_def)
  have "snd_idle 0 ?a"
    by (simp add: snd_defs batch_start_def feedBraindead_def tick_def newBatch_def session.defs demoSession_def run_setup_def
        NewSession_def defaults_def zeroConfig_def blk Let_def)
  moreover have "rcv_idle None ?b"
    by (simp add: rcv_defs batch_start_def feedBraindead_def tick_def newBatch_def session.defs Let_def)
  ultimately show ?thesis
    using stale_refusal_misdelivers [of ?a ?b] by (auto simp: contentN_def numeral_3_eq_3)
qed

end
