(* ===== verification/Hydra_Logger.thy ===== *)
theory Hydra_Logger
  imports Hydra_Demo
begin

unbundle bit_operations_syntax

section \<open>The packet log and the state trace (session.go)\<close>

text \<open>
  The records \<open>logPkt\<close> gives to \<open>Config.Logger\<close> and the lines \<open>trace\<close> prints when the variable
  \<open>HYDRA_TRACE\<close> is set. Both only observe. \<open>write\<close> logs a packet before it writes it and
  \<open>handlePacket\<close> logs a packet before it acts, which is where the session model has the
  events \<open>EvSend\<close> and \<open>EvRecv\<close>; \<open>packet_log\<close> reads the records off the event log. \<open>sendInit\<close> calls
  the writer directly, so an INIT that is sent has no record.
\<close>

datatype logDir = LogTx | LogRx

text \<open>One record; the offset attribute is present only on the second form.\<close>

record logRecord =
  lr_dir :: logDir
  lr_type :: gostring
  lr_len :: int
  lr_offset :: "int option"

definition string_of_byte :: "byte \<Rightarrow> gostring" where
  \<comment> \<open>\<open>string(typ)\<close> and \<open>%c\<close>: the UTF-8 encoding of the code point\<close>
  "string_of_byte c = (if c < 0x80 then [c] else [0xC0 OR drop_bit 6 c, 0x80 OR (c AND 0x3F)])"

definition logPkt :: "bool \<Rightarrow> logDir \<Rightarrow> byte \<Rightarrow> byte list \<Rightarrow> logRecord list" where
  \<comment> \<open>\<open>lg\<close>: a logger is configured\<close>
  "logPkt lg dir t payload =
     (if \<not> lg then []
      else
        (let plain = \<lparr>lr_dir = dir, lr_type = string_of_byte t, lr_len = int (length payload), lr_offset = None\<rparr>
         in if t = pktDATA \<or> t = pktDATAACK \<or> t = pktFINFOACK \<or> t = pktEOF then
              (case parseOffset payload of Inr off \<Rightarrow> [plain\<lparr>lr_offset := Some off\<rparr>] | Inl _ \<Rightarrow> [plain])
            else [plain]))"

definition event_log :: "bool \<Rightarrow> event \<Rightarrow> logRecord list" where
  "event_log lg e =
     (case e of
        EvRecv p \<Rightarrow> logPkt lg LogRx (pkt_typ p) (pkt_payload p)
      | EvSend f _ \<Rightarrow> if pkt_typ (sn_packet f) = pktINIT then []
          else logPkt lg LogTx (pkt_typ (sn_packet f)) (pkt_payload (sn_packet f))
      | _ \<Rightarrow> [])"

definition packet_log :: "bool \<Rightarrow> event list \<Rightarrow> logRecord list" where
  "packet_log lg es = concat (map (event_log lg) es)"

subsection \<open>The state trace\<close>

function dec :: "nat \<Rightarrow> gostring" where
  \<comment> \<open>\<open>%d\<close> of a non-negative number\<close>
  "dec n = (if n < 10 then [0x30 + of_nat n] else dec (n div 10) @ [0x30 + of_nat (n mod 10)])"
  by pat_completeness auto
termination by (relation "measure id") auto

declare dec.simps [simp del]

primrec rx_rank :: "rxState \<Rightarrow> nat" where
  "rx_rank hrxInit = 0" | "rx_rank hrxFinfo = 1" | "rx_rank hrxData = 2" | "rx_rank hrxDone = 3"

definition trace :: "bool \<Rightarrow> gostring \<Rightarrow> batch \<Rightarrow> gostring" where
  \<comment> \<open>what one call adds to the error stream; \<open>msg\<close> is the formatted argument\<close>
  "trace traceOn msg b =
     (if \<not> traceOn then []
      else
        (let role = (if cf_Originator (s_config b) then str ''ORG'' else str ''ANS'')
         in str ''['' @ role @ str '' tx='' @ dec (tx_rank (b_txState b)) @ str '' rx='' @ dec (rx_rank (b_rxState b))
            @ str ''] '' @ msg @ [charLF]))"

definition trace_packet :: "bool \<Rightarrow> packet \<Rightarrow> batch \<Rightarrow> gostring" where
  \<comment> \<open>the only call, at the start of \<open>handlePacket\<close>\<close>
  "trace_packet traceOn p b =
     trace traceOn (str ''pkt '' @ string_of_byte (pkt_typ p) @ str '' len='' @ dec (length (pkt_payload p))) b"

subsection \<open>The records of an operation\<close>

lemma packet_log_append [simp]:
  "packet_log lg (xs @ ys) = packet_log lg xs @ packet_log lg ys" "packet_log lg [] = []"
  "packet_log lg (e # es) = event_log lg e @ packet_log lg es"
  by (simp_all add: packet_log_def)

lemma packet_log_write:
  "t \<noteq> pktINIT \<Longrightarrow> packet_log lg (s_log (fst (batch_write E t p b))) = packet_log lg (s_log b) @ logPkt lg LogTx t p"
  by (simp add: batch_write_def writer_write_def emit_def event_log_def Let_def)

lemma packet_log_recv:
  "packet_log lg (s_log (emit (EvRecv p) b)) = packet_log lg (s_log b) @ logPkt lg LogRx (pkt_typ p) (pkt_payload p)"
  by (simp add: emit_def event_log_def)

lemma logPkt_one: "logPkt True dir t p = [r] \<Longrightarrow> lr_dir r = dir \<and> lr_type r = string_of_byte t \<and> lr_len r = int (length p)"
  by (auto simp: logPkt_def Let_def split: if_splits sum.splits)

lemma logPkt_exists: "\<exists>r. logPkt True dir t p = [r]"
  by (simp add: logPkt_def Let_def split: sum.split)

text \<open>
  The exception: an INIT is put on the wire without a record, while the peer that gets it makes
  one. The documentation of \<open>Config.Logger\<close> promises one for every packet in both directions.
\<close>

theorem sent_init_not_logged:
  "packet_log lg (s_log (fst (sendInit E b))) = packet_log lg (s_log b)
   \<and> length (s_log (fst (sendInit E b))) = Suc (length (s_log b))
   \<and> length (packet_log True [EvRecv \<lparr>pkt_typ = pktINIT, pkt_payload = p\<rparr>]) = 1"
proof -
  have "pktINIT \<noteq> pktDATA" "pktINIT \<noteq> pktDATAACK" "pktINIT \<noteq> pktFINFOACK" "pktINIT \<noteq> pktEOF" by simp_all
  then show ?thesis
    by (simp add: sendInit_def writer_write_def emit_def event_log_def logPkt_def Let_def)
qed

subsection \<open>The log tells the file positions\<close>

text \<open>
  Property C20. The packet log follows the files: the record of a DATA frame that was sent
  carries as its offset the position at which the frame's bytes were read from the open offer
  (counted from the start or the last successful seek), and its length is theirs and four.
\<close>

theorem logged_offset_is_position:
  assumes "send_trace (s_log s) = Some SIdle" and "reachable E s b"
    and "s_log b = es @ EvSend f r # fs" and "pkt_typ (sn_packet f) = pktDATA"
  shows "\<exists>ofr h pos p buf. send_trace es = Some (SFile ofr h pos (Some (p, buf)))
    \<and> packet_log True (s_log b) = packet_log True es
        @ [\<lparr>lr_dir = LogTx, lr_type = string_of_byte pktDATA, lr_len = int (length buf) + 4, lr_offset = Some p\<rparr>]
        @ packet_log True fs"
proof -
  obtain ofr h pos p buf where d: "send_trace es = Some (SFile ofr h pos (Some (p, buf)))"
    "0 \<le> p" "p + int (length buf) \<le> SafeMaxOffset" "pkt_payload (sn_packet f) = marshalData p buf"
    using sent_data_read [OF assms] by blast
  then have "fits_int32 p" by (simp add: fits_int32_def)
  then have "parseOffset (marshalData p buf) = Inr p"
    by (simp add: parseOffset_def marshalData_def sint_word_of_int32)
  with d assms(3,4) show ?thesis by (simp add: event_log_def logPkt_def)
qed

theorem logged_offset_is_position_witness:
  "\<exists>p n. packet_log True (s_log tx_sent_state) = packet_log True (s_log tx_accepted_state)
     @ [\<lparr>lr_dir = LogTx, lr_type = string_of_byte pktDATA, lr_len = n, lr_offset = Some p\<rparr>]"
  using logged_offset_is_position [OF demo_idle tx_sent_facts(2,1)]
  by (auto simp: frameA_def pktOf_def event_log_def)

end
