(* ===== verification/Hydra_Transport.thy ===== *)
theory Hydra_Transport
  imports Hydra_Batch
begin

unbundle bit_operations_syntax

section \<open>The transport writer and its buffer (writer.go)\<close>

text \<open>
  The session model sends a frame in one step that succeeds or fails. The code goes through a
  \<open>bufio.Writer\<close> of 8192 bytes, filled and flushed under the mutex of \<open>transportWriter\<close>. This
  theory models the writer with its buffer (the parts of \<open>bufio\<close> it uses, with the sticky
  error) over a transport that is an arbitrary \<open>io.Writer\<close>, and shows that the two agree: one
  transport write per frame up to the first failure, nothing after it.
\<close>

subsection \<open>The buffered writer\<close>

text \<open>
  An \<open>io.Writer\<close>: from what it was given before and what it is given now, the number of bytes it
  took and its error. Its contract: never more than it was given, and an error when it is less.
\<close>

type_synonym wire = "byte list list \<Rightarrow> byte list \<Rightarrow> nat \<times> err option"

definition wire_ok :: "wire \<Rightarrow> bool" where
  "wire_ok W \<longleftrightarrow> (\<forall>calls p. fst (W calls p) \<le> length p \<and> (fst (W calls p) < length p \<longrightarrow> snd (W calls p) \<noteq> None))"

record bufWriter =
  bw_buf :: "byte list"
  bw_err :: "err option"
  bw_calls :: "byte list list" \<comment> \<open>the transport writes so far\<close>

definition writerBufSize :: nat where [simp]: "writerBufSize = 8192"

definition bw_available :: "bufWriter \<Rightarrow> nat" where
  "bw_available w = writerBufSize - length (bw_buf w)"

definition bw_flush :: "wire \<Rightarrow> bufWriter \<Rightarrow> bufWriter \<times> err option" where
  "bw_flush W w =
     (if bw_err w \<noteq> None then (w, bw_err w)
      else if bw_buf w = [] then (w, None)
      else
        (case W (bw_calls w) (bw_buf w) of (n, e) \<Rightarrow>
          (let e = (if n < length (bw_buf w) \<and> e = None then Some IoShortWrite else e);
               w = w\<lparr>bw_calls := bw_calls w @ [bw_buf w]\<rparr>
           in if e \<noteq> None then (w\<lparr>bw_buf := drop n (bw_buf w), bw_err := e\<rparr>, e)
              else (w\<lparr>bw_buf := []\<rparr>, None))))"

partial_function (option) bw_fill :: "wire \<Rightarrow> byte list \<Rightarrow> bufWriter \<Rightarrow> (byte list \<times> bufWriter) option" where
  \<comment> \<open>the loop of \<open>Write\<close>: while the rest does not fit\<close>
  "bw_fill W p w =
     (if length p > bw_available w \<and> bw_err w = None then
        (if bw_buf w = [] then
           (case W (bw_calls w) p of (n, e) \<Rightarrow>
             bw_fill W (drop n p) (w\<lparr>bw_calls := bw_calls w @ [p], bw_err := e\<rparr>))
         else
           (let n = bw_available w in
            bw_fill W (drop n p) (fst (bw_flush W (w\<lparr>bw_buf := bw_buf w @ take n p\<rparr>)))))
      else Some (p, w))"

declare bw_fill.simps [code]

definition bw_write :: "wire \<Rightarrow> byte list \<Rightarrow> bufWriter \<Rightarrow> (bufWriter \<times> err option) option" where
  "bw_write W p w =
     (case bw_fill W p w of
        None \<Rightarrow> None
      | Some (p, w) \<Rightarrow>
          if bw_err w \<noteq> None then Some (w, bw_err w) else Some (w\<lparr>bw_buf := bw_buf w @ p\<rparr>, None))"

definition write_flush :: "wire \<Rightarrow> byte list \<Rightarrow> bufWriter \<Rightarrow> (bufWriter \<times> err option) option" where
  \<comment> \<open>\<open>if _, err := w.w.Write(out); err != nil { return err }; return w.w.Flush()\<close>\<close>
  "write_flush W p w =
     (case bw_write W p w of
        None \<Rightarrow> None
      | Some (w, Some e) \<Rightarrow> Some (w, Some e)
      | Some (w, None) \<Rightarrow> Some (bw_flush W w))"

subsection \<open>The transport writer\<close>

record transportWriter =
  tw_w :: bufWriter
  tw_esc :: binEscaper

definition newTransportWriter :: transportWriter where
  "newTransportWriter = \<lparr>tw_w = \<lparr>bw_buf = [], bw_err = None, bw_calls = []\<rparr>, tw_esc = \<lparr>esc_opts = 0, esc_lastc = 0\<rparr>\<rparr>"

definition esc_after :: "sent \<Rightarrow> binEscaper" where
  \<comment> \<open>the escaper a frame leaves behind; the next frame resets it\<close>
  "esc_after f =
     (let t = pkt_typ (sn_packet f); opts = sn_opts f; format = selectFormat t opts;
          body = frame_body t (pkt_payload (sn_packet f)) opts
      in if format = fmtBIN then snd (esc_putAll (esc_reset opts) [] body)
         else if format = fmtASC then snd (ascEncodeBody [] body (esc_reset opts))
         else esc_reset opts)"

definition tw_writePacket :: "wire \<Rightarrow> sent \<Rightarrow> transportWriter \<Rightarrow> (transportWriter \<times> err option) option" where
  "tw_writePacket W f tw =
     map_option (\<lambda>(w, r). (tw\<lparr>tw_w := w, tw_esc := esc_after f\<rparr>, r)) (write_flush W (sent_bytes f) (tw_w tw))"

definition tw_writeRaw :: "wire \<Rightarrow> byte list \<Rightarrow> transportWriter \<Rightarrow> (transportWriter \<times> err option) option" where
  "tw_writeRaw W p tw = map_option (\<lambda>(w, r). (tw\<lparr>tw_w := w\<rparr>, r)) (write_flush W p (tw_w tw))"

text \<open>The mutex makes every call one step, whichever goroutine it comes from.\<close>

datatype write_op = WritePacket sent | WriteRaw "byte list"

primrec op_bytes :: "write_op \<Rightarrow> byte list" where
  "op_bytes (WritePacket f) = sent_bytes f"
| "op_bytes (WriteRaw p) = p"

primrec do_write :: "wire \<Rightarrow> write_op \<Rightarrow> transportWriter \<Rightarrow> (transportWriter \<times> err option) option" where
  "do_write W (WritePacket f) tw = tw_writePacket W f tw"
| "do_write W (WriteRaw p) tw = tw_writeRaw W p tw"

fun write_ops :: "wire \<Rightarrow> write_op list \<Rightarrow> transportWriter \<Rightarrow> (transportWriter \<times> err option list) option" where
  "write_ops W [] tw = Some (tw, [])"
| "write_ops W (x # xs) tw =
     (case do_write W x tw of
        None \<Rightarrow> None
      | Some (tw, r) \<Rightarrow> map_option (\<lambda>(tw, rs). (tw, r # rs)) (write_ops W xs tw))"

subsection \<open>What the session model takes for granted\<close>

text \<open>Without a buffer: each call is one transport write; after a failure its error comes back at once.\<close>

fun direct :: "wire \<Rightarrow> byte list list \<Rightarrow> byte list list \<Rightarrow> byte list list \<times> err option list" where
  "direct W calls [] = (calls, [])"
| "direct W calls (p # ps) =
     (case snd (W calls p) of
        None \<Rightarrow> (case direct W (calls @ [p]) ps of (c, rs) \<Rightarrow> (c, None # rs))
      | Some e \<Rightarrow> (calls @ [p], map (\<lambda>_. Some e) (p # ps)))"

definition clean :: "byte list list \<Rightarrow> bufWriter \<Rightarrow> bool" where
  "clean calls w \<longleftrightarrow> bw_buf w = [] \<and> bw_err w = None \<and> bw_calls w = calls"

definition stuck :: "byte list list \<Rightarrow> err \<Rightarrow> bufWriter \<Rightarrow> bool" where
  "stuck calls e w \<longleftrightarrow> bw_err w = Some e \<and> bw_calls w = calls"

lemma stuck_write: "stuck calls e w \<Longrightarrow> write_flush W p w = Some (w, Some e)"
  by (simp add: write_flush_def bw_write_def bw_fill.simps [of W p w] stuck_def)

lemma wire_takes_all: "wire_ok W \<Longrightarrow> W calls p = (n, None) \<Longrightarrow> n = length p"
  unfolding wire_ok_def by (metis fst_conv snd_conv le_neq_implies_less)

text \<open>A frame larger than the buffer goes past it, any other through it.\<close>

lemma clean_write:
  assumes W: "wire_ok W" and w: "clean calls w" and p: "p \<noteq> []"
  shows "\<exists>w'. write_flush W p w = Some (w', snd (W calls p))
    \<and> (case snd (W calls p) of None \<Rightarrow> clean (calls @ [p]) w' | Some e \<Rightarrow> stuck (calls @ [p]) e w')"
proof -
  obtain n e where a: "W calls p = (n, e)" by fastforce
  define w1 where "w1 = w\<lparr>bw_calls := calls @ [p], bw_err := e\<rparr>"
  show ?thesis
  proof (cases "length p > writerBufSize")
    case True
    have "bw_fill W p w = bw_fill W (drop n p) w1"
      using True w a by (simp add: bw_fill.simps [of W p w] w1_def clean_def bw_available_def)
    also have "\<dots> = Some (drop n p, w1)"
      using wire_takes_all [OF W] a by (cases e) (simp_all add: bw_fill.simps [of W _ w1], simp add: w1_def)
    finally have "bw_fill W p w = Some (drop n p, w1)" .
    then show ?thesis
      using w a wire_takes_all [OF W] by (cases e)
        (simp_all add: write_flush_def bw_write_def bw_flush_def w1_def clean_def stuck_def)
  next
    case False
    then have "bw_fill W p w = Some (p, w)"
      using w by (simp add: bw_fill.simps [of W p w] clean_def bw_available_def)
    then show ?thesis
      using w a p wire_takes_all [OF W] by (cases e)
        (simp_all add: write_flush_def bw_write_def bw_flush_def clean_def stuck_def Let_def)
  qed
qed

lemma sent_bytes_nonempty [simp]: "sent_bytes f \<noteq> []"
  by (simp add: sent_bytes_def writePacket_parts)

lemma write_op_flush:
  "write_flush W (op_bytes x) (tw_w tw) = Some (w, r) \<Longrightarrow> \<exists>tw'. do_write W x tw = Some (tw', r) \<and> tw_w tw' = w"
  by (cases x) (auto simp: tw_writePacket_def tw_writeRaw_def)

lemma write_ops_stuck:
  "stuck calls e (tw_w tw) \<Longrightarrow>
    \<exists>tw'. write_ops W xs tw = Some (tw', map (\<lambda>_. Some e) xs) \<and> bw_calls (tw_w tw') = calls"
proof (induction xs arbitrary: tw)
  case (Cons x xs)
  obtain tw1 where "do_write W x tw = Some (tw1, Some e)" "tw_w tw1 = tw_w tw"
    using write_op_flush [OF stuck_write [OF Cons.prems]] by blast
  with Cons.IH [of tw1] Cons.prems show ?case by auto
qed (simp add: stuck_def)

lemma write_ops_clean:
  assumes W: "wire_ok W"
  shows "clean calls (tw_w tw) \<Longrightarrow> WriteRaw [] \<notin> set xs \<Longrightarrow>
    \<exists>tw'. write_ops W xs tw = Some (tw', snd (direct W calls (map op_bytes xs)))
      \<and> bw_calls (tw_w tw') = fst (direct W calls (map op_bytes xs))"
proof (induction xs arbitrary: tw calls)
  case (Cons x xs)
  have "op_bytes x \<noteq> []" using Cons.prems(2) by (cases x) auto
  from clean_write [OF W Cons.prems(1) this] obtain w where
    w: "write_flush W (op_bytes x) (tw_w tw) = Some (w, snd (W calls (op_bytes x)))"
    and st: "case snd (W calls (op_bytes x)) of None \<Rightarrow> clean (calls @ [op_bytes x]) w
      | Some e \<Rightarrow> stuck (calls @ [op_bytes x]) e w" by blast
  obtain tw1 where t: "do_write W x tw = Some (tw1, snd (W calls (op_bytes x)))" "tw_w tw1 = w"
    using write_op_flush [OF w] by blast
  show ?case
  proof (cases "snd (W calls (op_bytes x))")
    case None
    with Cons.IH [of "calls @ [op_bytes x]" tw1] Cons.prems(2) t st
    show ?thesis by (auto split: prod.split)
  next
    case (Some e)
    with write_ops_stuck [of "calls @ [op_bytes x]" e tw1 W xs] t st show ?thesis by auto
  qed
qed (simp add: clean_def)

text \<open>
  Property C19. The buffer is transparent: over every transport that keeps the contract of
  \<open>io.Writer\<close>, any sequence of packets, autostart and cancel strings, of any length, returns, and
  reaches the transport as one write per call, in order, up to the first one that fails; that
  call and all later ones return its error and nothing more reaches the transport.
\<close>

theorem writer_is_direct:
  assumes "wire_ok W" and "WriteRaw [] \<notin> set xs"
  shows "\<exists>tw. write_ops W xs newTransportWriter = Some (tw, snd (direct W [] (map op_bytes xs)))
    \<and> bw_calls (tw_w tw) = fst (direct W [] (map op_bytes xs))"
  by (rule write_ops_clean [OF assms(1) _ assms(2)]) (simp add: newTransportWriter_def clean_def)

text \<open>A transport that takes one write and breaks in the middle of the second.\<close>

definition breaking :: wire where
  "breaking calls p = (if calls = [] then (length p, None) else (length p div 2, Some SysEPIPE))"

theorem writer_is_direct_witness:
  "\<exists>tw. write_ops breaking [WriteRaw autostart, WriteRaw writeCancel, WriteRaw autostart] newTransportWriter
     = Some (tw, [None, Some SysEPIPE, Some SysEPIPE]) \<and> bw_calls (tw_w tw) = [autostart, writeCancel]"
proof -
  have "wire_ok breaking" by (simp add: wire_ok_def breaking_def)
  moreover have "WriteRaw [] \<notin> set [WriteRaw autostart, WriteRaw writeCancel, WriteRaw autostart]"
    by (simp add: writeCancel_def autostart_def)
  ultimately show ?thesis
    using writer_is_direct [of breaking "[WriteRaw autostart, WriteRaw writeCancel, WriteRaw autostart]"]
    by (simp add: breaking_def)
qed

end
