(* ===== verification/Hydra_Teardown.thy ===== *)
theory Hydra_Teardown
  imports Hydra_Session
begin

section \<open>Concurrent teardown (session.go)\<close>

text \<open>
  The session model runs \<open>Abort\<close> and \<open>Close\<close> in one step. Here they take their steps one by
  one, any number of calls at a time, together with the goroutines that can hold them up: the
  event loop, stalled for any time inside a transport write with the writer's mutex held; the
  goroutines that write the courtesy cancel, waiting for that mutex or stalled themselves; the
  reader, parked in a read; and a first \<open>Run\<close> that is just starting. Time passes only when no
  call can move and never beyond a deadline a call waits for; nothing is assumed of the transport but
  that its \<open>Close\<close> returns.
\<close>

definition cancelGraceTimeout :: int where "cancelGraceTimeout = 250 * 1000000"

definition readerJoinTimeout :: int where "readerJoinTimeout = time_Second"

datatype tcall = CallAbort | CallClose | CallRunError err

text \<open>Where a call is; \<open>PGrace\<close> and \<open>PJoin\<close> are the two \<open>select\<close>s with the time their timer fires.\<close>

datatype tpc = PRecord | PTrigger | PCancel | PGrace int | PClose | PJoinTest | PJoin int | PReturned int

text \<open>The goroutine of \<open>courtesyCancel\<close>, and the event loop as a user of the writer.\<close>

datatype lockpc = Out | Want | Hold | Gone

text \<open>How far the first \<open>Run\<close> has come before its event loop.\<close>

datatype startpc = RunNot | RunCloser | RunChecked | RunWriter | RunJoinable | RunGoing

text \<open>A call; \<open>cl_t0\<close> and \<open>cl_live\<close> remember when it was made and whether the reader was known by then.\<close>

record tcaller =
  cl_call :: tcall
  cl_t0 :: int
  cl_live :: bool
  cl_pc :: tpc
  cl_cancel :: lockpc

record tstate =
  td_now :: int
  td_err :: "err option"
  td_aborted :: bool
  td_closed :: bool
  td_closes :: nat
  td_start :: startpc
  td_readerDone :: bool
  td_locked :: bool
  td_loop :: lockpc
  td_calls :: "tcaller list"

definition td_closerSet :: "tstate \<Rightarrow> bool" where "td_closerSet s \<longleftrightarrow> td_start s \<noteq> RunNot"

definition td_writerReady :: "tstate \<Rightarrow> bool" where
  "td_writerReady s \<longleftrightarrow> td_start s = RunWriter \<or> td_start s = RunJoinable \<or> td_start s = RunGoing"

definition td_readerStarted :: "tstate \<Rightarrow> bool" where
  "td_readerStarted s \<longleftrightarrow> td_start s = RunJoinable \<or> td_start s = RunGoing"

definition call_error :: "tcall \<Rightarrow> err" where
  "call_error c = (case c of CallAbort \<Rightarrow> ErrSessionAborted | CallClose \<Rightarrow> ErrSessionClosed | CallRunError e \<Rightarrow> e)"

definition cancels :: "tcall \<Rightarrow> bool" where
  \<comment> \<open>whether the call goes through \<open>courtesyCancel\<close>\<close>
  "cancels c = (case c of CallAbort \<Rightarrow> True | CallClose \<Rightarrow> False
     | CallRunError e \<Rightarrow> \<not> errors_is e ErrPeerCancel \<and> \<not> isTransportErr e)"

text \<open>The next statement of a call, \<open>None\<close> while it waits.\<close>

definition own_step :: "tstate \<Rightarrow> tcaller \<Rightarrow> (tstate \<times> tcaller) option" where
  "own_step s c =
     (case cl_pc c of
        PRecord \<Rightarrow> Some (if td_err s = None then s\<lparr>td_err := Some (call_error (cl_call c))\<rparr> else s, c\<lparr>cl_pc := PTrigger\<rparr>)
      | PTrigger \<Rightarrow> Some (s\<lparr>td_aborted := True\<rparr>, c\<lparr>cl_pc := (if cancels (cl_call c) then PCancel else PClose)\<rparr>)
      | PCancel \<Rightarrow>
          if td_writerReady s then Some (s, c\<lparr>cl_cancel := Want, cl_pc := PGrace (td_now s + cancelGraceTimeout)\<rparr>)
          else Some (s, c\<lparr>cl_pc := PClose\<rparr>)
      | PGrace d \<Rightarrow> if cl_cancel c = Gone \<or> d \<le> td_now s then Some (s, c\<lparr>cl_pc := PClose\<rparr>) else None
      | PClose \<Rightarrow>
          Some (if td_closed s then s
                else s\<lparr>td_closed := True, td_closes := td_closes s + (if td_closerSet s then 1 else 0)\<rparr>,
                c\<lparr>cl_pc := (if cl_call c = CallClose then PJoinTest else PReturned (td_now s))\<rparr>)
      | PJoinTest \<Rightarrow>
          Some (s, c\<lparr>cl_pc := (if td_readerStarted s then PJoin (td_now s + readerJoinTimeout) else PReturned (td_now s))\<rparr>)
      | PJoin d \<Rightarrow> if td_readerDone s \<or> d \<le> td_now s then Some (s, c\<lparr>cl_pc := PReturned (td_now s)\<rparr>) else None
      | PReturned _ \<Rightarrow> None)"

definition deadline :: "tpc \<Rightarrow> int option" where
  "deadline p = (case p of PGrace d \<Rightarrow> Some d | PJoin d \<Rightarrow> Some d | _ \<Rightarrow> None)"

definition new_call :: "tcall \<Rightarrow> tstate \<Rightarrow> tcaller" where
  "new_call k s = \<lparr>cl_call = k, cl_t0 = td_now s, cl_live = td_readerStarted s, cl_pc = PRecord, cl_cancel = Out\<rparr>"

inductive tstep :: "tstate \<Rightarrow> tstate \<Rightarrow> bool" where
  ts_call: "tstep s (s\<lparr>td_calls := td_calls s @ [new_call k s]\<rparr>)"
| ts_own: "i < length (td_calls s) \<Longrightarrow> own_step s (td_calls s ! i) = Some (s', c) \<Longrightarrow>
    tstep s (s'\<lparr>td_calls := (td_calls s)[i := c]\<rparr>)"
| ts_cancel_lock: "i < length (td_calls s) \<Longrightarrow> cl_cancel (td_calls s ! i) = Want \<Longrightarrow> \<not> td_locked s \<Longrightarrow>
    tstep s (s\<lparr>td_locked := True, td_calls := (td_calls s)[i := (td_calls s ! i)\<lparr>cl_cancel := Hold\<rparr>]\<rparr>)"
| ts_cancel_done: "i < length (td_calls s) \<Longrightarrow> cl_cancel (td_calls s ! i) = Hold \<Longrightarrow>
    tstep s (s\<lparr>td_locked := False, td_calls := (td_calls s)[i := (td_calls s ! i)\<lparr>cl_cancel := Gone\<rparr>]\<rparr>)"
| ts_closer: "td_start s = RunNot \<Longrightarrow> tstep s (s\<lparr>td_start := RunCloser\<rparr>)"
| ts_checked: "td_start s = RunCloser \<Longrightarrow> \<not> td_aborted s \<Longrightarrow> tstep s (s\<lparr>td_start := RunChecked\<rparr>)"
| ts_writer: "td_start s = RunChecked \<Longrightarrow> tstep s (s\<lparr>td_start := RunWriter\<rparr>)"
| ts_joinable: "td_start s = RunWriter \<Longrightarrow> tstep s (s\<lparr>td_start := RunJoinable\<rparr>)"
| ts_going: "td_start s = RunJoinable \<Longrightarrow> tstep s (s\<lparr>td_start := RunGoing\<rparr>)"
| ts_read_end: "td_start s = RunGoing \<Longrightarrow> tstep s (s\<lparr>td_readerDone := True\<rparr>)"
| ts_loop_want: "td_start s = RunGoing \<Longrightarrow> td_loop s = Out \<Longrightarrow> tstep s (s\<lparr>td_loop := Want\<rparr>)"
| ts_loop_lock: "td_loop s = Want \<Longrightarrow> \<not> td_locked s \<Longrightarrow> tstep s (s\<lparr>td_loop := Hold, td_locked := True\<rparr>)"
| ts_loop_done: "td_loop s = Hold \<Longrightarrow> tstep s (s\<lparr>td_loop := Out, td_locked := False\<rparr>)"
| ts_delay: "0 < d \<Longrightarrow> \<forall>c \<in> set (td_calls s). own_step s c = None \<and> (\<forall>x. deadline (cl_pc c) = Some x \<longrightarrow> td_now s + d \<le> x) \<Longrightarrow>
    tstep s (s\<lparr>td_now := td_now s + d\<rparr>)"

definition td_init :: "int \<Rightarrow> tstate" where
  \<comment> \<open>what \<open>NewSession\<close> returns\<close>
  "td_init t = \<lparr>td_now = t, td_err = None, td_aborted = False, td_closed = False, td_closes = 0, td_start = RunNot,
     td_readerDone = False, td_locked = False, td_loop = Out, td_calls = []\<rparr>"

definition td_reach :: "tstate \<Rightarrow> bool" where
  "td_reach s \<longleftrightarrow> (\<exists>t. tstep\<^sup>*\<^sup>* (td_init t) s)"

subsection \<open>What holds at every moment\<close>

definition time_bound :: "tcall \<Rightarrow> int" where
  "time_bound c = (if c = CallClose then readerJoinTimeout else cancelGraceTimeout)"

definition in_time :: "int \<Rightarrow> tcaller \<Rightarrow> bool" where
  "in_time now c =
     (case cl_pc c of
        PGrace d \<Rightarrow> cl_call c \<noteq> CallClose \<and> d = cl_t0 c + cancelGraceTimeout \<and> cl_t0 c \<le> now \<and> now \<le> d
      | PClose \<Rightarrow> cl_t0 c \<le> now \<and> now \<le> cl_t0 c + (if cl_call c = CallClose then 0 else cancelGraceTimeout)
      | PJoinTest \<Rightarrow> cl_call c = CallClose \<and> now = cl_t0 c
      | PJoin d \<Rightarrow> cl_call c = CallClose \<and> d = cl_t0 c + readerJoinTimeout \<and> cl_t0 c \<le> now \<and> now \<le> d
      | PReturned t \<Rightarrow> cl_t0 c \<le> t \<and> t \<le> cl_t0 c + time_bound (cl_call c) \<and> t \<le> now
      | PCancel \<Rightarrow> cl_call c \<noteq> CallClose \<and> now = cl_t0 c \<and> cl_cancel c = Out
      | _ \<Rightarrow> now = cl_t0 c \<and> cl_cancel c = Out)"

definition past_close :: "tpc \<Rightarrow> bool" where
  "past_close p = (case p of PJoinTest \<Rightarrow> True | PJoin _ \<Rightarrow> True | PReturned _ \<Rightarrow> True | _ \<Rightarrow> False)"

definition effects_done :: "tstate \<Rightarrow> tcaller \<Rightarrow> bool" where
  "effects_done s c \<longleftrightarrow> (cl_pc c \<noteq> PRecord \<longrightarrow> td_err s \<noteq> None)
     \<and> (cl_pc c \<noteq> PRecord \<and> cl_pc c \<noteq> PTrigger \<longrightarrow> td_aborted s) \<and> (past_close (cl_pc c) \<longrightarrow> td_closed s)
     \<and> (cl_live c \<longrightarrow> td_readerStarted s)
     \<and> (cl_live c \<and> cl_call c = CallClose \<longrightarrow>
         (\<forall>t. cl_pc c = PReturned t \<longrightarrow> td_readerDone s \<or> t = cl_t0 c + readerJoinTimeout))"

definition holding :: "tcaller list \<Rightarrow> nat" where
  "holding cs = sum_list (map (\<lambda>c. if cl_cancel c = Hold then 1 else 0) cs)"

definition locks_ok :: "tstate \<Rightarrow> bool" where
  "locks_ok s \<longleftrightarrow> (if td_loop s = Hold then 1 else 0) + holding (td_calls s) = (if td_locked s then 1 else 0)"

definition td_ok :: "tstate \<Rightarrow> bool" where
  "td_ok s \<longleftrightarrow> (\<forall>c \<in> set (td_calls s). in_time (td_now s) c \<and> effects_done s c) \<and> locks_ok s
     \<and> td_closes s \<le> (if td_closed s then 1 else 0)"

lemma holding_simps [simp]:
  "holding [] = 0" "holding (cs @ ds) = holding cs + holding ds"
  "holding (c # cs) = (if cl_cancel c = Hold then 1 else 0) + holding cs"
  by (simp_all add: holding_def)

lemma holding_update:
  "i < length cs \<Longrightarrow> holding (cs[i := c]) + (if cl_cancel (cs ! i) = Hold then 1 else 0)
     = holding cs + (if cl_cancel c = Hold then 1 else 0)"
proof (induction cs arbitrary: i)
  case (Cons x cs)
  then show ?case by (cases i) fastforce+
qed simp

lemma graces [simp]: "0 < cancelGraceTimeout" "0 < readerJoinTimeout" "0 \<le> cancelGraceTimeout" "0 \<le> readerJoinTimeout"
  by (simp_all add: cancelGraceTimeout_def readerJoinTimeout_def)

lemmas td_flags = td_closerSet_def td_writerReady_def td_readerStarted_def

lemma flags_frame [simp]:
  "td_readerStarted (s\<lparr>td_err := x\<rparr>) = td_readerStarted s" "td_readerStarted (s\<lparr>td_aborted := y\<rparr>) = td_readerStarted s"
  "td_readerStarted (s\<lparr>td_closed := y\<rparr>) = td_readerStarted s" "td_readerStarted (s\<lparr>td_closes := n\<rparr>) = td_readerStarted s"
  "td_readerStarted (s\<lparr>td_calls := cs\<rparr>) = td_readerStarted s" "td_readerStarted (s\<lparr>td_now := d\<rparr>) = td_readerStarted s"
  "td_readerStarted (s\<lparr>td_loop := l\<rparr>) = td_readerStarted s" "td_readerStarted (s\<lparr>td_readerDone := y\<rparr>) = td_readerStarted s"
  "td_readerStarted (s\<lparr>td_locked := y\<rparr>) = td_readerStarted s"
  by (simp_all add: td_readerStarted_def)

text \<open>A statement of a call brings the call forward and disturbs no other.\<close>

lemma own_caller:
  assumes o: "own_step s c = Some (s', c')" and t: "in_time (td_now s) c" and e: "effects_done s c"
  shows "in_time (td_now s') c' \<and> effects_done s' c' \<and> (cl_cancel c' = Hold \<longleftrightarrow> cl_cancel c = Hold)"
proof (cases "cl_pc c")
  case PRecord
  with o have "s' = (if td_err s = None then s\<lparr>td_err := Some (call_error (cl_call c))\<rparr> else s)" "c' = c\<lparr>cl_pc := PTrigger\<rparr>"
    by (simp_all add: own_step_def)
  with PRecord t e show ?thesis by (auto simp: in_time_def effects_done_def past_close_def)
next
  case PTrigger
  with o have "s' = s\<lparr>td_aborted := True\<rparr>" "c' = c\<lparr>cl_pc := (if cancels (cl_call c) then PCancel else PClose)\<rparr>"
    by (simp_all add: own_step_def)
  with PTrigger t e show ?thesis
    by (cases "cl_call c") (auto simp: in_time_def effects_done_def past_close_def cancels_def)
next
  case PCancel
  with o t e show ?thesis
    by (auto simp: own_step_def in_time_def effects_done_def past_close_def split: if_splits)
next
  case (PGrace d)
  with o t e show ?thesis
    by (auto simp: own_step_def in_time_def effects_done_def past_close_def split: if_splits)
next
  case PClose
  with o have "s' = (if td_closed s then s
      else s\<lparr>td_closed := True, td_closes := td_closes s + (if td_closerSet s then 1 else 0)\<rparr>)"
    "c' = c\<lparr>cl_pc := (if cl_call c = CallClose then PJoinTest else PReturned (td_now s))\<rparr>"
    by (simp_all add: own_step_def)
  with PClose t e show ?thesis by (auto simp: in_time_def effects_done_def past_close_def time_bound_def)
next
  case PJoinTest
  with o t e show ?thesis
    by (auto simp: own_step_def in_time_def effects_done_def past_close_def time_bound_def split: if_splits)
next
  case (PJoin d)
  with o t e show ?thesis
    by (auto simp: own_step_def in_time_def effects_done_def past_close_def time_bound_def split: if_splits)
next
  case (PReturned d)
  with o show ?thesis by (simp add: own_step_def)
qed

lemma own_others:
  assumes "own_step s c = Some (s', c')"
  shows "td_now s' = td_now s \<and> td_locked s' = td_locked s \<and> td_loop s' = td_loop s \<and> td_calls s' = td_calls s
    \<and> td_start s' = td_start s \<and> td_readerDone s' = td_readerDone s
    \<and> (td_closes s \<le> (if td_closed s then 1 else 0) \<longrightarrow> td_closes s' \<le> (if td_closed s' then 1 else 0))
    \<and> (td_err s \<noteq> None \<longrightarrow> td_err s' = td_err s) \<and> (td_aborted s \<longrightarrow> td_aborted s') \<and> (td_closed s \<longrightarrow> td_closed s')"
  using assms by (cases "cl_pc c") (auto simp: own_step_def split: if_splits)

lemma effects_stable:
  assumes "effects_done s x" and "td_start s' = td_start s" and "td_readerDone s' = td_readerDone s"
    and "td_err s \<noteq> None \<longrightarrow> td_err s' = td_err s" and "td_aborted s \<longrightarrow> td_aborted s'" and "td_closed s \<longrightarrow> td_closed s'"
  shows "effects_done s' x"
  using assms by (auto simp: effects_done_def td_readerStarted_def)

lemma td_ok_init: "td_ok (td_init t)"
  by (simp add: td_ok_def td_init_def locks_ok_def)

lemma td_okI:
  assumes "\<And>c. c \<in> set (td_calls s) \<Longrightarrow> in_time (td_now s) c \<and> effects_done s c" and "locks_ok s"
    and "td_closes s \<le> (if td_closed s then 1 else 0)"
  shows "td_ok s"
  using assms by (simp add: td_ok_def)

lemma cancel_frame:
  "cl_cancel c \<noteq> Out \<Longrightarrow> in_time now c \<Longrightarrow> in_time now (c\<lparr>cl_cancel := k\<rparr>)"
  "effects_done s (c\<lparr>cl_cancel := k\<rparr>) = effects_done s c"
  "effects_done (s\<lparr>td_locked := l, td_calls := cs\<rparr>) c = effects_done s c"
  by (cases "cl_pc c"; simp add: in_time_def) (simp_all add: effects_done_def)

lemma cancel_update:
  assumes s: "td_ok s" and i: "i < length (td_calls s)"
    and locks: "(if cl_cancel (td_calls s ! i) = Hold then 1 else 0) + (if l then 1 else 0)
      = (if k = Hold then 1 else 0) + (if td_locked s then 1 else (0::nat))"
    and out: "cl_cancel (td_calls s ! i) \<noteq> Out"
  shows "td_ok (s\<lparr>td_locked := l, td_calls := (td_calls s)[i := (td_calls s ! i)\<lparr>cl_cancel := k\<rparr>]\<rparr>)" (is "td_ok ?s")
proof (rule td_okI)
  fix c
  assume "c \<in> set (td_calls ?s)"
  then consider "c \<in> set (td_calls s)" | "c = (td_calls s ! i)\<lparr>cl_cancel := k\<rparr>"
    using set_update_subset_insert by fastforce
  moreover have "td_calls s ! i \<in> set (td_calls s)" using i by simp
  ultimately show "in_time (td_now ?s) c \<and> effects_done ?s c"
    using s out cancel_frame by cases (simp_all add: td_ok_def)
next
  show "locks_ok ?s"
    using s holding_update [OF i, of "(td_calls s ! i)\<lparr>cl_cancel := k\<rparr>"] locks
    by (auto simp: td_ok_def locks_ok_def split: if_splits)
next
  show "td_closes ?s \<le> (if td_closed ?s then 1 else 0)" using s by (simp add: td_ok_def)
qed

lemma delay_in_time:
  "in_time now c \<Longrightarrow> own_step s c = None \<Longrightarrow> \<forall>x. deadline (cl_pc c) = Some x \<longrightarrow> now + d \<le> x \<Longrightarrow> 0 < d \<Longrightarrow> in_time (now + d) c"
  by (cases "cl_pc c") (auto simp: in_time_def own_step_def deadline_def split: if_splits)

lemma td_ok_quiet:
  assumes "td_ok s" and "td_now s' = td_now s" "td_calls s' = td_calls s" "td_err s' = td_err s" "td_aborted s' = td_aborted s"
    "td_closed s' = td_closed s" "td_closes s' = td_closes s" "td_readerStarted s \<Longrightarrow> td_readerStarted s'"
    "td_readerDone s \<Longrightarrow> td_readerDone s'" and "locks_ok s \<Longrightarrow> locks_ok s'"
  shows "td_ok s'"
  using assms by (auto simp: td_ok_def effects_done_def)

lemma effects_frame [simp]:
  "effects_done (s\<lparr>td_calls := cs\<rparr>) c = effects_done s c" "effects_done (s\<lparr>td_now := d\<rparr>) c = effects_done s c"
  by (simp_all add: effects_done_def)

lemma td_ok_step: "tstep s s' \<Longrightarrow> td_ok s \<Longrightarrow> td_ok s'"
proof (induction rule: tstep.induct)
  case (ts_own i s s' c)
  let ?c = "td_calls s ! i"
  have "?c \<in> set (td_calls s)" using ts_own(1) by simp
  with ts_own(3) have c: "in_time (td_now s') c \<and> effects_done s' c \<and> (cl_cancel c = Hold \<longleftrightarrow> cl_cancel ?c = Hold)"
    using own_caller [OF ts_own(2)] by (auto simp: td_ok_def)
  note o = own_others [OF ts_own(2)]
  show ?case
  proof (rule td_okI)
    fix x
    assume "x \<in> set (td_calls (s'\<lparr>td_calls := (td_calls s)[i := c]\<rparr>))"
    then consider "x \<in> set (td_calls s)" | "x = c" using set_update_subset_insert by fastforce
    then have "in_time (td_now s') x \<and> effects_done s' x"
      using ts_own(3) c effects_stable [of s x s'] o by cases (auto simp: td_ok_def)
    then show "in_time (td_now (s'\<lparr>td_calls := (td_calls s)[i := c]\<rparr>)) x
      \<and> effects_done (s'\<lparr>td_calls := (td_calls s)[i := c]\<rparr>) x" by simp
  next
    show "locks_ok (s'\<lparr>td_calls := (td_calls s)[i := c]\<rparr>)"
      using ts_own(3) o c holding_update [OF ts_own(1), of c] by (auto simp: td_ok_def locks_ok_def split: if_splits)
  next
    show "td_closes (s'\<lparr>td_calls := (td_calls s)[i := c]\<rparr>) \<le> (if td_closed (s'\<lparr>td_calls := (td_calls s)[i := c]\<rparr>) then 1 else 0)"
      using ts_own(3) o by (simp add: td_ok_def)
  qed
next
  case (ts_cancel_lock i s)
  then show ?case using cancel_update [of s i True Hold] by simp
next
  case (ts_cancel_done i s)
  have "td_calls s ! i \<in> set (td_calls s)" using ts_cancel_done by simp
  then have "holding (td_calls s) > 0" using ts_cancel_done(2) unfolding holding_def
    by (metis (mono_tags, lifting) gr0I image_eqI list.set_map sum_list_eq_0_iff zero_neq_one)
  then have "td_locked s" using ts_cancel_done(3) by (auto simp: td_ok_def locks_ok_def split: if_splits)
  then show ?case using ts_cancel_done cancel_update [of s i False Gone] by simp
next
  case (ts_delay d s)
  then have "in_time (td_now s + d) c" if "c \<in> set (td_calls s)" for c
    using that delay_in_time [of "td_now s" c s d] by (auto simp: td_ok_def)
  with ts_delay show ?case by (simp add: td_ok_def locks_ok_def)
next
  case (ts_call s k)
  have "in_time (td_now s) (new_call k s) \<and> effects_done s (new_call k s)"
    by (simp add: new_call_def in_time_def effects_done_def past_close_def)
  with ts_call show ?case by (auto simp: td_ok_def locks_ok_def new_call_def)
qed (erule td_ok_quiet; simp add: locks_ok_def td_readerStarted_def split: if_splits)+

lemma td_ok_reach: "td_reach s \<Longrightarrow> td_ok s"
proof -
  have "tstep\<^sup>*\<^sup>* s0 s \<Longrightarrow> td_ok s0 \<Longrightarrow> td_ok s" for s0
    by (induction rule: rtranclp_induct) (auto intro: td_ok_step)
  then show "td_reach s \<Longrightarrow> td_ok s" using td_ok_init by (auto simp: td_reach_def)
qed

subsection \<open>Time always passes\<close>

definition tpc_rank :: "tpc \<Rightarrow> nat" where
  "tpc_rank p = (case p of PRecord \<Rightarrow> 7 | PTrigger \<Rightarrow> 6 | PCancel \<Rightarrow> 5 | PGrace _ \<Rightarrow> 4 | PClose \<Rightarrow> 3
     | PJoinTest \<Rightarrow> 2 | PJoin _ \<Rightarrow> 1 | PReturned _ \<Rightarrow> 0)"

definition work :: "tstate \<Rightarrow> nat" where
  "work s = sum_list (map (\<lambda>c. tpc_rank (cl_pc c)) (td_calls s))"

lemma own_rank: "own_step s c = Some (s', c') \<Longrightarrow> tpc_rank (cl_pc c') < tpc_rank (cl_pc c) \<and> cl_call c' = cl_call c \<and> cl_t0 c' = cl_t0 c"
  by (cases "cl_pc c") (auto simp: own_step_def tpc_rank_def split: if_splits)

lemma sum_list_update_less:
  "i < length xs \<Longrightarrow> f y < f (xs ! i) \<Longrightarrow> sum_list (map f (xs[i := y])) < sum_list (map (f :: 'a \<Rightarrow> nat) xs)"
proof (induction xs arbitrary: i)
  case (Cons x xs)
  then show ?case by (cases i) auto
qed simp

definition same_calls :: "tstate \<Rightarrow> tstate \<Rightarrow> bool" where
  "same_calls s s' \<longleftrightarrow> map cl_call (td_calls s') = map cl_call (td_calls s) \<and> map cl_t0 (td_calls s') = map cl_t0 (td_calls s)"


lemma same_calls_refl [simp]: "same_calls s s"
  by (simp add: same_calls_def)

lemma same_calls_trans: "same_calls s s' \<Longrightarrow> same_calls s' s'' \<Longrightarrow> same_calls s s''"
  by (simp add: same_calls_def)

lemma own_works:
  assumes "c \<in> set (td_calls s)" and "own_step s c \<noteq> None"
  shows "\<exists>s'. tstep s s' \<and> work s' < work s \<and> td_now s' = td_now s \<and> same_calls s s'"
proof -
  obtain i where i: "i < length (td_calls s)" "c = td_calls s ! i" using assms(1) by (auto simp: in_set_conv_nth)
  obtain s1 c1 where o: "own_step s c = Some (s1, c1)" using assms(2) by auto
  have r: "tpc_rank (cl_pc c1) < tpc_rank (cl_pc c)" "cl_call c1 = cl_call c" "cl_t0 c1 = cl_t0 c"
    using own_rank [OF o] by simp_all
  have "map cl_call ((td_calls s)[i := c1]) = map cl_call (td_calls s)" "map cl_t0 ((td_calls s)[i := c1]) = map cl_t0 (td_calls s)"
    using r i by (simp_all add: map_update list_update_same_conv)
  moreover have "tstep s (s1\<lparr>td_calls := (td_calls s)[i := c1]\<rparr>)" using i o by (intro ts_own) simp_all
  moreover have "work (s1\<lparr>td_calls := (td_calls s)[i := c1]\<rparr>) < work s"
    using sum_list_update_less [OF i(1), of "\<lambda>c. tpc_rank (cl_pc c)" c1] r(1) i(2) by (simp add: work_def)
  moreover have "td_now s1 = td_now s" using own_others [OF o] by simp
  ultimately show ?thesis by (intro exI [of _ "s1\<lparr>td_calls := (td_calls s)[i := c1]\<rparr>"]) (simp add: same_calls_def)
qed

text \<open>
  When no call can move, time can pass up to the next deadline, and there a call can move.
\<close>

lemma wait_for_deadline:
  assumes stop: "\<forall>c \<in> set (td_calls s). own_step s c = None" and now: "td_now s < T"
  shows "\<exists>d > 0. (\<forall>c \<in> set (td_calls s). \<forall>x. deadline (cl_pc c) = Some x \<longrightarrow> td_now s + d \<le> x)
    \<and> (td_now s + d = T \<or> (\<exists>c \<in> set (td_calls s). deadline (cl_pc c) = Some (td_now s + d)))"
proof -
  let ?D = "insert T {x. \<exists>c \<in> set (td_calls s). deadline (cl_pc c) = Some x}"
  have "{x. \<exists>c \<in> set (td_calls s). deadline (cl_pc c) = Some x} \<subseteq> (\<lambda>c. the (deadline (cl_pc c))) ` set (td_calls s)"
    by (auto simp: image_iff) (metis option.sel)
  then have fin: "finite ?D" using finite_subset by blast
  have "td_now s < x" if "c \<in> set (td_calls s)" "deadline (cl_pc c) = Some x" for c x
    using bspec [OF stop that(1)] that(2) by (cases "cl_pc c") (auto simp: own_step_def deadline_def split: if_splits)
  then have "td_now s < Min ?D" using fin now by auto
  moreover have "Min ?D \<in> ?D" using fin by (intro Min_in) auto
  moreover have "Min ?D \<le> x" if "x \<in> ?D" for x using fin that by (rule Min_le)
  ultimately show ?thesis by (intro exI [of _ "Min ?D - td_now s"]) auto
qed

lemma deadline_moves:
  "deadline (cl_pc c) = Some (td_now s) \<Longrightarrow> own_step s c \<noteq> None"
  by (cases "cl_pc c") (auto simp: own_step_def deadline_def)

lemma time_passes: "\<exists>s'. tstep\<^sup>*\<^sup>* s s' \<and> T \<le> td_now s' \<and> same_calls s s'"
proof (induction "work s" arbitrary: s rule: less_induct)
  case less
  have go: "\<exists>s'. tstep\<^sup>*\<^sup>* s0 s' \<and> T \<le> td_now s' \<and> same_calls s0 s'"
    if m: "c \<in> set (td_calls s0)" "own_step s0 c \<noteq> None" and w: "work s0 = work s" for s0 c
  proof -
    obtain s1 where s1: "tstep s0 s1" "work s1 < work s" "same_calls s0 s1"
      using own_works [OF m] w by auto
    from less [OF s1(2)] obtain s2 where "tstep\<^sup>*\<^sup>* s1 s2" "T \<le> td_now s2" "same_calls s1 s2" by blast
    with s1 show ?thesis using same_calls_trans converse_rtranclp_into_rtranclp by metis
  qed
  show ?case
  proof (cases "\<exists>c \<in> set (td_calls s). own_step s c \<noteq> None")
    case True
    then show ?thesis using go by blast
  next
    case False
    show ?thesis
    proof (cases "T \<le> td_now s")
      case False
      then have now: "td_now s < T" by simp
      have stop: "\<forall>c \<in> set (td_calls s). own_step s c = None" using \<open>\<not> (\<exists>c \<in> _. _)\<close> by blast
      obtain d where d: "0 < d" "\<forall>c \<in> set (td_calls s). \<forall>x. deadline (cl_pc c) = Some x \<longrightarrow> td_now s + d \<le> x"
        "td_now s + d = T \<or> (\<exists>c \<in> set (td_calls s). deadline (cl_pc c) = Some (td_now s + d))"
        using wait_for_deadline [OF stop now] by blast
      let ?s = "s\<lparr>td_now := td_now s + d\<rparr>"
      have step: "tstep s ?s" "same_calls s ?s" using ts_delay [OF d(1)] stop d(2) by (simp_all add: same_calls_def)
      have "\<exists>s'. tstep\<^sup>*\<^sup>* ?s s' \<and> T \<le> td_now s' \<and> same_calls ?s s'"
      proof (cases "td_now s + d = T")
        case False
        with d(3) obtain c where "c \<in> set (td_calls ?s)" "deadline (cl_pc c) = Some (td_now ?s)" by auto
        then show ?thesis using go [of c ?s] deadline_moves by (simp add: work_def)
      qed auto
      with step show ?thesis using same_calls_trans converse_rtranclp_into_rtranclp by metis
    qed auto
  qed
qed

subsection \<open>The properties\<close>

lemma returned_late:
  assumes "in_time now c" and "cl_t0 c + time_bound (cl_call c) < now"
  shows "\<exists>t. cl_pc c = PReturned t"
  using assms graces by (cases "cl_pc c") (auto simp: in_time_def time_bound_def simp del: graces split: if_splits)


text \<open>
  Property C18. What a teardown call leaves behind: when \<open>Abort\<close>, \<open>Close\<close> or a failing \<open>Run\<close> has
  returned, an error is recorded, the abort is signalled and the session's one closing has taken
  place; the transport was closed at most once, and the transport writes of the event loop and of
  the courtesy goroutines exclude each other. When a \<open>Close\<close> that was made after the reader had
  been started returns, the reader has exited, unless the full second was waited.
\<close>

theorem close_is_barrier:
  assumes "td_reach s" and "c \<in> set (td_calls s)" and "cl_pc c = PReturned t"
  shows "td_err s \<noteq> None \<and> td_aborted s \<and> td_closed s \<and> td_closes s \<le> 1
    \<and> (if td_loop s = Hold then 1 else 0) + length (filter (\<lambda>c. cl_cancel c = Hold) (td_calls s)) \<le> (1::nat)
    \<and> (cl_call c = CallClose \<and> cl_live c \<and> t < cl_t0 c + readerJoinTimeout \<longrightarrow> td_readerDone s)"
proof -
  have ok: "td_ok s" by (rule td_ok_reach [OF assms(1)])
  have "holding cs = length (filter (\<lambda>c. cl_cancel c = Hold) cs)" for cs
    by (induction cs) simp_all
  then have "(if td_loop s = Hold then 1 else 0) + length (filter (\<lambda>c. cl_cancel c = Hold) (td_calls s)) \<le> (1::nat)"
    using ok by (simp add: td_ok_def locks_ok_def split: if_splits)
  moreover have "td_closes s \<le> 1" using ok by (simp add: td_ok_def split: if_splits)
  moreover have "effects_done s c" using ok assms(2) by (simp add: td_ok_def)
  ultimately show ?thesis using assms(3) by (auto simp: effects_done_def past_close_def)
qed

subsection \<open>The barrier and the start of the first run\<close>

text \<open>
  The calls of the witness below: a \<open>Close\<close> overlapping the start of the first \<open>Run\<close>.
\<close>

definition raced :: tstate where
  "raced = \<lparr>td_now = 0, td_err = Some ErrSessionClosed, td_aborted = True, td_closed = True, td_closes = 1,
     td_start = RunGoing, td_readerDone = False, td_locked = False, td_loop = Out,
     td_calls = [\<lparr>cl_call = CallClose, cl_t0 = 0, cl_live = False, cl_pc = PReturned 0, cl_cancel = Out\<rparr>]\<rparr>"

definition closing :: "tpc \<Rightarrow> err option \<Rightarrow> bool \<Rightarrow> nat \<Rightarrow> tstate" where
  \<comment> \<open>that \<open>Close\<close> on its way, \<open>Run\<close> standing after its check\<close>
  "closing p e y n = raced\<lparr>td_start := RunChecked, td_err := e, td_aborted := y, td_closed := 0 < n, td_closes := n,
     td_calls := [\<lparr>cl_call = CallClose, cl_t0 = 0, cl_live = False, cl_pc = p, cl_cancel = Out\<rparr>]\<rparr>"

lemma closing_own:
  assumes "own_step (closing p e y n) (td_calls (closing p e y n) ! 0) = Some (s', c)"
    and "s'\<lparr>td_calls := [c]\<rparr> = closing p' e' y' n'"
  shows "tstep (closing p e y n) (closing p' e' y' n')"
proof -
  have "(td_calls (closing p e y n))[0 := c] = [c]" by (simp add: closing_def)
  with ts_own [of 0 "closing p e y n"] assms show ?thesis by (simp add: closing_def)
qed

lemma raced_reachable: "td_reach raced"
proof -
  let ?s1 = "(td_init 0)\<lparr>td_start := RunCloser\<rparr>" and ?s2 = "(td_init 0)\<lparr>td_start := RunChecked\<rparr>"
  have "tstep (td_init 0) ?s1" by (rule ts_closer) (simp add: td_init_def)
  moreover have "tstep ?s1 ?s2" using ts_checked [of ?s1] by (simp add: td_init_def)
  moreover have "tstep ?s2 (closing PRecord None False 0)"
    using ts_call [of ?s2 CallClose] by (simp add: closing_def raced_def td_init_def new_call_def td_readerStarted_def)
  moreover have "tstep (closing PRecord None False 0) (closing PTrigger (Some ErrSessionClosed) False 0)"
    by (rule closing_own) (auto simp: own_step_def closing_def raced_def call_error_def)
  moreover have "tstep (closing PTrigger (Some ErrSessionClosed) False 0) (closing PClose (Some ErrSessionClosed) True 0)"
    by (rule closing_own) (auto simp: own_step_def closing_def raced_def cancels_def)
  moreover have "tstep (closing PClose (Some ErrSessionClosed) True 0) (closing PJoinTest (Some ErrSessionClosed) True 1)"
    by (rule closing_own) (auto simp: own_step_def closing_def raced_def td_closerSet_def)
  moreover have "tstep (closing PJoinTest (Some ErrSessionClosed) True 1) (closing (PReturned 0) (Some ErrSessionClosed) True 1)"
    by (rule closing_own) (auto simp: own_step_def closing_def raced_def td_readerStarted_def)
  moreover have "tstep (closing (PReturned 0) (Some ErrSessionClosed) True 1) (raced\<lparr>td_start := RunWriter\<rparr>)"
    using ts_writer [of "closing (PReturned 0) (Some ErrSessionClosed) True 1"] by (simp add: closing_def raced_def)
  moreover have "tstep (raced\<lparr>td_start := RunWriter\<rparr>) (raced\<lparr>td_start := RunJoinable\<rparr>)"
    using ts_joinable [of "raced\<lparr>td_start := RunWriter\<rparr>"] by simp
  moreover have "tstep (raced\<lparr>td_start := RunJoinable\<rparr>) raced"
    using ts_going [of "raced\<lparr>td_start := RunJoinable\<rparr>"] by (simp add: raced_def)
  ultimately have "tstep\<^sup>*\<^sup>* (td_init 0) raced" by (meson converse_rtranclp_into_rtranclp rtranclp.rtrancl_refl)
  then show ?thesis by (auto simp: td_reach_def)
qed

text \<open>
  Property C39. A \<open>Close\<close> that runs between the check of \<open>abortCh\<close> in the first \<open>Run\<close> and the store to
  \<open>readerStarted\<close>: it closes the transport, sees no reader to wait for and returns at once; then
  \<open>Run\<close> starts the reader. After such a \<open>Close\<close> a reader goroutine is still at the transport,
  which the comment on \<open>Close\<close> rules out.
\<close>

theorem close_races_first_run:
  "\<exists>s c t. td_reach s \<and> c \<in> set (td_calls s) \<and> cl_call c = CallClose \<and> cl_pc c = PReturned t \<and> t = cl_t0 c
    \<and> td_start s = RunGoing \<and> \<not> td_readerDone s"
  using raced_reachable by (intro exI [of _ raced] exI [of _ "hd (td_calls raced)"] exI [of _ 0]) (simp add: raced_def)


theorem close_is_barrier_witness: "td_err raced \<noteq> None \<and> td_closed raced \<and> td_closes raced \<le> 1"
  using close_is_barrier [OF raced_reachable, of "hd (td_calls raced)" 0] by (simp add: raced_def)

end
