(* ===== verification/Hydra_Sides.thy ===== *)
theory Hydra_Sides
  imports Hydra_Steps
begin

section \<open>What one machine leaves to the others\<close>

text \<open>
  The transmit, receive and device machines share one state record, and each writes its own
  part of it. An invariant about one machine is therefore kept by the operations of the others
  as soon as it looks only at that machine's fields and tolerates the others' events. The two
  locales state that contract for the transmit and for the receive machine, with one lemma for
  every operation of the others; the theories that follow instantiate them with their
  invariants.
\<close>

text \<open>Two invariants together, under a condition on the environment.\<close>

lemma post_both:
  "(g \<Longrightarrow> post P F r) \<Longrightarrow> (g \<Longrightarrow> post Q F' r) \<Longrightarrow> post (\<lambda>b. g \<longrightarrow> P b \<and> Q b) (\<lambda>_. True) r"
  by (auto simp: post_def split: option.splits)

definition tx_fields where
  "tx_fields b = (s_config b, s_log b, b_txState b, b_txOffer b, b_txReader b, b_txSeeker b, b_txInfo b, b_txPos b,
     b_txSkip b, b_txEOB b, b_lastFinfo b, b_finfoAckWait b, b_eofAckWait b, b_batchEnded b, b_blk b)"

definition rx_fields where
  "rx_fields b = (s_config b, s_log b, b_rxState b, b_rxWriter b, b_rxOpen b, b_rxInfo b, b_rxPos b,
     b_lastRefusedFinfo b, b_lastRefusedAck b, b_filesRcvd b)"

definition sent_type :: "event \<Rightarrow> byte option" where
  "sent_type e = (case e of EvSend s r \<Rightarrow> Some (pkt_typ (sn_packet s)) | _ \<Rightarrow> None)"

definition dev_event :: "event \<Rightarrow> bool" where
  \<comment> \<open>what the device machine and the exported operations log\<close>
  "dev_event e \<longleftrightarrow> (case e of EvDevice d p \<Rightarrow> True | EvRaw p r \<Rightarrow> True | EvTransportClose \<Rightarrow> True
     | EvSend s r \<Rightarrow> pkt_typ (sn_packet s) \<in> {pktDEVDATA, pktDEVDACK} | _ \<Rightarrow> False)"

definition rx_event :: "event \<Rightarrow> bool" where
  "rx_event e \<longleftrightarrow> dev_event e \<or> (case e of
       EvAccept a b c d \<Rightarrow> True | EvWrite a b c \<Rightarrow> True | EvWriterClose a \<Rightarrow> True
     | EvRecvProgress a b \<Rightarrow> True | EvRecvCompleted a b c \<Rightarrow> True
     | EvSend s r \<Rightarrow> pkt_typ (sn_packet s) \<in> {pktINITACK, pktFINFOACK, pktDATAACK, pktRPOS, pktEOFACK}
     | _ \<Rightarrow> False)"

definition tx_event :: "event \<Rightarrow> bool" where
  "tx_event e \<longleftrightarrow> dev_event e \<or> (case e of
       EvNextFile a \<Rightarrow> True | EvOfferClose a \<Rightarrow> True | EvRead a b c \<Rightarrow> True | EvSeek a b c \<Rightarrow> True
     | EvSendProgress a b \<Rightarrow> True | EvSendCompleted a b c \<Rightarrow> True
     | EvSend s r \<Rightarrow> pkt_typ (sn_packet s) \<in> {pktSTART, pktINIT, pktFINFO, pktDATA, pktEOF, pktEND, pktIDLE}
     | _ \<Rightarrow> False)"

lemma dev_event_simps [simp]:
  "dev_event (EvDevice d p)" "dev_event (EvRaw q r)" "dev_event EvTransportClose"
  "dev_event (EvSend s r) \<longleftrightarrow> pkt_typ (sn_packet s) \<in> {pktDEVDATA, pktDEVDACK}"
  "rx_event (EvAccept i w off herr)" "rx_event (EvWrite h bs r)" "rx_event (EvWriterClose h)"
  "rx_event (EvRecvProgress i n)" "rx_event (EvRecvCompleted i n e')"
  "tx_event (EvNextFile a)" "tx_event (EvOfferClose f)" "tx_event (EvRead h bs r)" "tx_event (EvSeek h n r)"
  "tx_event (EvSendProgress i n)" "tx_event (EvSendCompleted i n e')"
  by (simp_all add: dev_event_def rx_event_def tx_event_def)

lemma dev_event_side: "dev_event e \<Longrightarrow> rx_event e" "dev_event e \<Longrightarrow> tx_event e"
  by (simp_all add: rx_event_def tx_event_def)

lemma side_sends [simp]:
  "rx_event (EvSend s r) \<longleftrightarrow> pkt_typ (sn_packet s) \<in> {pktDEVDATA, pktDEVDACK, pktINITACK, pktFINFOACK, pktDATAACK, pktRPOS, pktEOFACK}"
  "tx_event (EvSend s r) \<longleftrightarrow> pkt_typ (sn_packet s) \<in> {pktDEVDATA, pktDEVDACK, pktSTART, pktINIT, pktFINFO, pktDATA, pktEOF, pktEND, pktIDLE}"
  by (auto simp: rx_event_def tx_event_def)

subsection \<open>The device machine and the exported operations\<close>

text \<open>
  \<open>I\<close> looks at nothing but the session, the transmit and the receive fields.
\<close>

locale dev_side =
  fixes I :: "batch \<Rightarrow> bool"
  assumes dev_view: "tx_fields b = tx_fields b' \<Longrightarrow> rx_fields b = rx_fields b' \<Longrightarrow> I b = I b'"
    and dev_quiet: "dev_event e \<Longrightarrow> I b \<Longrightarrow> I (emit e b)"
begin

lemma dev_frame [simp]:
  "I (b\<lparr>s_rxOpts := x0\<rparr>) = I b" "I (b\<lparr>s_effOpts := x1\<rparr>) = I b"
  "I (b\<lparr>s_negotiated := x2\<rparr>) = I b" "I (b\<lparr>s_inbox := x3\<rparr>) = I b"
  "I (b\<lparr>s_readErr := x4\<rparr>) = I b" "I (b\<lparr>s_readerDone := x5\<rparr>) = I b"
  "I (b\<lparr>s_devQ := x6\<rparr>) = I b" "I (b\<lparr>s_aborted := x7\<rparr>) = I b"
  "I (b\<lparr>s_err := x8\<rparr>) = I b" "I (b\<lparr>s_started := x9\<rparr>) = I b"
  "I (b\<lparr>s_runActive := x10\<rparr>) = I b" "I (b\<lparr>s_closerSet := x11\<rparr>) = I b"
  "I (b\<lparr>s_closed := x12\<rparr>) = I b" "I (b\<lparr>s_ctx := x13\<rparr>) = I b"
  "I (b\<lparr>s_clk := x14\<rparr>) = I b" "I (b\<lparr>b_opts := x15\<rparr>) = I b"
  "I (b\<lparr>b_txWindow := x16\<rparr>) = I b" "I (b\<lparr>b_rxWindow := x17\<rparr>) = I b"
  "I (b\<lparr>b_prefix := x18\<rparr>) = I b" "I (b\<lparr>b_productive := x19\<rparr>) = I b"
  "I (b\<lparr>b_txTimer := x20\<rparr>) = I b" "I (b\<lparr>b_devTimer := x21\<rparr>) = I b"
  "I (b\<lparr>b_braindead := x22\<rparr>) = I b" "I (b\<lparr>b_txRetries := x23\<rparr>) = I b"
  "I (b\<lparr>b_txSyncID := x24\<rparr>) = I b" "I (b\<lparr>b_txLastAck := x25\<rparr>) = I b"
  "I (b\<lparr>b_peerAcked := x26\<rparr>) = I b" "I (b\<lparr>b_hdxlink := x27\<rparr>) = I b"
  "I (b\<lparr>b_txErr := x28\<rparr>) = I b" "I (b\<lparr>b_filesSent := x29\<rparr>) = I b"
  "I (b\<lparr>b_rxRetries := x30\<rparr>) = I b" "I (b\<lparr>b_rxSyncID := x31\<rparr>) = I b"
  "I (b\<lparr>b_rxLastSync := x32\<rparr>) = I b" "I (b\<lparr>b_rxTimer := x33\<rparr>) = I b"
  "I (b\<lparr>b_rxBlkLen := x34\<rparr>) = I b" "I (b\<lparr>b_devState := x35\<rparr>) = I b"
  "I (b\<lparr>b_devRetries := x36\<rparr>) = I b" "I (b\<lparr>b_devTxID := x37\<rparr>) = I b"
  "I (b\<lparr>b_devRxID := x38\<rparr>) = I b" "I (b\<lparr>b_devPending := x39\<rparr>) = I b"
  "I (b\<lparr>b_devQueue := x40\<rparr>) = I b"
  by (rule dev_view; simp add: tx_fields_def rx_fields_def)+

lemma dev_ticks [simp]:
  "I (tick b) = I b" "I (feedBraindead E b) = I b" "I (set_txTimer E d b) = I b" "I (armTx E b) = I b"
  by (simp_all add: tick_def feedBraindead_def set_txTimer_def armTx_def Let_def)

lemma dev_write: "t \<in> {pktDEVDATA, pktDEVDACK} \<Longrightarrow> I b \<Longrightarrow> post I I (batch_write E t p b)"
  by (auto simp: batch_write_def post_writer_write dev_quiet split: option.split)

lemma dev_queue [simp]: "I (queueDev req b) = I b"
  by (simp add: queueDev_def Let_def)

lemma dev_promote [simp]: "I (devPromote b) = I b"
  by (simp add: devPromote_def split: list.split)

lemma dev_ack: "I b \<Longrightarrow> I (devDack pkt b)"
  by (simp add: devDack_def split: sum.split option.split)

lemma dev_timeout: "I b \<Longrightarrow> post I I (devTimeout b)"
  by (simp add: devTimeout_def Let_def)

lemma dev_receive: "I b \<Longrightarrow> post I I (devRx E pkt b)"
  by (simp add: devRx_def Let_def dev_write dev_quiet split: sum.split)

lemma dev_action: "I b \<Longrightarrow> post I I (devAction E b)"
proof -
  assume b: "I b"
  then have "post I I (andThen (batch_write E pktDEVDATA (marshalDevData d) (devPromote b)) (\<lambda>b.
        fine ((tick (b\<lparr>b_devTimer := Some (time_now E b + cf_Timeout (s_config b))\<rparr>))\<lparr>b_devState := htdDack\<rparr>)))" for d
    by (intro post_andThen [where J = I]) (simp_all add: dev_write)
  with b show ?thesis by (simp add: devAction_def Let_def split: option.split)
qed

lemma outside: "I b \<Longrightarrow> I (absorb E x b)"
  by (cases x)
    (simp_all add: SendDevice_def Abort_def Close_def session_close_def courtesyCancel_def triggerAbort_def
      recordError_def writeRaw_def dev_quiet Let_def split: prod.split bool.split)

lemma idles: "I b \<Longrightarrow> I (tick b) \<and> I (b\<lparr>s_inbox := q\<rparr>) \<and> I (b\<lparr>s_readErr := None\<rparr>) \<and> I (b\<lparr>b_productive := False\<rparr>)"
  by simp

end

subsection \<open>Invariants of the transmit machine\<close>

locale tx_side =
  fixes I :: "batch \<Rightarrow> bool"
  assumes tx_view: "tx_fields b = tx_fields b' \<Longrightarrow> I b = I b'"
    and tx_quiet: "rx_event e \<Longrightarrow> I b \<Longrightarrow> I (emit e b)"

sublocale tx_side \<subseteq> dev_side
  by unfold_locales (erule tx_view, simp add: tx_quiet dev_event_side)

context tx_side
begin

lemma tx_frame [simp]:
  "I (b\<lparr>s_rxOpts := x0\<rparr>) = I b" "I (b\<lparr>s_effOpts := x1\<rparr>) = I b"
  "I (b\<lparr>s_negotiated := x2\<rparr>) = I b" "I (b\<lparr>s_inbox := x3\<rparr>) = I b"
  "I (b\<lparr>s_readErr := x4\<rparr>) = I b" "I (b\<lparr>s_readerDone := x5\<rparr>) = I b"
  "I (b\<lparr>s_devQ := x6\<rparr>) = I b" "I (b\<lparr>s_aborted := x7\<rparr>) = I b"
  "I (b\<lparr>s_err := x8\<rparr>) = I b" "I (b\<lparr>s_started := x9\<rparr>) = I b"
  "I (b\<lparr>s_runActive := x10\<rparr>) = I b" "I (b\<lparr>s_closerSet := x11\<rparr>) = I b"
  "I (b\<lparr>s_closed := x12\<rparr>) = I b" "I (b\<lparr>s_ctx := x13\<rparr>) = I b"
  "I (b\<lparr>s_clk := x14\<rparr>) = I b" "I (b\<lparr>b_opts := x15\<rparr>) = I b"
  "I (b\<lparr>b_txWindow := x16\<rparr>) = I b" "I (b\<lparr>b_rxWindow := x17\<rparr>) = I b"
  "I (b\<lparr>b_prefix := x18\<rparr>) = I b" "I (b\<lparr>b_productive := x19\<rparr>) = I b"
  "I (b\<lparr>b_txTimer := x20\<rparr>) = I b" "I (b\<lparr>b_devTimer := x21\<rparr>) = I b"
  "I (b\<lparr>b_braindead := x22\<rparr>) = I b" "I (b\<lparr>b_txRetries := x23\<rparr>) = I b"
  "I (b\<lparr>b_txSyncID := x24\<rparr>) = I b" "I (b\<lparr>b_txLastAck := x25\<rparr>) = I b"
  "I (b\<lparr>b_peerAcked := x26\<rparr>) = I b" "I (b\<lparr>b_hdxlink := x27\<rparr>) = I b"
  "I (b\<lparr>b_txErr := x28\<rparr>) = I b" "I (b\<lparr>b_filesSent := x29\<rparr>) = I b"
  "I (b\<lparr>b_rxState := x30\<rparr>) = I b" "I (b\<lparr>b_filesRcvd := x31\<rparr>) = I b"
  "I (b\<lparr>b_lastRefusedFinfo := x32\<rparr>) = I b" "I (b\<lparr>b_lastRefusedAck := x33\<rparr>) = I b"
  "I (b\<lparr>b_rxWriter := x34\<rparr>) = I b" "I (b\<lparr>b_rxOpen := x35\<rparr>) = I b"
  "I (b\<lparr>b_rxInfo := x36\<rparr>) = I b" "I (b\<lparr>b_rxPos := x37\<rparr>) = I b"
  "I (b\<lparr>b_rxRetries := x38\<rparr>) = I b" "I (b\<lparr>b_rxSyncID := x39\<rparr>) = I b"
  "I (b\<lparr>b_rxLastSync := x40\<rparr>) = I b" "I (b\<lparr>b_rxTimer := x41\<rparr>) = I b"
  "I (b\<lparr>b_rxBlkLen := x42\<rparr>) = I b" "I (b\<lparr>b_devState := x43\<rparr>) = I b"
  "I (b\<lparr>b_devRetries := x44\<rparr>) = I b" "I (b\<lparr>b_devTxID := x45\<rparr>) = I b"
  "I (b\<lparr>b_devRxID := x46\<rparr>) = I b" "I (b\<lparr>b_devPending := x47\<rparr>) = I b"
  "I (b\<lparr>b_devQueue := x48\<rparr>) = I b"
  by (rule tx_view; simp add: tx_fields_def)+

lemma rx_write:
  "t \<in> {pktDEVDATA, pktDEVDACK, pktINITACK, pktFINFOACK, pktDATAACK, pktRPOS, pktEOFACK} \<Longrightarrow> I b \<Longrightarrow> post I I (batch_write E t p b)"
  by (simp add: batch_write_def post_writer_write tx_quiet split: option.split)

lemma rx_blocks: "I b \<Longrightarrow> I (closeWriter w b)" "I b \<Longrightarrow> I (recvCompleted i n e b)"
  by (simp_all add: closeWriter_def recvCompleted_def tx_quiet split: option.split)

lemma rx_close: "I b \<Longrightarrow> I (rxCloseFile e b)"
  by (simp add: rxCloseFile_def rx_blocks Let_def)

lemma rx_init: "I b \<Longrightarrow> post I I (rxInit E pkt b)"
proof -
  assume b: "I b"
  then have "post I I (andThen (negotiate p b) (\<lambda>b. fine (b\<lparr>b_rxState := hrxFinfo\<rparr>)))" for p
    by (intro post_andThen [where J = I]) (simp_all add: negotiate_def Let_def)
  with b have "post I I (if b_rxState b = hrxInit then
          (case parseInit (pkt_payload pkt) of
             Inl _ \<Rightarrow> fine b
           | Inr p \<Rightarrow> andThen (negotiate p b) (\<lambda>b. fine (b\<lparr>b_rxState := hrxFinfo\<rparr>)))
        else fine b)"
    by (simp split: sum.split)
  then show ?thesis unfolding rxInit_def by (rule post_andThen) (simp add: rx_write)
qed

lemma rx_accept: "I b \<Longrightarrow> I (snd (acceptFinfo E payload b))"
  by (simp add: acceptFinfo_def Let_def tx_quiet rx_blocks split: sum.split option.split prod.split)

lemma rx_announced: "I b \<Longrightarrow> post I I (rxFinfo E pkt b)"
proof -
  assume b: "I b"
  then have "acceptFinfo E (pkt_payload pkt) (feedBraindead E b) = (ack, b') \<Longrightarrow> I b'" for ack b'
    using rx_accept [of "feedBraindead E b" E "pkt_payload pkt"] by simp
  with b show ?thesis
    by (simp add: rxFinfo_def Let_def rx_write split: rxState.split prod.split)
qed

lemma rx_bad: "I b \<Longrightarrow> post I I (badPosition E off eof b)"
  by (simp add: badPosition_def Let_def rx_write split: option.split)

lemma rx_skip: "I b \<Longrightarrow> post I I (requestSkip E e b)"
  by (simp add: requestSkip_def Let_def rx_write rx_close)

lemma rx_data: "I b \<Longrightarrow> post I I (rxData E pkt b)"
proof -
  assume b: "I b"
  have "I b'" if "rxWrite E data ((feedBraindead E b)\<lparr>b_rxBlkLen := n\<rparr>) = (b', r)" for data n b' r
    using that b by (auto simp: rxWrite_def Let_def tx_quiet split: option.splits)
  with b show ?thesis
    by (auto simp: rxData_def Let_def rx_bad rx_skip rx_write tx_quiet split: sum.split prod.split option.split)
qed

lemma rx_eof: "I b \<Longrightarrow> post I I (rxEOF E pkt b)"
  by (simp add: rxEOF_def rx_bad rx_write rx_close split: rxState.split sum.split)

end

subsection \<open>Invariants of the receive machine\<close>

locale rx_side =
  fixes I :: "batch \<Rightarrow> bool"
  assumes rx_view: "rx_fields b = rx_fields b' \<Longrightarrow> I b = I b'"
    and rx_quiet: "tx_event e \<Longrightarrow> I b \<Longrightarrow> I (emit e b)"

sublocale rx_side \<subseteq> dev_side
  by unfold_locales (erule rx_view, simp add: rx_quiet dev_event_side)

context rx_side
begin

lemma rx_frame [simp]:
  "I (b\<lparr>s_rxOpts := x0\<rparr>) = I b" "I (b\<lparr>s_effOpts := x1\<rparr>) = I b"
  "I (b\<lparr>s_negotiated := x2\<rparr>) = I b" "I (b\<lparr>s_inbox := x3\<rparr>) = I b"
  "I (b\<lparr>s_readErr := x4\<rparr>) = I b" "I (b\<lparr>s_readerDone := x5\<rparr>) = I b"
  "I (b\<lparr>s_devQ := x6\<rparr>) = I b" "I (b\<lparr>s_aborted := x7\<rparr>) = I b"
  "I (b\<lparr>s_err := x8\<rparr>) = I b" "I (b\<lparr>s_started := x9\<rparr>) = I b"
  "I (b\<lparr>s_runActive := x10\<rparr>) = I b" "I (b\<lparr>s_closerSet := x11\<rparr>) = I b"
  "I (b\<lparr>s_closed := x12\<rparr>) = I b" "I (b\<lparr>s_ctx := x13\<rparr>) = I b"
  "I (b\<lparr>s_clk := x14\<rparr>) = I b" "I (b\<lparr>b_opts := x15\<rparr>) = I b"
  "I (b\<lparr>b_txWindow := x16\<rparr>) = I b" "I (b\<lparr>b_rxWindow := x17\<rparr>) = I b"
  "I (b\<lparr>b_prefix := x18\<rparr>) = I b" "I (b\<lparr>b_productive := x19\<rparr>) = I b"
  "I (b\<lparr>b_txTimer := x20\<rparr>) = I b" "I (b\<lparr>b_devTimer := x21\<rparr>) = I b"
  "I (b\<lparr>b_braindead := x22\<rparr>) = I b" "I (b\<lparr>b_txState := x23\<rparr>) = I b"
  "I (b\<lparr>b_txRetries := x24\<rparr>) = I b" "I (b\<lparr>b_txSyncID := x25\<rparr>) = I b"
  "I (b\<lparr>b_blk := x26\<rparr>) = I b" "I (b\<lparr>b_txLastAck := x27\<rparr>) = I b"
  "I (b\<lparr>b_peerAcked := x28\<rparr>) = I b" "I (b\<lparr>b_hdxlink := x29\<rparr>) = I b"
  "I (b\<lparr>b_txOffer := x30\<rparr>) = I b" "I (b\<lparr>b_txReader := x31\<rparr>) = I b"
  "I (b\<lparr>b_txSeeker := x32\<rparr>) = I b" "I (b\<lparr>b_txInfo := x33\<rparr>) = I b"
  "I (b\<lparr>b_txPos := x34\<rparr>) = I b" "I (b\<lparr>b_txSkip := x35\<rparr>) = I b"
  "I (b\<lparr>b_txErr := x36\<rparr>) = I b" "I (b\<lparr>b_txEOB := x37\<rparr>) = I b"
  "I (b\<lparr>b_lastFinfo := x38\<rparr>) = I b" "I (b\<lparr>b_filesSent := x39\<rparr>) = I b"
  "I (b\<lparr>b_batchEnded := x40\<rparr>) = I b" "I (b\<lparr>b_finfoAckWait := x41\<rparr>) = I b"
  "I (b\<lparr>b_eofAckWait := x42\<rparr>) = I b" "I (b\<lparr>b_rxRetries := x43\<rparr>) = I b"
  "I (b\<lparr>b_rxSyncID := x44\<rparr>) = I b" "I (b\<lparr>b_rxLastSync := x45\<rparr>) = I b"
  "I (b\<lparr>b_rxTimer := x46\<rparr>) = I b" "I (b\<lparr>b_rxBlkLen := x47\<rparr>) = I b"
  "I (b\<lparr>b_devState := x48\<rparr>) = I b" "I (b\<lparr>b_devRetries := x49\<rparr>) = I b"
  "I (b\<lparr>b_devTxID := x50\<rparr>) = I b" "I (b\<lparr>b_devRxID := x51\<rparr>) = I b"
  "I (b\<lparr>b_devPending := x52\<rparr>) = I b" "I (b\<lparr>b_devQueue := x53\<rparr>) = I b"
  by (rule rx_view; simp add: rx_fields_def)+

lemma tx_write:
  "t \<in> {pktDEVDATA, pktDEVDACK, pktSTART, pktINIT, pktFINFO, pktDATA, pktEOF, pktEND, pktIDLE} \<Longrightarrow> I b \<Longrightarrow> post I I (batch_write E t p b)"
  by (simp add: batch_write_def post_writer_write rx_quiet split: option.split)

lemma tx_times: "t \<in> {pktEND} \<Longrightarrow> I b \<Longrightarrow> post I I (write_times n E t b)"
proof (induction n arbitrary: b)
  case (Suc n)
  have "post I I (batch_write E t [] b)" using Suc.prems by (intro tx_write) auto
  with Suc.IH [OF Suc.prems(1)] show ?case by (simp add: post_andThen)
qed simp

lemma tx_blocks:
  "I b \<Longrightarrow> I (closeTxOffer b)" "I b \<Longrightarrow> I (sendCompleted n e b)" "I b \<Longrightarrow> I (skipToEOF e b)"
  by (simp_all add: closeTxOffer_def closeOffer_def sendCompleted_def skipToEOF_def rx_quiet split: option.split)

lemma tx_finish: "I b \<Longrightarrow> I (finishTxFile b)"
  by (simp add: finishTxFile_def Let_def tx_blocks)

lemma tx_finfoAck: "I b \<Longrightarrow> post I I (txFinfoAck E pkt b)"
  by (auto simp: txFinfoAck_def Let_def rx_quiet tx_blocks tx_finish split: sum.split option.split)

lemma tx_dataAck: "I b \<Longrightarrow> I (txDataAck pkt b)"
  by (simp add: txDataAck_def Let_def split: sum.split)

lemma tx_rpos: "I b \<Longrightarrow> post I I (txRpos E pkt b)"
  by (simp add: txRpos_def Let_def rx_quiet tx_blocks split: sum.split option.split)

lemma tx_eofAck: "I b \<Longrightarrow> I (txEOFAck E b)"
  by (auto simp: txEOFAck_def Let_def tx_blocks tx_finish)

lemma tx_idle: "I b \<Longrightarrow> I (txIdle E b)"
  by (simp add: txIdle_def)

lemma tx_end: "I b \<Longrightarrow> post I I (txEnd E b)"
proof -
  assume b: "I b"
  then have "post I I (andThen (write_times endResponseCount E pktEND b) (\<lambda>b.
        fine (b\<lparr>b_txTimer := None, b_txState := htxDone\<rparr>)))"
    by (intro post_andThen [OF tx_times]) simp_all
  with b show ?thesis by (simp add: txEnd_def)
qed

lemma tx_timeout: "I b \<Longrightarrow> post I I (txTimeout E b)"
proof -
  assume b: "I b"
  then have "post I I (andThen (batch_write E pktIDLE [] b) (\<lambda>b. fine (set_txTimer E (batch_idle b) b)))"
    by (intro post_andThen [OF tx_write]) simp_all
  with b show ?thesis by (simp add: txTimeout_def Let_def)
qed

lemma tx_synced: "I b \<Longrightarrow> I (batch_sync E b)"
  by (simp add: batch_sync_def)

lemma tx_sendData: "I b \<Longrightarrow> post I I (sendData E b)"
proof -
  assume b: "I b"
  have "post I I (andThen (batch_write E pktDATA p b') (sendData_sent E n))" if "I b'" for b' p n
    by (rule post_andThen [OF tx_write [OF _ that]]) (simp_all add: sendData_sent_def Let_def rx_quiet)
  with b show ?thesis by (simp add: sendData_def Let_def rx_quiet tx_blocks split: option.split)
qed

lemma tx_pulls: "pullOffers E b = Some b' \<Longrightarrow> I b \<Longrightarrow> I b'"
  by (erule pullOffers_rule [where I = I]) (simp_all add: rejectOffer_def closeOffer_def rx_quiet)

lemma tx_prepare [simp]: "I (prepareFinfo b) = I b"
  by (simp add: prepareFinfo_def split: option.split)

lemma tx_act: "I b \<Longrightarrow> txAction E b = Some r \<Longrightarrow> post I I r"
proof -
  assume b: "I b" and r: "txAction E b = Some r"
  have sends: "post I I (andThen (batch_write E t p b') (\<lambda>b. fine (f b)))"
    if "t \<in> {pktSTART, pktINIT, pktFINFO, pktEOF}" "I b'" "\<And>b. I b \<Longrightarrow> I (f b)" for t p b' f
    by (rule post_andThen [OF tx_write [OF _ that(2)]]) (use that in auto)
  show ?thesis
  proof (cases "b_txState b")
    case htxStart
    have "post I I (writeRaw E autostart b)"
      using b by (simp add: post_writeRaw rx_quiet dev_event_side split: option.split)
    then have "post I I (andThen (writeRaw E autostart b) (\<lambda>b.
          andThen (batch_write E pktSTART [] b) (\<lambda>b.
          fine ((set_txTimer E startInterval b)\<lparr>b_txState := htxSwait\<rparr>))))"
      by (rule post_andThen) (rule sends; simp)
    with htxStart r show ?thesis by (simp add: txAction_def)
  next
    case htxInit
    have "post I I (andThen (sendInit E b) (\<lambda>b.
          fine ((set_txTimer E (cf_Timeout (s_config b) div 2) b)\<lparr>b_txState := htxInitAck\<rparr>)))"
      by (rule post_andThen [where J = I]) (use b in \<open>simp_all add: sendInit_def post_writer_write rx_quiet Let_def split: option.split\<close>)
    with htxInit r show ?thesis by (simp add: txAction_def)
  next
    case htxFinfo
    from htxFinfo r obtain r1 where r1: "sendFinfo E b = Some r1"
      "r = andThen r1 (\<lambda>b. fine ((armTx E (b\<lparr>b_finfoAckWait := True\<rparr>))\<lparr>b_txState := htxFinfoAck\<rparr>))"
      by (auto simp: txAction_def)
    from r1(1) obtain b1 where b1: "(if b_lastFinfo b = None then map_option prepareFinfo (pullOffers E b) else Some b) = Some b1"
      "r1 = batch_write E pktFINFO (case b_lastFinfo b1 of Some p \<Rightarrow> p | None \<Rightarrow> []) b1"
      by (auto simp: sendFinfo_def split: option.splits)
    have "I b1" using b1(1) b tx_pulls by (auto split: if_splits)
    then show ?thesis unfolding r1(2) b1(2) by (intro sends) simp_all
  next
    case htxXdata
    with b r show ?thesis by (auto simp: txAction_def tx_sendData)
  next
    case htxEOF
    with b have "post I I (andThen (batch_write E pktEOF p b) (\<lambda>b.
          fine ((armTx E (b\<lparr>b_eofAckWait := True\<rparr>))\<lparr>b_txState := htxEOFAck\<rparr>)))" for p
      by (intro sends) simp_all
    with htxEOF r show ?thesis by (auto simp: txAction_def)
  next
    case htxEnd
    have "post I I (andThen (write_times endInitialCount E pktEND b) (\<lambda>b.
          fine ((set_txTimer E (cf_Timeout (s_config b) div 2) b)\<lparr>b_txState := htxEndAck\<rparr>)))"
      by (rule post_andThen [OF tx_times [OF _ b]]) simp_all
    with htxEnd r show ?thesis by (auto simp: txAction_def)
  qed (use b r in \<open>auto simp: txAction_def\<close>)
qed

end

end
