(* ===== verification/Hydra_Flow.thy ===== *)
theory Hydra_Flow
  imports Hydra_TxContract Hydra_Sides Hydra_Negotiation
begin

section \<open>The sender of files as its peer sees it\<close>

text \<open>
  A second automaton over the event log of a batch, beside the one of the theory
  \<open>Hydra_TxContract\<close>: which of the packets that concern files the transmit machine sends
  when, and what its reports to the application follow from. The invariant says that a batch
  keeps to it, for a data source that yields the content of the file from its position on.
\<close>

subsection \<open>The automaton\<close>

text \<open>
  \<open>Gap\<close>: between files; \<open>Asking\<close>: a file is announced; \<open>AskingEnd\<close>: the end of the batch is
  announced; \<open>Sending\<close>: a file is accepted; \<open>Over\<close>: the end is acknowledged. \<open>fw_up\<close>: an
  INITACK came; \<open>fw_skip\<close>: the file's EOF was sent as a skip; \<open>fw_last\<close>: the last packet
  received; \<open>fw_offers\<close>: the files announced; \<open>fw_done\<close>: what was reported of them.
\<close>

datatype flow_phase = Gap | Asking | AskingEnd | Sending | Over

record flow =
  fw_ph :: flow_phase
  fw_up :: bool
  fw_skip :: bool
  fw_last :: "packet option"
  fw_offers :: "FileOffer list"
  fw_done :: "err option list"

definition flow_start :: flow where
  "flow_start = \<lparr>fw_ph = Gap, fw_up = False, fw_skip = False, fw_last = None, fw_offers = [], fw_done = []\<rparr>"

definition offer_meta :: "FileOffer \<Rightarrow> fileMeta" where
  "offer_meta ofr = \<lparr>fm_mtime = (case fo_ModTime ofr of None \<Rightarrow> 0 | Some t \<Rightarrow> t), fm_size = fo_Size ofr,
     fm_txid = 0, fm_count = 0, fm_name = txWireName (fo_Name ofr), fm_path = fo_Path ofr\<rparr>"

definition announces :: "FileOffer \<Rightarrow> byte list \<Rightarrow> bool" where
  "announces ofr p \<longleftrightarrow> p = marshalFinfo (offer_meta ofr) True \<or> p = marshalFinfo (offer_meta ofr) False"

definition reads_from :: "byte list \<Rightarrow> int \<Rightarrow> byte list \<Rightarrow> err option \<Rightarrow> bool" where
  \<comment> \<open>a read at \<open>p\<close> of a file with this content\<close>
  "reads_from content p buf e \<longleftrightarrow> buf = take (length buf) (drop (nat p) content)
     \<and> (read_ok e \<and> buf = [] \<longrightarrow> drop (nat p) content = [])"

definition at_end :: "send_phase \<Rightarrow> int \<Rightarrow> bool" where
  \<comment> \<open>the last read was at \<open>v\<close> and found nothing\<close>
  "at_end sp v \<longleftrightarrow> (case sp of SFile ofr h pos blk \<Rightarrow> pos = Some v \<and> blk = Some (v, []) | SIdle \<Rightarrow> False)"

definition flow_recv :: "packet \<Rightarrow> flow \<Rightarrow> flow" where
  "flow_recv p fw = fw\<lparr>fw_last := Some p, fw_up := (fw_up fw \<or> pkt_typ p = pktINITACK),
     fw_ph := (if pkt_typ p \<noteq> pktFINFOACK then fw_ph fw
       else (case fw_ph fw of
           AskingEnd \<Rightarrow> Over
         | Asking \<Rightarrow> (case parseOffset (pkt_payload p) of Inr v \<Rightarrow> if 0 \<le> v then Sending else Asking | Inl _ \<Rightarrow> Asking)
         | ph \<Rightarrow> ph))\<rparr>"

definition flow_send :: "send_phase \<Rightarrow> flow \<Rightarrow> byte \<Rightarrow> byte list \<Rightarrow> flow option" where
  "flow_send sp fw t p =
     (if t = pktINIT then (if ok (parseInit p) then Some fw else None)
      else if t = pktFINFO then
        (if (fw_ph fw = Asking \<and> fw_offers fw \<noteq> [] \<and> announces (last (fw_offers fw)) p) \<or> (fw_ph fw = AskingEnd \<and> p = finfoEOB)
         then Some fw else None)
      else if t = pktDATA then (if fw_ph fw = Sending then Some fw else None)
      else if t = pktEOF then
        (if fw_ph fw \<noteq> Sending then None
         else if p = marshalOffset offsetSkip then Some (fw\<lparr>fw_skip := True\<rparr>)
         else (case parseOffset p of
             Inr v \<Rightarrow> if 0 \<le> v \<and> p = marshalOffset v \<and> at_end sp v then Some fw else None
           | Inl _ \<Rightarrow> None))
      else Some fw)"

definition flow_step :: "(nat \<Rightarrow> byte list) \<Rightarrow> send_phase \<Rightarrow> flow \<Rightarrow> event \<Rightarrow> flow option" where
  \<comment> \<open>\<open>c k\<close>: the content of the file number \<open>k\<close>, counted from 0\<close>
  "flow_step c sp fw e =
     (case e of
        EvRecv p \<Rightarrow> Some (flow_recv p fw)
      | EvNextFile None \<Rightarrow> if fw_ph fw = Gap \<and> fw_up fw then Some (fw\<lparr>fw_ph := AskingEnd\<rparr>) else None
      | EvNextFile (Some ofr) \<Rightarrow>
          if fw_ph fw \<noteq> Gap \<or> \<not> fw_up fw then None
          else if \<not> usable ofr then Some fw
          else if 0 \<in> set (fo_Path ofr) then None
          else Some (fw\<lparr>fw_ph := Asking, fw_skip := False, fw_offers := fw_offers fw @ [ofr]\<rparr>)
      | EvRead h buf r \<Rightarrow>
          (case sp of
             SFile ofr hk (Some p) blk \<Rightarrow>
               if fw_ph fw = Sending \<and> fw_offers fw \<noteq> [] \<and> reads_from (c (length (fw_offers fw) - 1)) p buf r
               then Some fw else None
           | _ \<Rightarrow> None)
      | EvSend f r \<Rightarrow> flow_send sp fw (pkt_typ (sn_packet f)) (pkt_payload (sn_packet f))
      | EvSendCompleted info n r \<Rightarrow>
          (case fw_ph fw of
             Gap \<Rightarrow> Some fw
           | Asking \<Rightarrow>
               (case fw_last fw of
                  Some p \<Rightarrow>
                    (case parseOffset (pkt_payload p) of
                       Inr v \<Rightarrow> if pkt_typ p = pktFINFOACK \<and> v < 0 \<and> r \<noteq> None
                         then Some (fw\<lparr>fw_ph := Gap, fw_done := fw_done fw @ [r]\<rparr>) else None
                     | Inl _ \<Rightarrow> None)
                | None \<Rightarrow> None)
           | Sending \<Rightarrow>
               if map_option pkt_typ (fw_last fw) = Some pktEOFACK \<and> (r = None \<longrightarrow> \<not> fw_skip fw)
               then Some (fw\<lparr>fw_ph := Gap, fw_done := fw_done fw @ [r]\<rparr>) else None
           | _ \<Rightarrow> None)
      | _ \<Rightarrow> Some fw)"

text \<open>Both automata run over the log side by side.\<close>

definition flow_both :: "(nat \<Rightarrow> byte list) \<Rightarrow> send_phase option \<times> flow option \<Rightarrow> event \<Rightarrow> send_phase option \<times> flow option" where
  "flow_both c = (\<lambda>(spo, fwo) e. (Option.bind spo (\<lambda>sp. send_step sp e),
     Option.bind spo (\<lambda>sp. Option.bind fwo (\<lambda>fw. flow_step c sp fw e))))"

definition flow_trace :: "(nat \<Rightarrow> byte list) \<Rightarrow> event list \<Rightarrow> flow option" where
  "flow_trace c es = snd (foldl (flow_both c) (Some SIdle, Some flow_start) es)"

lemma flow_both_fst: "fst (foldl (flow_both c) (Some SIdle, Some flow_start) es) = send_trace es"
proof (induction es rule: rev_induct)
  case (snoc e es)
  then show ?case by (simp add: flow_both_def send_trace_snoc split_beta)
qed (simp add: send_trace_def)

lemma flow_trace_snoc:
  "flow_trace c (es @ [e]) = Option.bind (send_trace es) (\<lambda>sp. Option.bind (flow_trace c es) (\<lambda>fw. flow_step c sp fw e))"
  using flow_both_fst [of c es] by (simp add: flow_trace_def flow_both_def split_beta)

lemma flow_trace_Nil [simp]: "flow_trace c [] = Some flow_start"
  by (simp add: flow_trace_def)

definition flows :: "(nat \<Rightarrow> byte list) \<Rightarrow> batch \<Rightarrow> flow option" where
  "flows c b = flow_trace c (s_log b)"

lemma flows_emit [simp]:
  "flows c (emit e b) = Option.bind (sends b) (\<lambda>sp. Option.bind (flows c b) (\<lambda>fw. flow_step c sp fw e))"
  by (simp add: flows_def sends_def emit_def flow_trace_snoc)

subsection \<open>The invariant\<close>

definition flow_match :: "batch \<Rightarrow> flow \<Rightarrow> bool" where
  "flow_match b fw \<longleftrightarrow> 0 \<notin> set (cf_AppID (s_config b)) \<and> (htxRinit \<le> b_txState b \<longrightarrow> fw_up fw)
     \<and> (fw_ph fw = AskingEnd \<or> fw_ph fw = Over \<or> \<not> b_batchEnded b)
     \<and> (if in_transfer (b_txState b) then
          fw_ph fw = Sending \<and> fw_offers fw \<noteq> [] \<and> (fw_skip fw \<longrightarrow> b_txSkip b)
          \<and> ((b_txState b = htxEOF \<or> b_txState b = htxEOFAck) \<and> \<not> b_txSkip b \<longrightarrow>
               (\<exists>sp. sends b = Some sp \<and> at_end sp (b_txPos b)))
        else if b_txState b = htxFinfo \<or> b_txState b = htxFinfoAck then
          (case b_lastFinfo b of
             None \<Rightarrow> fw_ph fw = Gap
           | Some p \<Rightarrow> b_finfoAckWait b \<and>
               (if b_txEOB b then fw_ph fw = AskingEnd \<and> p = finfoEOB
                else fw_ph fw = Asking \<and> fw_offers fw \<noteq> [] \<and> announces (last (fw_offers fw)) p \<and> \<not> fw_skip fw))
        else fw_ph fw = (if b_txState b < htxFinfo then Gap else Over))"

definition flow_at :: "(nat \<Rightarrow> byte list) \<Rightarrow> (flow \<Rightarrow> bool) \<Rightarrow> batch \<Rightarrow> bool" where
  "flow_at c Q b \<longleftrightarrow> (\<exists>fw. flows c b = Some fw \<and> flow_match b fw \<and> Q fw) \<and> sends b \<noteq> None"

abbreviation flow_ok :: "(nat \<Rightarrow> byte list) \<Rightarrow> batch \<Rightarrow> bool" where
  "flow_ok c \<equiv> flow_at c (\<lambda>_. True)"

lemma flow_weaken: "flow_at c Q b \<Longrightarrow> flow_ok c b"
  by (auto simp: flow_at_def)

lemma flow_match_view:
  "tx_fields b = tx_fields b' \<Longrightarrow> flow_match b fw = flow_match b' fw"
  by (simp only: tx_fields_def prod.inject flow_match_def sends_def cong: option.case_cong)

lemma flow_match_emit: "sends (emit e b) = sends b \<Longrightarrow> flow_match (emit e b) fw = flow_match b fw"
  by (simp add: flow_match_def emit_def sends_def cong: option.case_cong)

lemma flow_neutral:
  assumes "rx_event e"
  shows "tx_neutral e" and "flow_step c sp fw e = Some fw"
proof -
  have "tx_neutral e \<and> flow_step c sp fw e = Some fw"
  proof (cases e)
    case (EvSend s r)
    with assms have "pkt_typ (sn_packet s) \<in> {pktDEVDATA, pktDEVDACK, pktINITACK, pktFINFOACK, pktDATAACK, pktRPOS, pktEOFACK}"
      by simp
    then show ?thesis unfolding EvSend by (elim insertE emptyE) (simp_all add: flow_step_def flow_send_def)
  qed (use assms in \<open>simp_all add: rx_event_def dev_event_def tx_neutral_def flow_step_def\<close>)
  then show "tx_neutral e" and "flow_step c sp fw e = Some fw" by simp_all
qed

interpretation flow: tx_side "flow_at c Q" for c Q
proof unfold_locales
  fix b b' :: batch
  assume v: "tx_fields b = tx_fields b'"
  then have "flows c b = flows c b'" "sends b = sends b'" by (simp_all add: tx_fields_def flows_def sends_def)
  then show "flow_at c Q b = flow_at c Q b'" by (simp add: flow_at_def flow_match_view [OF v])
next
  fix e b
  assume e: "rx_event e" and b: "flow_at c Q b"
  from b e show "flow_at c Q (emit e b)"
    by (auto simp: flow_at_def flow_neutral send_step_neutral flow_match_emit)
qed

lemma flow_atI: "flows c b = Some fw \<Longrightarrow> flow_match b fw \<Longrightarrow> Q fw \<Longrightarrow> sends b \<noteq> None \<Longrightarrow> flow_at c Q b"
  by (auto simp: flow_at_def)

lemma flow_atE:
  assumes "flow_at c Q b"
  obtains fw sp where "flows c b = Some fw" "flow_match b fw" "Q fw" "sends b = Some sp"
  using assms by (auto simp: flow_at_def)

text \<open>What an offer event adds to the list of files, whatever the automaton is for.\<close>

definition offered :: "event list \<Rightarrow> FileOffer list" where
  "offered es = concat (map (\<lambda>e. case e of EvNextFile (Some ofr) \<Rightarrow> if usable ofr then [ofr] else [] | _ \<Rightarrow> []) es)"

lemma offered_simps [simp]:
  "offered [] = []" "offered (es @ fs) = offered es @ offered fs"
  by (simp_all add: offered_def)

lemma flow_offers: "flow_trace c es = Some fw \<Longrightarrow> fw_offers fw = offered es"
proof (induction es arbitrary: fw rule: rev_induct)
  case Nil
  then show ?case by (auto simp: flow_start_def)
next
  case (snoc e es)
  then obtain sp fw0 where o: "flow_trace c es = Some fw0" "flow_step c sp fw0 e = Some fw"
    by (auto simp: flow_trace_snoc bind_eq_Some_conv)
  from o(2) have "fw_offers fw = fw_offers fw0 @ offered [e]"
    by (cases e) (auto simp: flow_step_def flow_recv_def flow_send_def offered_def
        split: if_splits option.splits flow_phase.splits sum.splits send_phase.splits)
  with snoc.IH [OF o(1)] show ?case by simp
qed

definition good_sender :: "env \<Rightarrow> (nat \<Rightarrow> byte list) \<Rightarrow> bool" where
  \<comment> \<open>paths are C strings; the source of the open file yields its content from its position on\<close>
  "good_sender E c \<longleftrightarrow>
     (\<forall>es ofr. en_nextFile E es = Some ofr \<longrightarrow> 0 \<notin> set (fo_Path ofr))
     \<and> (\<forall>es ofr hk p blk h n. send_trace es = Some (SFile ofr hk (Some p) blk) \<and> fo_Reader ofr = Some h \<longrightarrow>
          en_source E es h n = (drop (nat p) (c (length (offered es) - 1)), IoEOF))"

lemma read_full_from:
  assumes "0 < n"
  shows "reads_from content p (fst (read_full (drop (nat p) content) IoEOF n)) (snd (read_full (drop (nat p) content) IoEOF n))"
  using assms by (auto simp: reads_from_def read_full_def read_ok_def min_def)

subsection \<open>Packets of no concern and changes of state\<close>

lemma flow_send_other:
  assumes b: "flow_at c Q b" and t: "pkt_typ (sn_packet f) \<notin> {pktINIT, pktFINFO, pktDATA, pktEOF}"
  shows "flow_at c Q (emit (EvSend f r) b)"
proof -
  obtain fw sp where f: "flows c b = Some fw" "flow_match b fw" "Q fw" "sends b = Some sp" using b by (rule flow_atE)
  have s: "sends (emit (EvSend f r) b) = sends b" using t by (intro sends_neutral) simp
  have "flow_match (emit (EvSend f r) b) fw"
    using f(2) flow_match_emit [OF s] by simp
  moreover have "flows c (emit (EvSend f r) b) = Some fw" using f t by (simp add: flow_step_def flow_send_def)
  ultimately show ?thesis using s f by (intro flow_atI) simp_all
qed

lemma flow_write_other:
  assumes "flow_at c Q b" and "t \<notin> {pktINIT, pktFINFO, pktDATA, pktEOF}"
  shows "post (\<lambda>b'. flow_at c Q b' \<and> b_txState b' = b_txState b) (\<lambda>_. True) (batch_write E t p b)"
  using flow_send_other [OF assms(1)] assms(2)
  by (simp add: batch_write_def post_writer_write split: option.split) (simp add: emit_def)

lemma flow_times:
  assumes "t \<notin> {pktINIT, pktFINFO, pktDATA, pktEOF}"
  shows "flow_at c Q b \<Longrightarrow> post (\<lambda>b'. flow_at c Q b' \<and> b_txState b' = b_txState b) (\<lambda>_. True) (write_times n E t b)"
proof (induction n arbitrary: b)
  case (Suc n)
  show ?case unfolding write_times.simps
  proof (rule post_andThen [OF flow_write_other [OF Suc.prems assms]])
    fix b' assume b': "flow_at c Q b' \<and> b_txState b' = b_txState b"
    show "post (\<lambda>b'. flow_at c Q b' \<and> b_txState b' = b_txState b) (\<lambda>_. True) (write_times n E t b')"
      using Suc.IH [of b'] b' by simp
  qed
qed simp

lemmas flow_unfold = flow_at_def flow_match_def flows_def sends_def

text \<open>The invariant while a file is in transfer.\<close>

lemma flow_match_transfer:
  "in_transfer (b_txState b) \<Longrightarrow> flow_match b fw \<longleftrightarrow>
     0 \<notin> set (cf_AppID (s_config b)) \<and> fw_up fw \<and> \<not> b_batchEnded b \<and> fw_ph fw = Sending \<and> fw_offers fw \<noteq> []
     \<and> (fw_skip fw \<longrightarrow> b_txSkip b)
     \<and> ((b_txState b = htxEOF \<or> b_txState b = htxEOFAck) \<longrightarrow> b_txSkip b \<or> (\<exists>sp. send_trace (s_log b) = Some sp \<and> at_end sp (b_txPos b)))"
  by (auto simp: flow_match_def in_transfer_def tx_order sends_def)

lemma flow_transferE:
  assumes "flow_at c Q b" and "in_transfer (b_txState b)"
  obtains fw sp where "flow_trace c (s_log b) = Some fw" "Q fw" "send_trace (s_log b) = Some sp"
    "0 \<notin> set (cf_AppID (s_config b))" "fw_up fw" "\<not> b_batchEnded b" "fw_ph fw = Sending" "fw_offers fw \<noteq> []"
    "fw_skip fw \<longrightarrow> b_txSkip b" "b_txState b = htxEOF \<or> b_txState b = htxEOFAck \<Longrightarrow> b_txSkip b \<or> at_end sp (b_txPos b)"
  using assms by (elim flow_atE) (auto simp: flow_match_transfer flows_def sends_def)

lemma flow_transferI:
  assumes "in_transfer (b_txState b)" and "flow_trace c (s_log b) = Some fw" and "send_trace (s_log b) = Some sp"
    and "0 \<notin> set (cf_AppID (s_config b))" "fw_up fw" "\<not> b_batchEnded b" "fw_ph fw = Sending" "fw_offers fw \<noteq> []"
    and "fw_skip fw \<longrightarrow> b_txSkip b" "b_txState b = htxEOF \<or> b_txState b = htxEOFAck \<Longrightarrow> b_txSkip b \<or> at_end sp (b_txPos b)"
  shows "flow_ok c b"
  using assms by (intro flow_atI [of c b fw]) (auto simp: flow_match_transfer flows_def sends_def)

lemma flow_transfer:
  "flow_ok c b \<Longrightarrow> in_transfer (b_txState b) \<Longrightarrow> st \<in> {htxXdata, htxDataAck, htxXwait} \<Longrightarrow> flow_ok c (b\<lparr>b_txState := st\<rparr>)"
  by (elim flow_transferE, assumption, rule flow_transferI) auto

lemma flow_eof_again:
  "flow_ok c b \<Longrightarrow> b_txState b \<in> {htxEOF, htxEOFAck} \<Longrightarrow> st \<in> {htxEOF, htxEOFAck} \<Longrightarrow> flow_ok c (b\<lparr>b_txState := st\<rparr>)"
  by (erule flow_transferE, fastforce, rule flow_transferI) auto

lemma flow_before:
  "flow_ok c b \<Longrightarrow> b_txState b \<in> {htxStart, htxSwait, htxInit, htxInitAck} \<Longrightarrow> st \<in> {htxStart, htxSwait, htxInit, htxInitAck}
    \<Longrightarrow> flow_ok c (b\<lparr>b_txState := st\<rparr>)"
  by (elim insertE emptyE) (simp_all add: flow_unfold in_transfer_def tx_order)

lemma flow_after:
  "flow_ok c b \<Longrightarrow> b_txState b \<in> {htxRend, htxEnd, htxEndAck} \<Longrightarrow> st \<in> {htxRend, htxEnd, htxEndAck, htxDone}
    \<Longrightarrow> flow_ok c (b\<lparr>b_txState := st\<rparr>)"
  by (elim insertE emptyE) (simp_all add: flow_unfold in_transfer_def tx_order)

lemma flow_refinfo:
  "flow_ok c b \<Longrightarrow> b_txState b = htxFinfoAck \<Longrightarrow> flow_ok c (b\<lparr>b_txState := htxFinfo\<rparr>)"
  by (auto simp: flow_unfold in_transfer_def tx_order cong: option.case_cong)

lemma flow_gate:
  "flow_ok c b \<Longrightarrow> b_txState b = htxRinit \<Longrightarrow> b_lastFinfo b = None \<Longrightarrow> flow_ok c (b\<lparr>b_txState := htxFinfo\<rparr>)"
  by (auto simp: flow_unfold in_transfer_def tx_order)

lemma flow_stays: "flow_ok c (b\<lparr>b_txState := st\<rparr>) \<Longrightarrow> b_txState b = st \<Longrightarrow> flow_ok c b"
  by (drule sym) simp

lemma flow_same: "flow_ok c b \<Longrightarrow> b_txState b = st \<Longrightarrow> flow_ok c (b\<lparr>b_txState := st\<rparr>)"
  by (drule sym) simp

subsection \<open>Timers, synchronisation and the small handlers\<close>

lemma flow_sync: "flow_ok c b \<Longrightarrow> tx_ok b \<Longrightarrow> flow_ok c (batch_sync E b)"
proof -
  assume b: "flow_ok c b" "tx_ok b"
  then have "b_txState b = htxRinit \<Longrightarrow> b_lastFinfo b = None"
    by (simp add: tx_ok_def tx_phase_def in_transfer_def)
  with b show ?thesis
    by (simp add: batch_sync_def flow_before flow_gate flow_transfer flow_after)
qed

lemma flow_txTimeout: "flow_ok c b \<Longrightarrow> post (flow_ok c) (\<lambda>_. True) (txTimeout E b)"
proof -
  assume b: "flow_ok c b"
  have "post (flow_ok c) (\<lambda>_. True) (andThen (batch_write E pktIDLE [] b) (\<lambda>b. fine (set_txTimer E (batch_idle b) b)))"
    by (rule post_andThen [OF flow_write_other [OF b]]) simp_all
  moreover have "flow_ok c (b\<lparr>b_txRetries := n, b_txState := retry_state (b_txState b)\<rparr>)" for n
    using b by (cases "b_txState b")
      (simp_all add: retry_state_def flow_before flow_after flow_transfer flow_refinfo flow_eof_again flow_same)
  ultimately show ?thesis
    using b by (simp add: txTimeout_def Let_def flow_transfer flow_after)
qed

lemma flow_txDataAck: "flow_ok c b \<Longrightarrow> flow_ok c (txDataAck pkt b)"
  by (simp add: txDataAck_def Let_def flow_transfer split: sum.split)

lemma flow_txIdle: "flow_ok c b \<Longrightarrow> flow_ok c (txIdle E b)"
  by (simp add: txIdle_def flow_transfer)

lemma flow_txEnd: "flow_ok c b \<Longrightarrow> post (flow_ok c) (\<lambda>_. True) (txEnd E b)"
proof -
  assume b: "flow_ok c b"
  show ?thesis
  proof (cases "b_txState b = htxEnd \<or> b_txState b = htxEndAck")
    case True
    have "post (flow_ok c) (\<lambda>_. True) (andThen (write_times endResponseCount E pktEND b) (\<lambda>b.
        fine (b\<lparr>b_txTimer := None, b_txState := htxDone\<rparr>)))"
      by (rule post_andThen [OF flow_times [OF _ b]]) (use True in \<open>auto intro!: flow_after\<close>)
    with True show ?thesis by (auto simp: txEnd_def)
  next
    case False
    with b show ?thesis by (simp add: txEnd_def)
  qed
qed

subsection \<open>Skips and repositioning\<close>

lemma flow_skip: "flow_ok c b \<Longrightarrow> in_transfer (b_txState b) \<Longrightarrow> flow_ok c (skipToEOF e b)"
  by (auto simp: skipToEOF_def flow_unfold in_transfer_def tx_order)

lemma flow_blk [simp]: "flow_at c Q (b\<lparr>b_blk := k\<rparr>) = flow_at c Q b"
  by (simp add: flow_unfold cong: option.case_cong)

lemma flow_seek:
  assumes b: "flow_ok c b" and s: "sends (emit (EvSeek h off serr) b) \<noteq> None" and tr: "in_transfer (b_txState b)"
  shows "flow_ok c (skipToEOF e (emit (EvSeek h off serr) b))"
    and "st \<in> {htxXdata, htxXwait} \<Longrightarrow> flow_ok c ((emit (EvSeek h off serr) b)\<lparr>b_txPos := off, b_txState := st\<rparr>)"
proof -
  obtain fw sp where f: "flow_trace c (s_log b) = Some fw" "send_trace (s_log b) = Some sp"
    "0 \<notin> set (cf_AppID (s_config b))" "fw_up fw" "\<not> b_batchEnded b" "fw_ph fw = Sending" "fw_offers fw \<noteq> []" "fw_skip fw \<longrightarrow> b_txSkip b"
    using flow_transferE [OF b tr] by metis
  obtain sp' where l: "flow_trace c (s_log b @ [EvSeek h off serr]) = Some fw" "send_trace (s_log b @ [EvSeek h off serr]) = Some sp'"
    using f s by (auto simp: flow_trace_snoc sends_def flow_step_def emit_def send_trace_snoc)
  show "flow_ok c (skipToEOF e (emit (EvSeek h off serr) b))"
    by (rule flow_transferI [of _ c fw sp']) (use f l in \<open>simp_all add: skipToEOF_def emit_def\<close>)
  show "flow_ok c ((emit (EvSeek h off serr) b)\<lparr>b_txPos := off, b_txState := st\<rparr>)" if "st \<in> {htxXdata, htxXwait}"
    by (rule flow_transferI [of _ c fw sp']) (use f l that in \<open>auto simp: emit_def\<close>)
qed

lemma seek_accepted:
  assumes "tx_ok b" and "in_transfer (b_txState b)" and "b_txSeeker b = Some h" and "0 \<le> off" "off \<le> fi_Size (b_txInfo b)"
  shows "sends (emit (EvSeek h off serr) b) \<noteq> None"
  using assms by (elim tx_ok_fileE) (auto simp: offerInfo_def unhooked_def split: if_splits)

lemma flow_txRpos: "flow_ok c b \<Longrightarrow> tx_ok b \<Longrightarrow> post (flow_ok c) (\<lambda>_. True) (txRpos E pkt b)"
proof -
  assume b: "flow_ok c b" "tx_ok b"
  show ?thesis
  proof (cases "in_transfer (b_txState b)")
    case False
    with b show ?thesis by (simp add: txRpos_def)
  next
    case tr: True
    show ?thesis
    proof (cases "parseRpos (pkt_payload pkt)")
      case (Inl e)
      with b tr show ?thesis by (simp add: txRpos_def)
    next
      case (Inr rp)
      define b1 where "b1 = b\<lparr>b_txSyncID := rp_id rp, b_txRetries := 1, b_txTimer := None,
        b_blk := bs_rpos (rp_blocksize rp) (b_blk b)\<rparr>"
      have b1: "flow_ok c b1" "in_transfer (b_txState b1)" "b_txState b1 = b_txState b" "b_txSeeker b1 = b_txSeeker b"
        using b tr by (simp_all add: b1_def)
      have acc: "sends (emit (EvSeek h (rp_offset rp) serr) b1) \<noteq> None"
        if "b_txSeeker b1 = Some h" "0 \<le> rp_offset rp" "rp_offset rp \<le> fi_Size (b_txInfo b1)" for h serr
        using seek_accepted [OF b(2) tr, of h "rp_offset rp" serr] that by (simp add: b1_def sends_def emit_def)
      note moved = flow_seek [OF b1(1) acc b1(2)]
      have skip: "flow_ok c (skipToEOF e (b\<lparr>b_txSyncID := i, b_txRetries := n, b_txTimer := t\<rparr>))" for e i n t
        using b tr by (intro flow_skip) simp_all
      have nosrc: "flow_ok c (skipToEOF e b1)" for e using b1 by (intro flow_skip)
      have dup: "flow_ok c (b\<lparr>b_txRetries := n\<rparr>)" for n using b by simp
      define serr where "serr h = en_seek E (s_log b) h (rp_offset rp)" for h
      have seeks: "en_seek E (s_log b1) h (rp_offset rp) = serr h" for h by (simp add: serr_def b1_def)
      have st: "b_txState ((emit (EvSeek h off r) b1)\<lparr>b_txPos := off\<rparr>) = b_txState b" for h off r
        using b1 by (simp add: emit_def)
      have "post (flow_ok c) (\<lambda>_. True) (case b_txSeeker b1 of
          None \<Rightarrow> fine (skipToEOF (Some ErrResumeOutOfRange) b1)
        | Some h \<Rightarrow> (let serr = en_seek E (s_log b1) h (rp_offset rp); b = emit (EvSeek h (rp_offset rp) serr) b1
            in if serr \<noteq> None then fine (skipToEOF serr b)
               else (let b = b\<lparr>b_txPos := rp_offset rp\<rparr> in
                     if b_txState b \<noteq> htxXwait then fine (b\<lparr>b_txState := htxXdata\<rparr>) else fine b)))"
        if "0 \<le> rp_offset rp" "rp_offset rp \<le> fi_Size (b_txInfo b1)"
      proof (cases "b_txSeeker b1")
        case None
        with nosrc show ?thesis by simp
      next
        case (Some h)
        let ?b2 = "(emit (EvSeek h (rp_offset rp) (serr h)) b1)\<lparr>b_txPos := rp_offset rp\<rparr>"
        have "b_txState ?b2 = htxXwait \<Longrightarrow> flow_ok c ?b2"
          using moved(2) [OF Some that, of htxXwait "serr h"] by (rule flow_stays) simp_all
        with moved [OF Some that] Some seeks show ?thesis by (cases "serr h") (simp_all add: Let_def)
      qed
      moreover have "skipToEOF e (b\<lparr>b_txSyncID := rp_id rp, b_txRetries := 1, b_txTimer := None,
        b_blk := bs_rpos (rp_blocksize rp) (b_blk b)\<rparr>) = skipToEOF e b1" for e by (simp add: b1_def)
      ultimately show ?thesis
        unfolding txRpos_def using tr Inr skip dup nosrc
        by (simp add: b1_def [symmetric] Let_def split del: option.split)
    qed
  qed
qed

subsection \<open>Completion\<close>

text \<open>The report of a file closes it, whichever of the two it is.\<close>

lemma flow_trace_snocI:
  "flow_trace c es = Some fw \<Longrightarrow> send_trace es = Some sp \<Longrightarrow> flow_step c sp fw e = Some fw' \<Longrightarrow> flow_trace c (es @ [e]) = Some fw'"
  by (simp add: flow_trace_snoc)

lemma flow_finished:
  assumes f: "flow_trace c (s_log b) = Some fw" and up: "fw_up fw" and ended: "\<not> b_batchEnded b" and app: "0 \<notin> set (cf_AppID (s_config b))"
    and close: "\<And>sp. flow_step c sp fw (EvSendCompleted (b_txInfo b) n e) = Some (fw\<lparr>fw_ph := Gap, fw_done := d\<rparr>)"
    and ok: "tx_ok (finishTxFile (sendCompleted n e (closeTxOffer b)))"
  shows "flow_ok c (finishTxFile (sendCompleted n e (closeTxOffer b)))"
proof -
  let ?b = "finishTxFile (sendCompleted n e (closeTxOffer b))" and ?e = "EvSendCompleted (b_txInfo b) n e"
  have "\<exists>es. s_log ?b = (s_log b @ es) @ [?e] \<and> (es = [] \<or> (\<exists>ofr. es = [EvOfferClose ofr]))"
    by (auto simp: finishTxFile_def closeTxOffer_def closeOffer_def sendCompleted_def emit_def Let_def split: option.split)
  then obtain es where l: "s_log ?b = (s_log b @ es) @ [?e]" "es = [] \<or> (\<exists>ofr. es = [EvOfferClose ofr])" by blast
  have s: "send_trace (s_log ?b) \<noteq> None"
    using tx_ok_weak [OF ok] by (auto simp: tx_weak_def sends_def split: option.splits)
  then obtain sp where sp: "send_trace (s_log b @ es) = Some sp" unfolding l(1) send_trace_snoc by (auto split: bind_splits)
  have "flow_trace c (s_log b @ es) = Some fw"
    using l(2)
  proof
    assume "\<exists>ofr. es = [EvOfferClose ofr]"
    then obtain ofr where es: "es = [EvOfferClose ofr]" by blast
    with sp obtain sp0 where "send_trace (s_log b) = Some sp0" by (auto simp: send_trace_snoc split: bind_splits)
    with f show ?thesis unfolding es by (rule flow_trace_snocI) (simp add: flow_step_def)
  qed (use f in simp)
  then have "flow_trace c (s_log ?b) = Some (fw\<lparr>fw_ph := Gap, fw_done := d\<rparr>)"
    unfolding l(1) using sp close by (rule flow_trace_snocI)
  moreover have "flow_match ?b (fw\<lparr>fw_ph := Gap, fw_done := d\<rparr>)"
    using up ended app
    by (simp add: flow_match_def finishTxFile_def closeTxOffer_def closeOffer_def sendCompleted_def emit_def Let_def
        in_transfer_def split: option.split)
  ultimately show ?thesis using s by (intro flow_atI) (simp_all add: flows_def sends_def)
qed

lemma flow_step_recv [simp]: "flow_step c sp fw (EvRecv p) = Some (flow_recv p fw)"
  by (simp add: flow_step_def)

lemma flow_step_done:
  "fw_ph fw = Asking \<Longrightarrow> fw_last fw = Some p \<Longrightarrow> pkt_typ p = pktFINFOACK \<Longrightarrow> parseOffset (pkt_payload p) = Inr v \<Longrightarrow> v < 0 \<Longrightarrow>
    flow_step c sp fw (EvSendCompleted i n (Some e)) = Some (fw\<lparr>fw_ph := Gap, fw_done := fw_done fw @ [Some e]\<rparr>)"
  "fw_ph fw = Sending \<Longrightarrow> map_option pkt_typ (fw_last fw) = Some pktEOFACK \<Longrightarrow> (r = None \<longrightarrow> \<not> fw_skip fw) \<Longrightarrow>
    flow_step c sp fw (EvSendCompleted i n r) = Some (fw\<lparr>fw_ph := Gap, fw_done := fw_done fw @ [r]\<rparr>)"
  by (simp_all add: flow_step_def)

text \<open>Receiving a packet that is no FINFOACK changes nothing but the last packet.\<close>

lemma flow_match_last:
  "flow_match b fw \<Longrightarrow> fw_up fw \<longrightarrow> u \<Longrightarrow> flow_match b (fw\<lparr>fw_last := x, fw_up := u\<rparr>)"
  by (cases "b_lastFinfo b") (auto simp: flow_match_def split: if_splits)

lemma flow_received:
  assumes "flow_ok c b" and "pkt_typ pkt \<noteq> pktFINFOACK"
  shows "flow_at c (\<lambda>fw. fw_last fw = Some pkt \<and> (pkt_typ pkt = pktINITACK \<longrightarrow> fw_up fw)) (emit (EvRecv pkt) b)"
proof -
  obtain fw sp where f: "flows c b = Some fw" "flow_match b fw" "sends b = Some sp" using assms(1) by (rule flow_atE)
  let ?fw = "fw\<lparr>fw_last := Some pkt, fw_up := (fw_up fw \<or> pkt_typ pkt = pktINITACK)\<rparr>"
  have s: "sends (emit (EvRecv pkt) b) = sends b" by (rule sends_neutral) (simp add: tx_neutral_def)
  have r: "flow_recv pkt fw = ?fw" using assms(2) by (simp add: flow_recv_def)
  have "flow_match b ?fw" by (rule flow_match_last [OF f(2)]) simp
  then show ?thesis
    using f s r by (intro flow_atI [where fw = ?fw]) (simp_all add: flow_match_emit)
qed

text \<open>The acknowledgement of the end of file.\<close>

lemma flow_txEOFAck:
  assumes b: "flow_at c (\<lambda>fw. fw_last fw = Some pkt \<and> P fw) b" and t: "tx_ok b" and pkt: "pkt_typ pkt = pktEOFACK"
  shows "flow_ok c (txEOFAck E b)"
proof (cases "b_eofAckWait b \<and> (b_txState b = htxEOF \<or> b_txState b = htxEOFAck)")
  case False
  with flow_weaken [OF b] show ?thesis by (auto simp: txEOFAck_def)
next
  case True
  then have tr: "in_transfer (b_txState b)" by (auto simp: in_transfer_def)
  from b obtain fw sp where f: "flows c b = Some fw" "flow_match b fw" "fw_last fw = Some pkt" by (auto elim: flow_atE)
  with tr have m: "fw_ph fw = Sending" "fw_skip fw \<longrightarrow> b_txSkip b" "fw_up fw" "\<not> b_batchEnded b" "0 \<notin> set (cf_AppID (s_config b))"
    by (auto simp: flow_match_def in_transfer_def tx_order)
  define b1 where "b1 = feedBraindead E (b\<lparr>b_eofAckWait := False\<rparr>)"
  have same: "sends b1 = sends b" "s_log b1 = s_log b" "b_txOffer b1 = b_txOffer b" "b_txInfo b1 = b_txInfo b" "b_batchEnded b1 = b_batchEnded b"
    "b_txPos b1 = b_txPos b" "b_txSkip b1 = b_txSkip b" "b_blk b1 = b_blk b" "s_config b1 = s_config b"
    by (simp_all add: b1_def feedBraindead_def tick_def sends_def)
  define e where "e = (if b_txSkip b1 then Some (case b_txErr b1 of None \<Rightarrow> ErrSkip | Some e \<Rightarrow> e) else None)"
  have eq: "txEOFAck E b = finishTxFile (sendCompleted (b_txPos b1) e (closeTxOffer b1))"
  proof -
    have g: "(\<not> b_eofAckWait b \<or> (b_txState b \<noteq> htxEOF \<and> b_txState b \<noteq> htxEOFAck)) = False" using True by auto
    show ?thesis unfolding txEOFAck_def g if_False by (simp add: Let_def e_def b1_def [symmetric])
  qed
  show ?thesis unfolding eq
  proof (rule flow_finished)
    show "flow_trace c (s_log b1) = Some fw" using f(1) same by (simp add: flows_def)
    show "fw_up fw" "\<not> b_batchEnded b1" "0 \<notin> set (cf_AppID (s_config b1))" using m same by simp_all
    show "flow_step c sp fw (EvSendCompleted (b_txInfo b1) (b_txPos b1) e) = Some (fw\<lparr>fw_ph := Gap, fw_done := fw_done fw @ [e]\<rparr>)" for sp
      using m f(3) pkt same by (intro flow_step_done(2)) (auto simp: e_def)
    show "tx_ok (finishTxFile (sendCompleted (b_txPos b1) e (closeTxOffer b1)))"
      using tx_ok_txEOFAck [OF t, of E] by (simp add: eq)
  qed
qed

subsection \<open>The acknowledgement of an announcement\<close>

lemmas flow_view = flow.tx_view

lemma flow_pos: "flow_ok c b \<Longrightarrow> b_txState b = htxXdata \<Longrightarrow> flow_ok c (b\<lparr>b_txPos := n\<rparr>)"
  by (auto simp: flow_unfold in_transfer_def)

lemma flow_match_asking:
  assumes "flow_match b fw" and "tx_ok b" and "b_finfoAckWait b" and "b_txState b = htxFinfo \<or> b_txState b = htxFinfoAck"
  shows "if b_txEOB b then fw_ph fw = AskingEnd
    else fw_ph fw = Asking \<and> fw_offers fw \<noteq> [] \<and> \<not> fw_skip fw \<and> \<not> b_batchEnded b"
    and "fw_up fw" and "0 \<notin> set (cf_AppID (s_config b))"
proof -
  from assms(2,3) obtain p where "b_lastFinfo b = Some p" by (auto simp: tx_ok_def tx_phase_def)
  with assms show "if b_txEOB b then fw_ph fw = AskingEnd
      else fw_ph fw = Asking \<and> fw_offers fw \<noteq> [] \<and> \<not> fw_skip fw \<and> \<not> b_batchEnded b"
    and "fw_up fw" and "0 \<notin> set (cf_AppID (s_config b))"
    by (auto simp: flow_match_def in_transfer_def tx_order)
qed

lemma flow_match_waiting:
  assumes "flow_match b fw" and "\<not> (b_finfoAckWait b \<and> (b_txState b = htxFinfo \<or> b_txState b = htxFinfoAck))"
  shows "fw_ph fw \<noteq> Asking \<and> fw_ph fw \<noteq> AskingEnd"
  using assms by (auto simp: flow_match_def split: if_splits option.splits)

lemma flow_recv_still:
  "fw_ph fw \<noteq> Asking \<and> fw_ph fw \<noteq> AskingEnd \<or> fw_ph fw = Asking \<and> parseOffset (pkt_payload pkt) = Inl e
      \<or> fw_ph fw = Asking \<and> parseOffset (pkt_payload pkt) = Inr v \<and> v < 0 \<Longrightarrow>
    flow_recv pkt fw = fw\<lparr>fw_last := Some pkt, fw_up := (fw_up fw \<or> pkt_typ pkt = pktINITACK)\<rparr>"
  by (auto simp: flow_recv_def split: flow_phase.splits)

text \<open>
  While an announcement waits, the acknowledgement moves the automaton together with the
  machine; \<open>fw\<close> is the automaton before the packet, \<open>b\<close> the state after its reception.
\<close>

definition acking :: "(nat \<Rightarrow> byte list) \<Rightarrow> packet \<Rightarrow> flow \<Rightarrow> batch \<Rightarrow> bool" where
  "acking c pkt fw b \<longleftrightarrow> pkt_typ pkt = pktFINFOACK \<and> flows c b = Some (flow_recv pkt fw) \<and> flow_match b fw
     \<and> sends b \<noteq> None \<and> tx_ok b"

lemma acking_still:
  assumes a: "acking c pkt fw b" and "flow_recv pkt fw = fw\<lparr>fw_last := Some pkt, fw_up := (fw_up fw \<or> pkt_typ pkt = pktINITACK)\<rparr>"
  shows "flow_ok c b"
  using assms flow_match_last [of b fw "fw_up fw \<or> pkt_typ pkt = pktINITACK" "Some pkt"]
  by (auto simp: acking_def intro!: flow_atI [of c b "flow_recv pkt fw"])

lemma acking_asking:
  assumes a: "acking c pkt fw b" "waits b"
  shows "if b_txEOB b then fw_ph fw = AskingEnd else fw_ph fw = Asking \<and> fw_offers fw \<noteq> [] \<and> \<not> fw_skip fw \<and> \<not> b_batchEnded b"
    and "fw_up fw" and "0 \<notin> set (cf_AppID (s_config b))" and "pkt_typ pkt = pktFINFOACK"
proof -
  have m: "flow_match b fw" "tx_ok b" "b_finfoAckWait b" "b_txState b = htxFinfo \<or> b_txState b = htxFinfoAck"
    using a by (simp_all add: acking_def waits_def)
  show "if b_txEOB b then fw_ph fw = AskingEnd else fw_ph fw = Asking \<and> fw_offers fw \<noteq> [] \<and> \<not> fw_skip fw \<and> \<not> b_batchEnded b"
    "fw_up fw" "0 \<notin> set (cf_AppID (s_config b))" by (rule flow_match_asking [OF m])+
  show "pkt_typ pkt = pktFINFOACK" using a by (simp add: acking_def)
qed

lemma acking_end:
  assumes a: "acking c pkt fw b" "waits b" "b_txEOB b"
  shows "flow_ok c ((set_txTimer E d (acked E b))\<lparr>b_txState := htxRend\<rparr>)"
proof -
  have "flow_match ((acked E b)\<lparr>b_txState := htxRend\<rparr>) (flow_recv pkt fw)"
    using a(3) acking_asking [OF a(1,2)] by (simp add: flow_match_def flow_recv_def in_transfer_def tx_order)
  then have "flow_ok c ((acked E b)\<lparr>b_txState := htxRend\<rparr>)"
    using a by (intro flow_atI [of c _ "flow_recv pkt fw"]) (auto simp: acking_def flows_def sends_def)
  then show ?thesis
    by (subst flow_view [of _ "(acked E b)\<lparr>b_txState := htxRend\<rparr>"]) (simp_all add: set_txTimer_def tick_def tx_fields_def)
qed

lemma acking_refused:
  assumes a: "acking c pkt fw b" "waits b" "\<not> b_txEOB b" and v: "parseOffset (pkt_payload pkt) = Inr v" "v < 0"
    and e: "e = (if v = ackHaveFile then ErrSkip else ErrDefer)"
  shows "flow_ok c (finishTxFile (sendCompleted 0 (Some e) (closeTxOffer (acked E b))))"
proof (rule flow_finished)
  note ask = acking_asking [OF a(1,2)]
  have b: "tx_ok b" using a by (simp add: acking_def)
  show "flow_trace c (s_log (acked E b)) = Some (flow_recv pkt fw)" using a by (simp add: acking_def flows_def)
  show "fw_up (flow_recv pkt fw)" using ask by (simp add: flow_recv_def)
  show "\<not> b_batchEnded (acked E b)" "0 \<notin> set (cf_AppID (s_config (acked E b)))"
    using a(3) ask by simp_all
  show "flow_step c s (flow_recv pkt fw) (EvSendCompleted (b_txInfo (acked E b)) 0 (Some e))
      = Some ((flow_recv pkt fw)\<lparr>fw_ph := Gap, fw_done := fw_done (flow_recv pkt fw) @ [Some e]\<rparr>)" for s
    using a(3) ask v flow_recv_still [of fw pkt undefined v] by (intro flow_step_done(1) [of _ pkt v]) simp_all
  have "b_txOffer b \<noteq> None" using b a(2,3) by (auto simp: tx_ok_def tx_phase_def waits_def in_transfer_def split: option.splits)
  moreover have "tx_weak (acked E b)" using tx_ok_weak [OF b] by (simp add: tx_weak_def cong: option.case_cong)
  ultimately show "tx_ok (finishTxFile (sendCompleted 0 (Some e) (closeTxOffer (acked E b))))"
    using b by (intro tx_ok_complete) (simp_all add: tx_ok_def)
qed

lemma acking_moved:
  assumes a: "acking c pkt fw b" "waits b" "\<not> b_txEOB b" and v: "parseOffset (pkt_payload pkt) = Inr v" "0 \<le> v"
  shows "flow_ok c ((acked E b)\<lparr>b_txState := htxXdata\<rparr>)"
    and "flow_ok c (skipToEOF e (acked E b))"
    and "flow_ok c ((resumed E w b)\<lparr>b_txState := htxXdata\<rparr>)"
    and "flow_ok c (skipToEOF e (resumed E w b))"
proof -
  let ?m = "(acked E b)\<lparr>b_txState := htxXdata\<rparr>"
  have "flow_match ?m (flow_recv pkt fw)"
    using a(3) v acking_asking [OF a(1,2)] by (simp add: flow_match_def flow_recv_def in_transfer_def)
  then show m: "flow_ok c ?m"
    using a by (auto simp: acking_def flows_def sends_def intro: flow_atI [of c _ "flow_recv pkt fw"])
  show "flow_ok c (skipToEOF e (acked E b))" using flow_skip [OF m, of e] by (simp add: skipToEOF_def in_transfer_def)
  show r: "flow_ok c ((resumed E w b)\<lparr>b_txState := htxXdata\<rparr>)"
    using flow_pos [OF m, of w] by (subst flow_view [of _ "?m\<lparr>b_txPos := w\<rparr>"]) (simp_all add: resumed_def tx_fields_def)
  show "flow_ok c (skipToEOF e (resumed E w b))" using flow_skip [OF r, of e] by (simp add: skipToEOF_def in_transfer_def)
qed

lemma acking_sought:
  assumes a: "acking c pkt fw b" "waits b" "\<not> b_txEOB b" and v: "parseOffset (pkt_payload pkt) = Inr v" "0 \<le> v" "v \<le> fi_Size (b_txInfo b)"
    and h: "b_txSeeker b = Some h"
  shows "flow_ok c ((emit (EvSeek h v serr) (resumed E v b))\<lparr>b_txState := htxXdata\<rparr>)"
    and "flow_ok c (skipToEOF e (emit (EvSeek h v serr) (resumed E v b)))"
proof -
  let ?m = "(acked E b)\<lparr>b_txState := htxXdata\<rparr>"
  have m: "flow_ok c ?m" "in_transfer (b_txState ?m)" using acking_moved(1) [OF a v(1,2)] by (simp_all add: in_transfer_def)
  have tm: "tx_ok ?m" using a by (intro tx_ok_acked_moved) (simp_all add: acking_def in_transfer_def)
  have s: "sends (emit (EvSeek h v serr) ?m) \<noteq> None" using h v by (intro seek_accepted [OF tm m(2)]) simp_all
  show k: "flow_ok c ((emit (EvSeek h v serr) (resumed E v b))\<lparr>b_txState := htxXdata\<rparr>)"
    using flow_seek(2) [OF m(1) s m(2), of htxXdata]
    by (subst flow_view [of _ "(emit (EvSeek h v serr) ?m)\<lparr>b_txPos := v, b_txState := htxXdata\<rparr>"])
      (simp_all add: resumed_def tx_fields_def emit_def)
  show "flow_ok c (skipToEOF e (emit (EvSeek h v serr) (resumed E v b)))"
    using flow_skip [OF k, of e] by (simp add: skipToEOF_def in_transfer_def)
qed

lemma flow_txFinfoAck:
  assumes b: "flow_ok c b" and t: "tx_ok b" and ty: "pkt_typ pkt = pktFINFOACK"
  shows "post (flow_ok c) (\<lambda>_. True) (txFinfoAck E pkt (emit (EvRecv pkt) b))"
proof -
  obtain fw sp where f: "flows c b = Some fw" "flow_match b fw" "sends b = Some sp" using b by (rule flow_atE)
  have s: "sends (emit (EvRecv pkt) b) = sends b" by (rule sends_neutral) (simp add: tx_neutral_def)
  have a: "acking c pkt fw (emit (EvRecv pkt) b)"
    using f s t ty by (simp add: acking_def flow_match_emit tx_ok_neutral tx_neutral_def)
  show ?thesis
  proof (rule txFinfoAck_rule)
    assume i: "\<not> waits (emit (EvRecv pkt) b)
      \<or> \<not> b_txEOB (emit (EvRecv pkt) b) \<and> (\<exists>e. parseOffset (pkt_payload pkt) = Inl e)"
    show "flow_ok c (emit (EvRecv pkt) b)"
    proof (rule acking_still [OF a], cases "waits (emit (EvRecv pkt) b)")
      case False
      with a flow_match_waiting [of "emit (EvRecv pkt) b" fw]
      show "flow_recv pkt fw = fw\<lparr>fw_last := Some pkt, fw_up := (fw_up fw \<or> pkt_typ pkt = pktINITACK)\<rparr>"
        by (intro flow_recv_still) (simp add: acking_def waits_def)
    next
      case True
      with i obtain e where "\<not> b_txEOB (emit (EvRecv pkt) b)" "parseOffset (pkt_payload pkt) = Inl e" by blast
      with acking_asking(1) [OF a True]
      show "flow_recv pkt fw = fw\<lparr>fw_last := Some pkt, fw_up := (fw_up fw \<or> pkt_typ pkt = pktINITACK)\<rparr>"
        by (intro flow_recv_still [of _ _ e]) simp
    qed
  qed (simp_all add: acking_end [OF a] acking_refused [OF a] acking_moved [OF a] acking_sought [OF a])
qed

subsection \<open>Sending data\<close>

lemma flow_offers_of: "flow_trace c es = Some fw \<Longrightarrow> length (offered es) = length (fw_offers fw)"
  by (simp add: flow_offers)

lemma flow_data_sent:
  assumes f: "flow_trace c (s_log b) = Some fw" "0 \<notin> set (cf_AppID (s_config b))" "fw_up fw" "\<not> b_batchEnded b" "fw_ph fw = Sending"
      "fw_offers fw \<noteq> []" "fw_skip fw \<longrightarrow> b_txSkip b" "b_txState b = htxXdata" "b_txInfo b = offerInfo ofr" "0 \<le> b_txPos b"
    and ph: "send_trace (s_log b) = Some (SFile (unhooked ofr) (if fo_Close ofr then Armed else NoHook) (Some (b_txPos b + n)) (Some (b_txPos b, buf)))"
    and n: "n = int (length buf)" "b_txPos b + n \<le> SafeMaxOffset"
  shows "post (\<lambda>b'. flow_ok c (data_sent n b') \<and> b_txState b' = htxXdata) (\<lambda>_. True) (batch_write E pktDATA (marshalData (b_txPos b) buf) b)"
proof -
  let ?s = "\<lparr>sn_packet = \<lparr>pkt_typ = pktDATA, pkt_payload = marshalData (b_txPos b) buf\<rparr>, sn_opts = b_opts b, sn_prefix = b_prefix b\<rparr>"
  let ?sp = "SFile (unhooked ofr) (if fo_Close ofr then Armed else NoHook) (Some (b_txPos b + n)) (Some (b_txPos b, buf))"
  have l2: "flow_trace c (s_log b @ [EvSend ?s None]) = Some fw" "send_trace (s_log b @ [EvSend ?s None]) = Some ?sp"
    using f ph n by (simp_all add: flow_trace_snoc send_trace_snoc flow_step_def flow_send_def)
  let ?e = "EvSendProgress (b_txInfo b) (b_txPos b + n)"
  have l3: "flow_trace c ((s_log b @ [EvSend ?s None]) @ [?e]) = Some fw" "send_trace ((s_log b @ [EvSend ?s None]) @ [?e]) = Some ?sp"
    unfolding flow_trace_snoc [of c "s_log b @ [EvSend ?s None]"] send_trace_snoc [of "s_log b @ [EvSend ?s None]"] l2
    using f(9) by (auto simp: flow_step_def offerInfo_def unhooked_def)
  have "flow_ok c (data_sent n (emit (EvSend ?s None) b))"
    by (rule flow_transferI [where fw = fw and sp = ?sp]) (use f l3 in \<open>simp_all add: data_sent_def emit_def Let_def\<close>)
  then show ?thesis using f(8) by (simp add: batch_write_def post_writer_write split: option.split) (simp add: emit_def)
qed

lemma flow_armed: "flow_ok c b \<Longrightarrow> b_txState b = htxXdata \<Longrightarrow> flow_ok c ((armTx E b)\<lparr>b_txState := htxDataAck\<rparr>)"
proof -
  assume "flow_ok c b" "b_txState b = htxXdata"
  then have "flow_ok c (b\<lparr>b_txState := htxDataAck\<rparr>)" by (intro flow_transfer) simp_all
  then show ?thesis
    by (subst flow_view [of _ "b\<lparr>b_txState := htxDataAck\<rparr>"]) (simp_all add: armTx_def set_txTimer_def tick_def tx_fields_def Let_def)
qed

lemma flow_block:
  assumes g: "good_sender E c" and f: "flow_trace c (s_log b) = Some fw" "blk_inv (b_blk b)"
    and ph: "send_trace (s_log b) = Some (SFile (unhooked ofr) k (Some (b_txPos b)) blk)" and src: "fo_Reader ofr = Some src"
  shows "reads_from (c (length (fw_offers fw) - 1)) (b_txPos b) (fst (block E src b)) (snd (block E src b))"
proof -
  have "fo_Reader (unhooked ofr) = Some src" using src by simp
  with g ph have "en_source E (s_log b) src n = (drop (nat (b_txPos b)) (c (length (offered (s_log b)) - 1)), IoEOF)" for n
    unfolding good_sender_def by blast
  moreover have "0 < nat (bs_size (b_blk b))" using f(2) by (simp add: blk_inv_def bs_size_def)
  ultimately show ?thesis using read_full_from flow_offers_of [OF f(1)] by (simp add: block_def Let_def)
qed

lemma flow_sendData:
  assumes g: "good_sender E c" and b: "flow_ok c b" and t: "tx_ok b" and st: "b_txState b = htxXdata"
  shows "post (flow_ok c) (\<lambda>_. True) (sendData E b)"
proof -
  have tr: "in_transfer (b_txState b)" by (simp add: st)
  obtain fw where f: "flow_trace c (s_log b) = Some fw"
    "0 \<notin> set (cf_AppID (s_config b))" "fw_up fw" "\<not> b_batchEnded b" "fw_ph fw = Sending" "fw_offers fw \<noteq> []" "fw_skip fw \<longrightarrow> b_txSkip b"
    using flow_transferE [OF b tr] by metis
  obtain ofr pos blk where o: "b_txReader b = fo_Reader ofr" "fo_Reader ofr \<noteq> None" "blk_inv (b_blk b)" "0 \<le> b_txPos b"
    "send_trace (s_log b) = Some (SFile (unhooked ofr) (if fo_Close ofr then Armed else NoHook) pos blk)"
    "b_txSkip b \<or> pos = Some (b_txPos b)" "b_txInfo b = offerInfo ofr"
    using tx_ok_fileE [OF t tr] unfolding sends_def by metis
  obtain src where src: "b_txReader b = Some src" "fo_Reader ofr = Some src" using o by auto
  let ?b1 = "read_in E src b" and ?buf = "fst (block E src b)" and ?e = "snd (block E src b)"
  let ?sp = "SFile (unhooked ofr) (if fo_Close ofr then Armed else NoHook) (if read_ok ?e then Some (b_txPos b + int (length ?buf)) else None)
    (Some (b_txPos b, ?buf))"
  have reads: "reads_from (c (length (fw_offers fw) - 1)) (b_txPos b) ?buf ?e" if "\<not> b_txSkip b"
    using flow_block [OF g f(1) o(3) _ src(2)] o(5,6) that by simp
  have l1: "flow_trace c (s_log ?b1) = Some fw" "send_trace (s_log ?b1) = Some ?sp" if "\<not> b_txSkip b"
    using f o(5,6) that src reads by (simp_all add: flow_trace_snoc send_trace_snoc flow_step_def unhooked_def read_ok_def)
  show ?thesis
  proof (rule sendData_rule [OF src(1)])
    assume "b_txSkip b"
    then have "(skipToEOF (b_txErr b) b)\<lparr>b_productive := True\<rparr> = b\<lparr>b_txState := htxEOF, b_productive := True\<rparr>" by (simp add: skipToEOF_def)
    moreover have "flow_ok c ((skipToEOF (b_txErr b) b)\<lparr>b_productive := True\<rparr>)" using flow_skip [OF b tr] by simp
    ultimately show "flow_ok c (b\<lparr>b_txState := htxEOF, b_productive := True\<rparr>)" by simp
  next
    fix e assume n: "\<not> b_txSkip b"
    have b1: "flow_ok c ?b1" by (rule flow_transferI [OF _ l1 [OF n]]) (use f st in simp_all)
    show "flow_ok c ((skipToEOF e ?b1)\<lparr>b_productive := True\<rparr>)" using flow_skip [OF b1] st by simp
  next
    assume n: "\<not> b_txSkip b" and e: "?buf = []" "read_ok ?e"
    show "flow_ok c (?b1\<lparr>b_txState := htxEOF, b_productive := True\<rparr>)"
      by (rule flow_transferI [where fw = fw and sp = ?sp]) (use f st l1 [OF n] e in \<open>simp_all add: at_end_def\<close>)
  next
    assume n: "\<not> b_txSkip b" and e: "read_ok ?e" "b_txPos b + int (length ?buf) \<le> SafeMaxOffset"
    have "post (\<lambda>b'. flow_ok c (data_sent (int (length ?buf)) b') \<and> b_txState b' = htxXdata) (\<lambda>_. True)
        (batch_write E pktDATA (marshalData (b_txPos ?b1) ?buf) ?b1)"
      by (rule flow_data_sent [where fw = fw and ofr = ofr]) (use f st o l1 [OF n] e in simp_all)
    then show "post (flow_ok c) (\<lambda>_. True) (andThen (batch_write E pktDATA (marshalData (b_txPos b) ?buf) ?b1) (sendData_sent E (int (length ?buf))))"
      by (intro sendData_written) (simp_all add: flow_armed)
  qed
qed

subsection \<open>Announcing a file\<close>

definition flow_gap :: "(nat \<Rightarrow> byte list) \<Rightarrow> batch \<Rightarrow> bool" where
  \<comment> \<open>before a file is asked for\<close>
  "flow_gap c b \<longleftrightarrow> tx_ready b \<and> 0 \<notin> set (cf_AppID (s_config b)) \<and> \<not> b_batchEnded b
     \<and> (\<exists>fw. flow_trace c (s_log b) = Some fw \<and> fw_up fw \<and> fw_ph fw = Gap)"

definition flow_asked :: "(nat \<Rightarrow> byte list) \<Rightarrow> batch \<Rightarrow> bool" where
  \<comment> \<open>after the loop\<close>
  "flow_asked c b \<longleftrightarrow> 0 \<notin> set (cf_AppID (s_config b)) \<and> send_trace (s_log b) \<noteq> None
     \<and> (\<exists>fw. flow_trace c (s_log b) = Some fw \<and> fw_up fw
          \<and> (case b_txOffer b of
               None \<Rightarrow> fw_ph fw = AskingEnd
             | Some ofr \<Rightarrow> fw_ph fw = Asking \<and> fw_offers fw \<noteq> [] \<and> last (fw_offers fw) = ofr \<and> \<not> fw_skip fw \<and> \<not> b_batchEnded b))"

lemma flow_pull:
  assumes loop: "pullOffers E b = Some b'" and b: "flow_gap c b" and g: "good_sender E c"
  shows "flow_asked c b'"
  using loop b
proof (rule pullOffers_rule [where I = "flow_gap c" and J = "flow_asked c"])
  fix b and ofr :: FileOffer and e
  assume b: "flow_gap c b" and n: "b_txOffer b = None"
    and u: "fo_Size ofr < 0 \<or> fo_Size ofr > SafeMaxOffset \<or> fo_Reader ofr = None"
  then obtain fw where f: "flow_trace c (s_log b) = Some fw" "fw_up fw" "fw_ph fw = Gap" and s: "send_trace (s_log b) = Some SIdle"
    by (auto simp: flow_gap_def tx_ready_def sends_def)
  let ?b = "rejectOffer ofr e (emit (EvNextFile (Some ofr)) b)"
  have r: "tx_ready ?b"
    using b tx_ok_reject [of b ofr e] n by (simp add: flow_gap_def tx_ready_def) (simp add: rejectOffer_def closeOffer_def emit_def)
  have l: "flow_trace c (s_log b @ [EvNextFile (Some ofr)]) = Some fw"
    using f s u by (auto simp: flow_trace_snoc flow_step_def usable_def)
  have "flow_trace c (s_log ?b) = Some fw"
  proof (cases "fo_Close ofr")
    case True
    have s1: "send_trace (s_log b @ [EvNextFile (Some ofr)]) = Some (SFile (unhooked ofr) Armed (Some 0) None)"
      using s True by (simp add: send_trace_snoc)
    have l1: "flow_trace c ((s_log b @ [EvNextFile (Some ofr)]) @ [EvOfferClose ofr]) = Some fw"
      by (rule flow_trace_snocI [OF l s1]) (simp add: flow_step_def)
    have s2: "send_trace ((s_log b @ [EvNextFile (Some ofr)]) @ [EvOfferClose ofr]) = Some (SFile (unhooked ofr) Ran (Some 0) None)"
      unfolding send_trace_snoc [of "s_log b @ [EvNextFile (Some ofr)]"] s1 by simp
    have "flow_trace c (((s_log b @ [EvNextFile (Some ofr)]) @ [EvOfferClose ofr]) @ [EvSendCompleted (offerInfo ofr) 0 (Some e)]) = Some fw"
      by (rule flow_trace_snocI [OF l1 s2]) (simp add: flow_step_def f)
    with True show ?thesis by (simp add: rejectOffer_def closeOffer_def emit_def)
  next
    case False
    have s1: "send_trace (s_log b @ [EvNextFile (Some ofr)]) = Some (SFile (unhooked ofr) NoHook (Some 0) None)"
      using s False by (simp add: send_trace_snoc)
    have "flow_trace c ((s_log b @ [EvNextFile (Some ofr)]) @ [EvSendCompleted (offerInfo ofr) 0 (Some e)]) = Some fw"
      by (rule flow_trace_snocI [OF l s1]) (simp add: flow_step_def f)
    with False show ?thesis by (simp add: rejectOffer_def closeOffer_def emit_def)
  qed
  with r b f show "flow_gap c ?b" by (simp add: flow_gap_def) (simp add: rejectOffer_def closeOffer_def emit_def)
next
  fix b assume b: "flow_gap c b" "b_txOffer b = None"
  then show "flow_asked c ((emit (EvNextFile None) b)\<lparr>b_batchEnded := True\<rparr>)"
    by (auto simp: flow_gap_def flow_asked_def tx_ready_def sends_def emit_def flow_trace_snoc send_trace_snoc flow_step_def)
next
  fix b and ofr :: FileOffer
  assume b: "flow_gap c b" "b_txOffer b = None" and u: "0 \<le> fo_Size ofr" "fo_Size ofr \<le> SafeMaxOffset" "fo_Reader ofr \<noteq> None"
    and n: "en_nextFile E (s_log b) = Some ofr"
  have "0 \<notin> set (fo_Path ofr)" using g n by (auto simp: good_sender_def)
  with b u show "flow_asked c ((emit (EvNextFile (Some ofr)) b)\<lparr>b_txOffer := Some ofr\<rparr>)"
    by (auto simp: flow_gap_def flow_asked_def tx_ready_def sends_def emit_def flow_trace_snoc send_trace_snoc flow_step_def usable_def)
next
  fix b assume "flow_gap c b" "b_txOffer b \<noteq> None \<or> b_batchEnded b"
  then show "flow_asked c b" by (auto simp: flow_gap_def tx_ready_def)
qed

definition flow_said :: "(nat \<Rightarrow> byte list) \<Rightarrow> batch \<Rightarrow> bool" where
  \<comment> \<open>the announcement is ready to be sent, or sent\<close>
  "flow_said c b \<longleftrightarrow> b_lastFinfo b \<noteq> None \<and> b_txState b = htxFinfo \<and> flow_ok c (b\<lparr>b_finfoAckWait := True, b_txState := htxFinfoAck\<rparr>)"

lemma flow_prepared: "flow_asked c b \<Longrightarrow> b_txState b = htxFinfo \<Longrightarrow> flow_said c (prepareFinfo b)"
proof -
  assume b: "flow_asked c b" and st: "b_txState b = htxFinfo"
  then obtain fw where f: "0 \<notin> set (cf_AppID (s_config b))" "send_trace (s_log b) \<noteq> None" "flow_trace c (s_log b) = Some fw" "fw_up fw"
    and o: "case b_txOffer b of
               None \<Rightarrow> fw_ph fw = AskingEnd
             | Some ofr \<Rightarrow> fw_ph fw = Asking \<and> fw_offers fw \<noteq> [] \<and> last (fw_offers fw) = ofr \<and> \<not> fw_skip fw \<and> \<not> b_batchEnded b"
    by (auto simp: flow_asked_def)
  let ?b = "(prepareFinfo b)\<lparr>b_finfoAckWait := True, b_txState := htxFinfoAck\<rparr>"
  have "flow_match ?b fw"
  proof (cases "b_txOffer b")
    case None
    with f o show ?thesis by (simp add: prepareFinfo_def flow_match_def in_transfer_def)
  next
    case (Some ofr)
    have "announces ofr (marshalFinfo (offer_meta ofr) v)" for v by (cases v) (simp_all add: announces_def)
    then have "announces ofr (marshalFinfo \<lparr>fm_mtime = (case fo_ModTime ofr of None \<Rightarrow> 0 | Some t \<Rightarrow> t), fm_size = fo_Size ofr,
        fm_txid = 0, fm_count = 0, fm_name = txWireName (fo_Name ofr), fm_path = fo_Path ofr\<rparr> v)" for v
      by (simp add: offer_meta_def)
    with Some f o show ?thesis by (simp add: prepareFinfo_def flow_match_def in_transfer_def)
  qed
  moreover have "s_log ?b = s_log b" "b_lastFinfo (prepareFinfo b) \<noteq> None" "b_txState (prepareFinfo b) = htxFinfo"
    using st by (simp_all add: prepareFinfo_def split: option.split)
  ultimately show ?thesis using f by (simp add: flow_said_def flow_atI [of c _ fw] flows_def sends_def)
qed

lemma flow_said_write:
  assumes b: "flow_said c b" and p: "b_lastFinfo b = Some p"
  shows "post (flow_said c) (\<lambda>_. True) (batch_write E pktFINFO p b)"
proof -
  let ?w = "b\<lparr>b_finfoAckWait := True, b_txState := htxFinfoAck\<rparr>"
  obtain fw sp where f: "flows c ?w = Some fw" "flow_match ?w fw" "sends ?w = Some sp"
    using b unfolding flow_said_def by (blast elim: flow_atE)
  let ?s = "\<lparr>sn_packet = \<lparr>pkt_typ = pktFINFO, pkt_payload = p\<rparr>, sn_opts = b_opts b, sn_prefix = b_prefix b\<rparr>"
  have ask: "if b_txEOB b then fw_ph fw = AskingEnd \<and> p = finfoEOB
      else fw_ph fw = Asking \<and> fw_offers fw \<noteq> [] \<and> announces (last (fw_offers fw)) p"
    using f(2) p by (auto simp: flow_match_def in_transfer_def)
  have s: "sends (emit (EvSend ?s None) ?w) = sends ?w" by (rule sends_neutral) simp
  have "flow_step c sp fw (EvSend ?s None) = Some fw"
    using ask by (auto simp: flow_step_def flow_send_def split: if_splits)
  then have "flow_ok c (emit (EvSend ?s None) ?w)"
    using f s by (intro flow_atI [of c _ fw]) (simp_all add: flow_match_emit)
  moreover have "(emit (EvSend ?s None) b)\<lparr>b_finfoAckWait := True, b_txState := htxFinfoAck\<rparr> = emit (EvSend ?s None) ?w"
    by (simp add: emit_def)
  ultimately show ?thesis
    using b by (simp add: batch_write_def post_writer_write flow_said_def split: option.split) (simp add: emit_def)
qed

lemma flow_said_wait: "flow_said c b \<Longrightarrow> flow_ok c ((armTx E (b\<lparr>b_finfoAckWait := True\<rparr>))\<lparr>b_txState := htxFinfoAck\<rparr>)"
  by (subst flow_view [of _ "b\<lparr>b_finfoAckWait := True, b_txState := htxFinfoAck\<rparr>"])
    (simp_all add: flow_said_def armTx_def set_txTimer_def tick_def tx_fields_def Let_def)

lemma flow_announce:
  assumes b: "flow_ok c b" and t: "tx_ok b" and st: "b_txState b = htxFinfo" and g: "good_sender E c" and r: "sendFinfo E b = Some r"
  shows "post (flow_said c) (\<lambda>_. True) r"
proof -
  obtain fw sp where f: "flows c b = Some fw" "flow_match b fw" "sends b = Some sp" using b by (rule flow_atE)
  from r obtain b1 where b1: "(if b_lastFinfo b = None then map_option prepareFinfo (pullOffers E b) else Some b) = Some b1"
    "r = batch_write E pktFINFO (case b_lastFinfo b1 of Some p \<Rightarrow> p | None \<Rightarrow> []) b1"
    by (auto simp: sendFinfo_def split: option.splits)
  have "flow_said c b1"
  proof (cases "b_lastFinfo b")
    case None
    with f(2) st have m: "fw_ph fw = Gap" "fw_up fw" "0 \<notin> set (cf_AppID (s_config b))" "\<not> b_batchEnded b"
      by (auto simp: flow_match_def in_transfer_def tx_order)
    have "tx_ready b" using t st None by (auto simp: tx_ready_def tx_ok_def tx_file_def tx_phase_def)
    with m f(1) have gap: "flow_gap c b" by (simp add: flow_gap_def flows_def)
    from b1(1) None obtain b2 where b2: "pullOffers E b = Some b2" "b1 = prepareFinfo b2" by auto
    have "b_txState b2 = htxFinfo" using tx_pull [OF b2(1)] gap by (simp add: flow_gap_def tx_pulled_def)
    with flow_pull [OF b2(1) gap g] show ?thesis unfolding b2(2) by (rule flow_prepared)
  next
    case (Some p)
    have "flow_match (b\<lparr>b_finfoAckWait := True, b_txState := htxFinfoAck\<rparr>) fw"
      using f(2) st Some by (simp add: flow_match_def in_transfer_def tx_order)
    then have "flow_ok c (b\<lparr>b_finfoAckWait := True, b_txState := htxFinfoAck\<rparr>)"
      using f by (intro flow_atI [of c _ fw]) (simp_all add: flows_def sends_def)
    with Some st b1(1) show ?thesis by (simp add: flow_said_def)
  qed
  moreover from this obtain p where "b_lastFinfo b1 = Some p" by (auto simp: flow_said_def)
  ultimately show ?thesis using flow_said_write b1(2) by simp
qed

lemma flow_send_same:
  assumes b: "flow_at c Q b" and t: "pkt_typ (sn_packet f) \<noteq> pktDATA"
    and s: "\<And>sp fw. sends b = Some sp \<Longrightarrow> flow_match b fw \<Longrightarrow> flow_send sp fw (pkt_typ (sn_packet f)) (pkt_payload (sn_packet f)) = Some fw"
  shows "flow_at c Q (emit (EvSend f r) b)"
proof -
  obtain fw sp where f: "flows c b = Some fw" "flow_match b fw" "Q fw" "sends b = Some sp" using b by (rule flow_atE)
  have e: "sends (emit (EvSend f r) b) = sends b" using t by (intro sends_neutral) simp
  then show ?thesis using f s [OF f(4,2)] by (intro flow_atI [of c _ fw]) (simp_all add: flow_match_emit flow_step_def)
qed

lemma flow_eofWait [simp]: "flow_at c Q (b\<lparr>b_eofAckWait := x\<rparr>) = flow_at c Q b"
  by (simp add: flow_unfold cong: option.case_cong)

lemma flow_sendEOF:
  assumes b: "flow_ok c b" and t: "tx_ok b" and st: "b_txState b = htxEOF"
  shows "post (\<lambda>b'. flow_ok c b' \<and> b_txState b' = htxEOF) (\<lambda>_. True)
    (batch_write E pktEOF (marshalOffset (if b_txSkip b then offsetSkip else b_txPos b)) b)"
proof -
  define q where "q = marshalOffset (if b_txSkip b then offsetSkip else b_txPos b)"
  let ?s = "\<lparr>sn_packet = \<lparr>pkt_typ = pktEOF, pkt_payload = q\<rparr>, sn_opts = b_opts b, sn_prefix = b_prefix b\<rparr>"
  have tr: "in_transfer (b_txState b)" by (simp add: st)
  obtain fw sp where f: "flow_trace c (s_log b) = Some fw" "send_trace (s_log b) = Some sp"
    "0 \<notin> set (cf_AppID (s_config b))" "fw_up fw" "\<not> b_batchEnded b" "fw_ph fw = Sending" "fw_offers fw \<noteq> []"
    "fw_skip fw \<longrightarrow> b_txSkip b" "b_txSkip b \<or> at_end sp (b_txPos b)"
    using flow_transferE [OF b tr] st by metis
  obtain ofr where "0 \<le> b_txPos b" "b_txPos b \<le> SafeMaxOffset" using tx_ok_fileE [OF t tr] by metis
  then have p: "fits_int32 (b_txPos b)" "0 \<le> b_txPos b" by (simp_all add: fits_int32_def)
  define fw' where "fw' = (if b_txSkip b then fw\<lparr>fw_skip := True\<rparr> else fw)"
  have neq: "marshalOffset (b_txPos b) \<noteq> marshalOffset offsetSkip"
  proof
    assume "marshalOffset (b_txPos b) = marshalOffset offsetSkip"
    then have "parseOffset (marshalOffset (b_txPos b)) = parseOffset (marshalOffset offsetSkip)" by simp
    with p show False by (simp add: fits_int32_def)
  qed
  have "flow_step c sp fw (EvSend ?s None) = Some fw'"
    using f p neq by (auto simp: flow_step_def flow_send_def fw'_def q_def)
  with f have "flow_trace c (s_log (emit (EvSend ?s None) b)) = Some fw'" "send_trace (s_log (emit (EvSend ?s None) b)) = Some sp"
    by (simp_all add: emit_def flow_trace_snoc send_trace_snoc send_step_neutral)
  then have "flow_ok c (emit (EvSend ?s None) b)"
    by (rule flow_transferI [rotated]) (use f st in \<open>auto simp: fw'_def emit_def\<close>)
  with st show ?thesis unfolding q_def [symmetric]
    by (simp add: batch_write_def post_writer_write split: option.split) (simp add: emit_def)
qed

lemma timer_state [simp]: "b_txState (set_txTimer E d b) = b_txState b" "b_txState (armTx E b) = b_txState b"
  by (simp_all add: armTx_def set_txTimer_def tick_def Let_def)

lemma flow_txAction:
  assumes g: "good_sender E c" and b: "flow_ok c b" and t: "tx_ok b" and r: "txAction E b = Some r"
  shows "post (flow_ok c) (\<lambda>_. True) r"
proof (cases "b_txState b")
  case htxStart
  have "post (\<lambda>b. flow_ok c b \<and> b_txState b = htxStart) (\<lambda>_. True) (writeRaw E autostart b)"
    using b htxStart flow.dev_quiet by (simp add: post_writeRaw split: option.split) (simp add: emit_def)
  then have "post (flow_ok c) (\<lambda>_. True) (andThen (writeRaw E autostart b) (\<lambda>b.
        andThen (batch_write E pktSTART [] b) (\<lambda>b.
        fine ((set_txTimer E startInterval b)\<lparr>b_txState := htxSwait\<rparr>))))"
  proof (rule post_andThen)
    fix b assume b: "flow_ok c b \<and> b_txState b = htxStart"
    show "post (flow_ok c) (\<lambda>_. True) (andThen (batch_write E pktSTART [] b) (\<lambda>b.
        fine ((set_txTimer E startInterval b)\<lparr>b_txState := htxSwait\<rparr>)))"
      by (rule post_andThen [OF flow_write_other]) (use b in \<open>auto intro!: flow_before\<close>)
  qed
  with htxStart r show ?thesis by (simp add: txAction_def)
next
  case htxInit
  let ?s = "\<lparr>sn_packet = \<lparr>pkt_typ = pktINIT, pkt_payload = marshalInit (local_init (s_config b))\<rparr>,
        sn_opts = b_opts b AND NOT capEscape, sn_prefix = b_prefix b\<rparr>"
  have "flow_ok c (emit (EvSend ?s None) b)"
    using b by (rule flow_send_same) (simp_all add: flow_send_def flow_match_def parse_local_init)
  then have "post (\<lambda>b. flow_ok c b \<and> b_txState b = htxInit) (\<lambda>_. True) (sendInit E b)"
    using htxInit by (simp add: sendInit_def post_writer_write split: option.split) (simp add: emit_def)
  then have "post (flow_ok c) (\<lambda>_. True) (andThen (sendInit E b) (\<lambda>b.
        fine ((set_txTimer E (cf_Timeout (s_config b) div 2) b)\<lparr>b_txState := htxInitAck\<rparr>)))"
    by (rule post_andThen) (auto intro!: flow_before)
  with htxInit r show ?thesis by (simp add: txAction_def)
next
  case htxFinfo
  from htxFinfo r obtain r1 where r1: "sendFinfo E b = Some r1"
    "r = andThen r1 (\<lambda>b. fine ((armTx E (b\<lparr>b_finfoAckWait := True\<rparr>))\<lparr>b_txState := htxFinfoAck\<rparr>))"
    by (auto simp: txAction_def)
  show ?thesis unfolding r1(2)
    by (rule post_andThen [OF flow_announce [OF b t htxFinfo g r1(1)]]) (simp add: flow_said_wait)
next
  case htxXdata
  with r flow_sendData [OF g b t] show ?thesis by (auto simp: txAction_def)
next
  case htxEOF
  have "post (flow_ok c) (\<lambda>_. True) (andThen (batch_write E pktEOF (marshalOffset (if b_txSkip b then offsetSkip else b_txPos b)) b) (\<lambda>b.
        fine ((armTx E (b\<lparr>b_eofAckWait := True\<rparr>))\<lparr>b_txState := htxEOFAck\<rparr>)))"
    by (rule post_andThen [OF flow_sendEOF [OF b t htxEOF]])
      (auto intro!: flow_eof_again)
  with htxEOF r show ?thesis by (simp add: txAction_def)
next
  case htxEnd
  have "post (flow_ok c) (\<lambda>_. True) (andThen (write_times endInitialCount E pktEND b) (\<lambda>b.
        fine ((set_txTimer E (cf_Timeout (s_config b) div 2) b)\<lparr>b_txState := htxEndAck\<rparr>)))"
    by (rule post_andThen [OF flow_times [OF _ b]]) (use htxEnd in \<open>auto intro!: flow_after\<close>)
  with htxEnd r show ?thesis by (simp add: txAction_def)
qed (use b r in \<open>auto simp: txAction_def\<close>)

subsection \<open>All steps\<close>

lemma flow_joined:
  assumes "flow_at c (\<lambda>fw. P fw \<and> fw_up fw) b" and "b_txState b = htxInit \<or> b_txState b = htxInitAck"
  shows "flow_ok c (b\<lparr>b_txState := htxRinit\<rparr>)"
  using assms by (auto simp: flow_unfold in_transfer_def tx_order)

lemma flow_packet:
  assumes b: "flow_ok c b" and t: "tx_ok b"
  shows "post (flow_ok c) (\<lambda>_. True) (handlePacket E pkt b)"
proof (cases "pkt_typ pkt = pktFINFOACK")
  case True
  with flow_txFinfoAck [OF b t True] show ?thesis by (simp add: handlePacket_def)
next
  case False
  have at: "flow_at c (\<lambda>fw. fw_last fw = Some pkt \<and> (pkt_typ pkt = pktINITACK \<longrightarrow> fw_up fw)) (emit (EvRecv pkt) b)"
    by (rule flow_received [OF b False])
  then have r: "flow_ok c (emit (EvRecv pkt) b)" by (rule flow_weaken)
  have rt: "tx_ok (emit (EvRecv pkt) b)" using t by (simp add: tx_ok_neutral)
  have st: "b_txState (emit (EvRecv pkt) b) = b_txState b" by (simp add: emit_def)
  have start: "flow_ok c ((feedBraindead E (emit (EvRecv pkt) b))\<lparr>b_txTimer := None, b_txRetries := 0, b_txState := htxInit\<rparr>)"
    if "b_txState b = htxStart \<or> b_txState b = htxSwait"
    using that r by (intro flow_before) (auto simp: emit_def feedBraindead_def tick_def)
  have up: "flow_ok c ((feedBraindead E (emit (EvRecv pkt) b))\<lparr>b_txTimer := None, b_txRetries := 0, b_txState := htxRinit\<rparr>)"
    if "b_txState b = htxInit \<or> b_txState b = htxInitAck" "pkt_typ pkt = pktINITACK"
  proof (rule flow_joined)
    show "flow_at c (\<lambda>fw. fw_last fw = Some pkt \<and> fw_up fw) ((feedBraindead E (emit (EvRecv pkt) b))\<lparr>b_txTimer := None, b_txRetries := 0\<rparr>)"
      using at that(2) by simp
    show "b_txState ((feedBraindead E (emit (EvRecv pkt) b))\<lparr>b_txTimer := None, b_txRetries := 0\<rparr>) = htxInit
      \<or> b_txState ((feedBraindead E (emit (EvRecv pkt) b))\<lparr>b_txTimer := None, b_txRetries := 0\<rparr>) = htxInitAck"
      using that by (simp add: emit_def feedBraindead_def tick_def)
  qed
  have weak: "post (flow_ok c) (flow_ok c) q \<Longrightarrow> post (flow_ok c) (\<lambda>_. True) q" for q
    by (erule post_mono) simp_all
  note rx = weak [OF flow.rx_init [OF r]] weak [OF flow.rx_announced [OF r]] weak [OF flow.rx_data [OF r]] weak [OF flow.rx_eof [OF r]]
    weak [OF flow.dev_receive [OF r]] flow.dev_ack [OF r]
  have cond: "post (flow_ok c) (\<lambda>_. True) (if g then fine x else fine y)" if "g \<Longrightarrow> flow_ok c x" "flow_ok c y" for g x y
    using that by simp
  show ?thesis
    unfolding handlePacket_def Let_def st using False
    by (simp only: if_split) (intro conjI impI cond; simp add: rx start up r flow_txDataAck [OF r]
      flow_txRpos [OF r rt] flow_txEOFAck [OF at rt] flow_txIdle [OF r] flow_txEnd [OF r])
qed

interpretation sender: batch_invariant E "\<lambda>b. good_sender E c \<longrightarrow> tx_ok b \<and> flow_ok c b" "\<lambda>_. True" for E c
proof unfold_locales
  fix b pkt assume b: "good_sender E c \<longrightarrow> tx_ok b \<and> flow_ok c b"
  show "post (\<lambda>b. good_sender E c \<longrightarrow> tx_ok b \<and> flow_ok c b) (\<lambda>_. True) (handlePacket E pkt b)"
    by (rule post_both [OF tx_ok_packet flow_packet]) (use b in simp_all)
next
  fix b r assume b: "good_sender E c \<longrightarrow> tx_ok b \<and> flow_ok c b" and r: "txAction E b = Some r"
  show "post (\<lambda>b. good_sender E c \<longrightarrow> tx_ok b \<and> flow_ok c b) (\<lambda>_. True) r"
    by (rule post_both [OF tx_ok_txAction [OF _ r] flow_txAction [OF _ _ _ r]]) (use b in simp_all)
next
  fix b assume b: "good_sender E c \<longrightarrow> tx_ok b \<and> flow_ok c b"
  show "post (\<lambda>b. good_sender E c \<longrightarrow> tx_ok b \<and> flow_ok c b) (\<lambda>_. True) (txTimeout E (b\<lparr>b_txTimer := None\<rparr>))"
    by (rule post_both [OF tx_ok_txTimeout flow_txTimeout]) (use b in simp_all)
  show "post (\<lambda>b. good_sender E c \<longrightarrow> tx_ok b \<and> flow_ok c b) (\<lambda>_. True) (devTimeout (b\<lparr>b_devTimer := None\<rparr>))"
    by (rule post_both [OF tx_ok_devices(3) flow.dev_timeout]) (use b in simp_all)
  show "post (\<lambda>b. good_sender E c \<longrightarrow> tx_ok b \<and> flow_ok c b) (\<lambda>_. True) (devAction E b)"
    by (rule post_both [OF tx_ok_devAction flow.dev_action]) (use b in simp_all)
qed (simp_all add: tx_ok_absorb flow.outside tx_ok_devices(1) tx_ok_sync flow_sync)

lemma flow_start_ok: "s_log s = [] \<Longrightarrow> 0 \<notin> set (cf_AppID (s_config s)) \<Longrightarrow> flow_ok c (batch_start E s)"
proof -
  assume "s_log s = []" "0 \<notin> set (cf_AppID (s_config s))"
  then have "flow_ok c (newBatch s)"
    by (simp add: flow_unfold newBatch_def session.defs in_transfer_def tx_order flow_start_def send_trace_def Let_def)
  then show ?thesis by (simp add: batch_start_def)
qed

end
