(* ===== verification/Hydra_Serve.thy ===== *)
theory Hydra_Serve
  imports Hydra_RxContract Hydra_Sides
begin

section \<open>The receiver of files as its peer sees it\<close>

text \<open>
  The counterpart of \<open>Hydra_Flow\<close>: which acknowledgements the receive machine sends when, what
  it writes and what its reports follow from, for an application that accepts every file it
  is asked about. A refusal is left out on purpose: an acknowledgement names no file, and a late
  refusal can be taken for the next one (theory \<open>Hydra_StaleAck\<close>).
\<close>

subsection \<open>The automaton\<close>

text \<open>
  \<open>sv_rx\<close>: the receive machine; \<open>sv_open\<close>: a file is open; \<open>sv_pos\<close>: the next position in
  \<open>hrxData\<close>, \<open>- 2\<close> once the writer failed; \<open>sv_last\<close>: the last packet received.
\<close>

record serve =
  sv_rx :: rxState
  sv_open :: bool
  sv_pos :: int
  sv_last :: "packet option"

definition serve_start :: serve where
  "serve_start = \<lparr>sv_rx = hrxInit, sv_open = False, sv_pos = 0, sv_last = None\<rparr>"

definition acceptable :: "byte list \<Rightarrow> fileMeta option" where
  \<comment> \<open>the announcement of a file the application is asked about\<close>
  "acceptable p = (if isFinfoEOB p then None else
     (case parseFinfo p of Inl _ \<Rightarrow> None | Inr m \<Rightarrow> if fm_size m \<le> SafeMaxOffset then Some m else None))"

definition describes :: "fileMeta \<Rightarrow> FileInfo \<Rightarrow> bool" where
  "describes m info \<longleftrightarrow> fi_Name info = fm_name m \<and> fi_Path info = fm_path m \<and> fi_Size info = fm_size m
     \<and> fi_ModTime info = (if fm_mtime m \<noteq> 0 then Some (fm_mtime m) else None)"

definition serve_accept :: "FileInfo \<Rightarrow> nat option \<Rightarrow> int \<Rightarrow> err option \<Rightarrow> serve \<Rightarrow> serve option" where
  "serve_accept info w off herr sv =
     (case sv_last sv of
        None \<Rightarrow> None
      | Some p \<Rightarrow>
          (case acceptable (pkt_payload p) of
             None \<Rightarrow> None
           | Some m \<Rightarrow>
               if sv_rx sv = hrxFinfo \<and> \<not> sv_open sv \<and> pkt_typ p = pktFINFO \<and> describes m info
                 \<and> w \<noteq> None \<and> herr = None \<and> resume_ok info off
               then Some (sv\<lparr>sv_rx := hrxData, sv_open := True, sv_pos := off\<rparr>) else None))"

definition serve_report :: "err option \<Rightarrow> serve \<Rightarrow> serve option" where
  "serve_report e sv =
     (if \<not> sv_open sv then Some sv
      else (case sv_last sv of
          None \<Rightarrow> None
        | Some p \<Rightarrow>
            if pkt_typ p = pktDATA \<and> e \<noteq> None then Some (sv\<lparr>sv_open := False, sv_pos := - 2\<rparr>)
            else if pkt_typ p = pktEOF then
              (case parseOffset (pkt_payload p) of
                 Inl _ \<Rightarrow> None
               | Inr v \<Rightarrow> if v < 0 \<and> e \<noteq> None \<or> 0 \<le> v \<and> v = sv_pos sv \<and> e = None
                   then Some (sv\<lparr>sv_open := False, sv_rx := hrxFinfo\<rparr>) else None)
            else None))"

definition serve_send :: "packet \<Rightarrow> serve \<Rightarrow> serve option" where
  "serve_send q sv =
     (if pkt_typ q = pktINITACK then
        (case sv_last sv of
           None \<Rightarrow> None
         | Some p \<Rightarrow> if pkt_typ p \<noteq> pktINIT then None
             else if sv_rx sv = hrxInit \<and> ok (parseInit (pkt_payload p)) then Some (sv\<lparr>sv_rx := hrxFinfo\<rparr>)
             else Some sv)
      else if pkt_typ q = pktFINFOACK then
        (case sv_last sv of
           None \<Rightarrow> None
         | Some p \<Rightarrow> if pkt_typ p \<noteq> pktFINFO then None
             else (case sv_rx sv of
                 hrxFinfo \<Rightarrow> if isFinfoEOB (pkt_payload p) then Some (sv\<lparr>sv_rx := hrxDone\<rparr>)
                   else if acceptable (pkt_payload p) = None then Some sv else None
               | hrxData \<Rightarrow> if pkt_payload q = marshalOffset (to_int32 (sv_pos sv)) then Some sv else None
               | _ \<Rightarrow> Some sv))
      else if pkt_typ q = pktEOFACK then
        (case sv_last sv of
           None \<Rightarrow> None
         | Some p \<Rightarrow> if pkt_typ p \<noteq> pktEOF \<or> sv_open sv then None
             else (case sv_rx sv of
                 hrxFinfo \<Rightarrow> Some sv
               | hrxData \<Rightarrow>
                   (case parseOffset (pkt_payload p) of
                      Inl _ \<Rightarrow> None
                    | Inr v \<Rightarrow> if v < 0 then Some (sv\<lparr>sv_rx := hrxFinfo\<rparr>) else None)
               | _ \<Rightarrow> None))
      else Some sv)"

definition serve_step :: "serve \<Rightarrow> event \<Rightarrow> serve option" where
  "serve_step sv e =
     (case e of
        EvRecv p \<Rightarrow> Some (sv\<lparr>sv_last := Some p\<rparr>)
      | EvAccept info w off herr \<Rightarrow> serve_accept info w off herr sv
      | EvWrite h data r \<Rightarrow>
          if sv_open sv \<and> sv_rx sv = hrxData \<and> is_data_at (sv_pos sv) data (sv_last sv) then
            Some (if r = None then sv\<lparr>sv_pos := sv_pos sv + int (length data)\<rparr> else sv)
          else None
      | EvRecvCompleted info n r \<Rightarrow> serve_report r sv
      | EvSend f r \<Rightarrow> serve_send (sn_packet f) sv
      | _ \<Rightarrow> Some sv)"

definition serve_trace :: "event list \<Rightarrow> serve option" where
  "serve_trace es = foldl (\<lambda>s e. Option.bind s (\<lambda>sv. serve_step sv e)) (Some serve_start) es"

lemma serve_trace_snoc [simp]:
  "serve_trace (es @ [e]) = Option.bind (serve_trace es) (\<lambda>sv. serve_step sv e)"
  by (simp add: serve_trace_def)

definition serves :: "batch \<Rightarrow> serve option" where
  "serves b = serve_trace (s_log b)"

lemma serves_emit [simp]: "serves (emit e b) = Option.bind (serves b) (\<lambda>sv. serve_step sv e)"
  by (simp add: serves_def emit_def)

subsection \<open>The invariant\<close>

definition serve_match :: "batch \<Rightarrow> serve \<Rightarrow> bool" where
  "serve_match b sv \<longleftrightarrow> b_rxState b = sv_rx sv \<and> b_rxOpen b = sv_open sv \<and> (sv_rx sv = hrxData \<longrightarrow> b_rxPos b = sv_pos sv)
     \<and> (sv_open sv \<longrightarrow> sv_rx sv = hrxData) \<and> (\<forall>p. b_lastRefusedFinfo b = Some p \<longrightarrow> acceptable p = None)"

definition serve_at :: "(serve \<Rightarrow> bool) \<Rightarrow> batch \<Rightarrow> bool" where
  "serve_at Q b \<longleftrightarrow> (\<exists>sv. serves b = Some sv \<and> serve_match b sv \<and> Q sv)"

abbreviation serve_ok :: "batch \<Rightarrow> bool" where
  "serve_ok \<equiv> serve_at (\<lambda>_. True)"

lemma serve_weaken: "serve_at Q b \<Longrightarrow> serve_ok b"
  by (auto simp: serve_at_def)

lemma serve_quiet: "tx_event e \<Longrightarrow> serve_step sv e = Some sv"
proof (cases e)
  case (EvSend s r)
  assume "tx_event e"
  with EvSend have "pkt_typ (sn_packet s) \<in> {pktDEVDATA, pktDEVDACK, pktSTART, pktINIT, pktFINFO, pktDATA, pktEOF, pktEND, pktIDLE}"
    by simp
  then show ?thesis unfolding EvSend by (elim insertE emptyE) (simp_all add: serve_step_def serve_send_def)
qed (simp_all add: tx_event_def dev_event_def serve_step_def)

lemma serve_match_emit [simp]: "serve_match (emit e b) sv = serve_match b sv"
  by (simp add: serve_match_def emit_def)

lemma serve_match_last [simp]: "serve_match b (sv\<lparr>sv_last := x\<rparr>) = serve_match b sv"
  by (simp add: serve_match_def)

interpretation serve: rx_side "serve_at Q" for Q
proof unfold_locales
  fix b b' :: batch
  assume "rx_fields b = rx_fields b'"
  then show "serve_at Q b = serve_at Q b'"
    by (simp only: rx_fields_def prod.inject serve_at_def serve_match_def serves_def)
next
  fix e b
  assume "tx_event e" and "serve_at Q b"
  then show "serve_at Q (emit e b)"
    by (auto simp: serve_at_def serve_quiet)
qed

lemma serve_atE:
  assumes "serve_at Q b"
  obtains sv where "serves b = Some sv" "serve_match b sv" "Q sv"
  using assms by (auto simp: serve_at_def)

lemma serve_atI: "serves b = Some sv \<Longrightarrow> serve_match b sv \<Longrightarrow> Q sv \<Longrightarrow> serve_at Q b"
  by (auto simp: serve_at_def)

lemma serve_received: "serve_ok b \<Longrightarrow> serve_at (\<lambda>sv. sv_last sv = Some pkt) (emit (EvRecv pkt) b)"
  by (erule serve_atE, rule_tac sv = "sv\<lparr>sv_last := Some pkt\<rparr>" in serve_atI) (simp_all add: serve_step_def)

definition good_receiver :: "env \<Rightarrow> bool" where
  \<comment> \<open>the application accepts every file, at a position within it\<close>
  "good_receiver E \<longleftrightarrow> (\<forall>es info. fi_Size info \<le> SafeMaxOffset \<longrightarrow>
     (case en_accept E es info of (w, off, herr) \<Rightarrow> w \<noteq> None \<and> herr = None \<and> resume_ok info off))"

subsection \<open>The receive machine keeps to it\<close>

lemma serve_write:
  assumes "serves b = Some sv" and "serve_send \<lparr>pkt_typ = t, pkt_payload = p\<rparr> sv = Some sv'" and "serve_match b sv'"
  shows "post serve_ok (\<lambda>_. True) (batch_write E t p b)"
proof -
  have "serve_ok (emit (EvSend \<lparr>sn_packet = \<lparr>pkt_typ = t, pkt_payload = p\<rparr>, sn_opts = b_opts b, sn_prefix = b_prefix b\<rparr> None) b)"
    using assms by (intro serve_atI [of _ sv']) (simp_all add: serve_step_def)
  then show ?thesis by (simp add: batch_write_def post_writer_write split: option.split)
qed

lemma serve_write_other:
  "serve_ok b \<Longrightarrow> t \<noteq> pktINITACK \<Longrightarrow> t \<noteq> pktFINFOACK \<Longrightarrow> t \<noteq> pktEOFACK \<Longrightarrow> post serve_ok (\<lambda>_. True) (batch_write E t p b)"
  by (erule serve_atE, rule serve_write) (simp_all add: serve_send_def)

lemma serve_badPosition: "serve_ok b \<Longrightarrow> post serve_ok (\<lambda>_. True) (badPosition E off eof b)"
  by (simp add: badPosition_def Let_def serve_write_other split: option.split)

lemma serve_rxInit:
  assumes b: "serve_at (\<lambda>sv. sv_last sv = Some pkt) b" and t: "pkt_typ pkt = pktINIT"
  shows "post serve_ok (\<lambda>_. True) (rxInit E pkt b)"
proof -
  obtain sv where sv: "serves b = Some sv" "serve_match b sv" "sv_last sv = Some pkt" using b by (rule serve_atE)
  define J where "J b' \<longleftrightarrow> serves b' = Some sv \<and> serve_match b' (if sv_rx sv = hrxInit \<and> ok (parseInit (pkt_payload pkt))
    then sv\<lparr>sv_rx := hrxFinfo\<rparr> else sv)" for b'
  have neg: "post (\<lambda>b'. J (b'\<lparr>b_rxState := hrxFinfo\<rparr>)) (\<lambda>_. True) (negotiate p b)"
    if "sv_rx sv = hrxInit" "ok (parseInit (pkt_payload pkt))" for p
    using sv that by (simp add: J_def negotiate_def Let_def serve_match_def serves_def)
  have "post J (\<lambda>_. True) (if b_rxState b = hrxInit then
          (case parseInit (pkt_payload pkt) of
             Inl _ \<Rightarrow> fine b
           | Inr p \<Rightarrow> andThen (negotiate p b) (\<lambda>b. fine (b\<lparr>b_rxState := hrxFinfo\<rparr>)))
        else fine b)"
  proof (cases "b_rxState b = hrxInit")
    case True
    then have rx: "sv_rx sv = hrxInit" using sv(2) by (simp add: serve_match_def)
    show ?thesis
    proof (cases "parseInit (pkt_payload pkt)")
      case (Inl e)
      with True sv show ?thesis by (simp add: J_def)
    next
      case (Inr p)
      then have "post J (\<lambda>_. True) (andThen (negotiate p b) (\<lambda>b. fine (b\<lparr>b_rxState := hrxFinfo\<rparr>)))"
        by (intro post_andThen [OF neg [OF rx]]) simp_all
      with True Inr show ?thesis by simp
    qed
  next
    case False
    with sv show ?thesis by (simp add: J_def serve_match_def)
  qed
  then show ?thesis unfolding rxInit_def
  proof (rule post_andThen)
    fix b' assume "J b'"
    then show "post serve_ok (\<lambda>_. True) (batch_write E pktINITACK [] b')"
      using sv t by (intro serve_write) (auto simp: J_def serve_send_def)
  qed
qed

lemma to_int32_small: "0 \<le> off \<Longrightarrow> off \<le> SafeMaxOffset \<Longrightarrow> to_int32 off = off"
  by (simp add: to_int32_def fits_int32_def sint_word_of_int32)

abbreviation sv_opened :: "int \<Rightarrow> serve \<Rightarrow> serve" where
  "sv_opened off sv \<equiv> sv\<lparr>sv_rx := hrxData, sv_open := True, sv_pos := off\<rparr>"

lemma serve_acceptFinfo:
  assumes g: "good_receiver E" and sv: "serves b = Some sv" "serve_match b sv" "sv_last sv = Some pkt"
    and t: "pkt_typ pkt = pktFINFO" and rx: "sv_rx sv = hrxFinfo" and neob: "\<not> isFinfoEOB (pkt_payload pkt)"
    and r: "acceptFinfo E (pkt_payload pkt) b = (ack, b')"
  shows "if acceptable (pkt_payload pkt) = None then ack < 0 \<and> serves b' = Some sv \<and> serve_match b' sv
    else 0 \<le> ack \<and> (\<exists>off. ack = to_int32 off \<and> serves b' = Some (sv_opened off sv) \<and> serve_match b' (sv_opened off sv))"
  (is "?P ack b'")
proof (rule acceptFinfo_rule [OF r])
  fix e assume "parseFinfo (pkt_payload pkt) = Inl e"
  with sv neob show "?P ackDefer b" by (simp add: acceptable_def)
next
  fix meta and info :: FileInfo
  assume "parseFinfo (pkt_payload pkt) = Inr meta" "info = finfo_info meta (b_filesRcvd b)" "SafeMaxOffset < fi_Size info"
  then have "acceptable (pkt_payload pkt) = None" by (simp add: acceptable_def finfo_info_def)
  moreover have "\<not> sv_open sv" using sv(2) rx by (auto simp: serve_match_def)
  ultimately show "?P ackDefer (recvCompleted info 0 (Some ErrFileTooLarge) b)"
    using sv by (simp add: recvCompleted_def serve_step_def serve_report_def)
next
  fix info :: FileInfo and w :: "nat option" and off :: int and herr :: "err option" and e :: err and n :: int
  assume "fi_Size info \<le> SafeMaxOffset" "en_accept E (s_log b) info = (w, off, herr)"
    "\<not> (herr = None \<and> w \<noteq> None \<and> resume_ok info off)"
  moreover from this(1) g have "case en_accept E (s_log b) info of (w, off, herr) \<Rightarrow> w \<noteq> None \<and> herr = None \<and> resume_ok info off"
    unfolding good_receiver_def by simp
  ultimately have False by simp
  then show "?P n (recvCompleted info 0 (Some e) (closeWriter w (emit (EvAccept info w off herr) b)))" ..
next
  fix meta and info :: FileInfo and h off
  let ?b = "taken info h off (emit (EvAccept info (Some h) off None) b)"
  assume i: "parseFinfo (pkt_payload pkt) = Inr meta" "info = finfo_info meta (b_filesRcvd b)"
    "fi_Size info \<le> SafeMaxOffset" and ok: "resume_ok info off"
  then have m: "acceptable (pkt_payload pkt) = Some meta" "describes meta info"
    using neob by (simp_all add: acceptable_def describes_def finfo_info_def)
  have "\<not> sv_open sv" using sv(2) rx by (auto simp: serve_match_def)
  with m ok have "serve_accept info (Some h) off None sv = Some (sv_opened off sv)"
    using sv t rx by (simp add: serve_accept_def)
  then have "serves ?b = Some (sv_opened off sv)" "serve_match ?b (sv_opened off sv)"
    using sv(1,2) by (simp_all add: serves_def emit_def serve_step_def serve_match_def taken_def)
  moreover have "0 \<le> to_int32 off" using ok to_int32_small [of off] by (simp add: resume_ok_def)
  ultimately show "?P (to_int32 off) ?b" using m(1) by auto
qed

lemma serve_rxOffer:
  assumes g: "good_receiver E" and sv: "serves b = Some sv" "serve_match b sv" "sv_last sv = Some pkt"
    and t: "pkt_typ pkt = pktFINFO" and rx: "sv_rx sv = hrxFinfo"
  shows "post serve_ok (\<lambda>_. True) (rxFinfo E pkt b)"
proof -
  define b1 where "b1 = feedBraindead E b"
  have sv1: "serves b1 = Some sv" "serve_match b1 sv" "b_lastRefusedFinfo b1 = b_lastRefusedFinfo b"
    using sv by (simp_all add: b1_def feedBraindead_def tick_def serves_def serve_match_def)
  have st: "b_rxState b = hrxFinfo" using sv(2) rx by (simp add: serve_match_def)
  have refused: "post serve_ok (\<lambda>_. True) (batch_write E pktFINFOACK p b')"
    if "serves b' = Some sv" "serve_match b' sv" "acceptable (pkt_payload pkt) = None" "\<not> isFinfoEOB (pkt_payload pkt)" for p b'
    using that sv(3) rx t by (intro serve_write [of b' sv _ _ sv]) (simp_all add: serve_send_def)
  consider "isFinfoEOB (pkt_payload pkt)"
    | "\<not> isFinfoEOB (pkt_payload pkt)" "b_lastRefusedFinfo b = Some (pkt_payload pkt)"
    | "\<not> isFinfoEOB (pkt_payload pkt)" "b_lastRefusedFinfo b \<noteq> Some (pkt_payload pkt)" by blast
  then show ?thesis
  proof cases
    case 1
    have "post serve_ok (\<lambda>_. True) (batch_write E pktFINFOACK (marshalOffset 0) (b1\<lparr>b_rxState := hrxDone\<rparr>))"
      using sv1 sv(3) rx t 1
      by (intro serve_write [of _ sv _ _ "sv\<lparr>sv_rx := hrxDone\<rparr>"]) (simp_all add: serve_send_def serve_match_def serves_def)
    with st 1 show ?thesis by (simp add: rxFinfo_def b1_def Let_def)
  next
    case 2
    with sv(2) have "acceptable (pkt_payload pkt) = None" by (simp add: serve_match_def)
    with refused [OF sv1(1,2)] 2 st sv1 show ?thesis by (simp add: rxFinfo_def b1_def [symmetric] Let_def)
  next
    case 3
    obtain ack b2 where r: "acceptFinfo E (pkt_payload pkt) b1 = (ack, b2)" by fastforce
    let ?no = "b2\<lparr>b_lastRefusedFinfo := (if pkt_payload pkt = [] then None else Some (pkt_payload pkt)), b_lastRefusedAck := ack\<rparr>"
    let ?yes = "b2\<lparr>b_lastRefusedFinfo := None\<rparr>"
    note a = serve_acceptFinfo [OF g sv1(1,2) sv(3) t rx 3(1) r]
    have res: "rxFinfo E pkt b = batch_write E pktFINFOACK (marshalOffset ack) (if ack < 0 then ?no else ?yes)"
      using st 3 sv1(3) r by (simp add: rxFinfo_def b1_def [symmetric] Let_def)
    show ?thesis
    proof (cases "acceptable (pkt_payload pkt) = None")
      case True
      with a have "ack < 0" "serves ?no = Some sv" "serve_match ?no sv" by (simp_all add: serves_def serve_match_def)
      with refused [of ?no] True 3(1) show ?thesis by (simp add: res)
    next
      case False
      with a obtain off where k: "0 \<le> ack" "ack = to_int32 off" "serves ?yes = Some (sv_opened off sv)"
        "serve_match ?yes (sv_opened off sv)" by (auto simp: serves_def serve_match_def)
      then have "post serve_ok (\<lambda>_. True) (batch_write E pktFINFOACK (marshalOffset ack) ?yes)"
        using sv(3) t by (intro serve_write [of _ "sv_opened off sv" _ _ "sv_opened off sv"]) (simp_all add: serve_send_def)
      with k(1) show ?thesis by (simp add: res)
    qed
  qed
qed

lemma serve_rxFinfo:
  assumes g: "good_receiver E" and b: "serve_at (\<lambda>sv. sv_last sv = Some pkt) b" and t: "pkt_typ pkt = pktFINFO"
  shows "post serve_ok (\<lambda>_. True) (rxFinfo E pkt b)"
proof -
  obtain sv where sv: "serves b = Some sv" "serve_match b sv" "sv_last sv = Some pkt" using b by (rule serve_atE)
  have st: "b_rxState b = sv_rx sv" using sv(2) by (simp add: serve_match_def)
  have same: "post serve_ok (\<lambda>_. True) (batch_write E pktFINFOACK p b)"
    if "serve_send \<lparr>pkt_typ = pktFINFOACK, pkt_payload = p\<rparr> sv = Some sv" for p
    using sv that by (intro serve_write [of b sv _ _ sv]) simp_all
  show ?thesis
  proof (cases "sv_rx sv")
    case hrxInit
    with sv t st same [of "marshalOffset 0"] show ?thesis by (simp add: rxFinfo_def serve_send_def)
  next
    case hrxFinfo
    with g sv t show ?thesis by (rule serve_rxOffer)
  next
    case hrxData
    with sv have "b_rxPos b = sv_pos sv" by (simp add: serve_match_def)
    with hrxData sv t st same [of "marshalOffset (to_int32 (b_rxPos b))"] show ?thesis by (simp add: rxFinfo_def serve_send_def)
  next
    case hrxDone
    with sv t st same show ?thesis by (simp add: rxFinfo_def serve_send_def)
  qed
qed

lemma serve_requestSkip:
  assumes sv: "serves b = Some sv" "serve_match b sv" "sv_last sv = Some pkt" and t: "pkt_typ pkt = pktDATA" and o: "sv_open sv"
  shows "post serve_ok (\<lambda>_. True) (requestSkip E e b)"
proof -
  let ?sv = "sv\<lparr>sv_open := False, sv_pos := - 2\<rparr>"
  have "serves (rxCloseFile (Some e) b) = Some ?sv"
  proof -
    have "serves (closeWriter w b') = serves b'" for w b'
      by (cases "serves b'") (simp_all add: closeWriter_def serve_step_def split: option.split)
    moreover have "serves (b\<lparr>b_rxOpen := False\<rparr>) = Some sv" using sv(1) by (simp add: serves_def)
    moreover have "serves (b'\<lparr>b_rxWriter := None\<rparr>) = serves b'" for b' by (simp add: serves_def)
    ultimately show ?thesis
      using sv t o by (simp add: rxCloseFile_def Let_def recvCompleted_def serve_step_def serve_report_def serve_match_def)
  qed
  moreover have "b_rxState (rxCloseFile (Some e) b) = b_rxState b" "\<not> b_rxOpen (rxCloseFile (Some e) b)"
    "b_lastRefusedFinfo (rxCloseFile (Some e) b) = b_lastRefusedFinfo b"
    by (simp_all add: rxCloseFile_def closeWriter_def recvCompleted_def emit_def Let_def split: option.split)
  ultimately have "serve_ok (rxCloseFile (Some e) b\<lparr>b_rxPos := - 2, b_rxRetries := 1, b_rxSyncID := i, b_rxTimer := x, s_clk := k\<rparr>)" for i x k
    using sv(2) o by (intro serve_atI [of _ ?sv]) (simp_all add: serves_def serve_match_def)
  then show ?thesis by (simp add: requestSkip_def Let_def tick_def serve_write_other)
qed

lemma serve_rxData:
  assumes b: "serve_at (\<lambda>sv. sv_last sv = Some pkt) b" and t: "pkt_typ pkt = pktDATA" and rx: "rx_ok b"
  shows "post serve_ok (\<lambda>_. True) (rxData E pkt b)"
proof -
  obtain sv where sv: "serves b = Some sv" "serve_match b sv" "sv_last sv = Some pkt" using b by (rule serve_atE)
  note b0 = serve_weaken [OF b]
  let ?h = "the (b_rxWriter b)"
  have o: "b_rxWriter b = Some ?h" "sv_rx sv = hrxData" "sv_pos sv = b_rxPos b" "sv_open sv" if "in_place pkt data b" for data
    using rx sv(2) that by (auto simp: rx_at_def serve_match_def in_place_def split: if_splits)
  let ?sv = "\<lambda>data. if write_result E ?h data b = None then sv\<lparr>sv_pos := sv_pos sv + int (length data)\<rparr> else sv"
  have s2: "serves (wrote E ?h data b) = Some (?sv data)" if at: "in_place pkt data b" for data
  proof -
    have "is_data_at (sv_pos sv) data (sv_last sv)" using at t sv(3) o [OF at] by (simp add: is_data_at_def in_place_def)
    moreover have "serves ((feedBraindead E b)\<lparr>b_rxBlkLen := k\<rparr>) = Some sv" for k
      using sv(1) by (simp add: serves_def feedBraindead_def tick_def)
    ultimately show ?thesis using o [OF at] by (simp add: wrote_def serve_step_def)
  qed
  show ?thesis
  proof (rule rxData_rule [where h = ?h, OF b0 serve_badPosition [OF b0] o(1)])
    fix data assume at: "in_place pkt data b"
    note k = s2 [OF at] o [OF at] sv(2,3)
    show "post serve_ok (\<lambda>_. True) (requestSkip E e (wrote E ?h data b))" if "write_result E ?h data b = Some e" for e
      using k that t by (intro serve_requestSkip [of _ sv pkt]) (simp_all add: serve_match_def)
    assume r: "write_result E ?h data b = None"
    let ?b = "passed (int (length data)) (wrote E ?h data b)"
    have s3: "serves ?b = Some (sv\<lparr>sv_pos := sv_pos sv + int (length data)\<rparr>)"
      "serve_match ?b (sv\<lparr>sv_pos := sv_pos sv + int (length data)\<rparr>)"
      using k r by (simp_all add: serves_def serve_match_def)
    show "post serve_ok (\<lambda>_. True) (requestSkip E ErrFileTooLarge ?b)"
      using k t by (intro serve_requestSkip [OF s3, of pkt]) simp_all
    show "serve_ok (emit (EvRecvProgress (b_rxInfo b) (b_rxPos b + int (length data))) ?b)"
      using s3 by (intro serve_atI [of _ "sv\<lparr>sv_pos := sv_pos sv + int (length data)\<rparr>"]) (simp_all add: serve_step_def)
  qed (simp_all add: serve_write_other)
qed

lemma serve_closed:
  assumes sv: "serves b = Some sv" "serve_match b sv" "sv_last sv = Some pkt" and t: "pkt_typ pkt = pktEOF"
    and v: "parseOffset (pkt_payload pkt) = Inr v" and rx: "sv_rx sv = hrxData"
    and e: "v < 0 \<and> e \<noteq> None \<or> 0 \<le> v \<and> v = sv_pos sv \<and> e = None \<and> sv_open sv"
  shows "\<exists>sv'. serves (rxCloseFile e b) = Some sv' \<and> sv_last sv' = Some pkt \<and> \<not> sv_open sv' \<and> \<not> b_rxOpen (rxCloseFile e b)
    \<and> (sv_rx sv' = hrxFinfo \<or> sv_rx sv' = hrxData \<and> v < 0) \<and> b_lastRefusedFinfo (rxCloseFile e b) = b_lastRefusedFinfo b"
proof (cases "sv_open sv")
  case True
  have "serves (closeWriter w b') = serves b'" for w b'
    by (cases "serves b'") (simp_all add: closeWriter_def serve_step_def split: option.split)
  moreover have "serves (b\<lparr>b_rxOpen := False\<rparr>) = Some sv" using sv(1) by (simp add: serves_def)
  moreover have "serves (b'\<lparr>b_rxWriter := None\<rparr>) = serves b'" for b' by (simp add: serves_def)
  moreover have "serve_report e sv = Some (sv\<lparr>sv_open := False, sv_rx := hrxFinfo\<rparr>)"
    using sv(3) t v e True by (auto simp: serve_report_def)
  ultimately have "serves (rxCloseFile e b) = Some (sv\<lparr>sv_open := False, sv_rx := hrxFinfo\<rparr>)"
    using sv True by (simp add: rxCloseFile_def Let_def recvCompleted_def serve_step_def serve_match_def)
  then show ?thesis using sv(3)
    by (auto simp: rxCloseFile_def closeWriter_def recvCompleted_def emit_def Let_def split: option.split)
next
  case False
  with sv e rx show ?thesis by (auto simp: rxCloseFile_def serve_match_def)
qed

lemma serve_rxEOF:
  assumes b: "serve_at (\<lambda>sv. sv_last sv = Some pkt) b" and t: "pkt_typ pkt = pktEOF" and rx: "rx_ok b"
  shows "post serve_ok (\<lambda>_. True) (rxEOF E pkt b)"
proof -
  obtain sv where sv: "serves b = Some sv" "serve_match b sv" "sv_last sv = Some pkt" using b by (rule serve_atE)
  note b0 = serve_weaken [OF b]
  have st: "b_rxState b = sv_rx sv" using sv(2) by (simp add: serve_match_def)
  have ack: "post serve_ok (\<lambda>_. True) (batch_write E pktEOFACK [] b')"
    if "serves b' = Some sv'" "sv_last sv' = Some pkt" "\<not> sv_open sv'" "sv_rx sv' = hrxFinfo \<or> sv_rx sv' = hrxData \<and> v < 0"
      "parseOffset (pkt_payload pkt) = Inr v" "serve_match b' (sv'\<lparr>sv_rx := hrxFinfo\<rparr>)" for b' sv' v
    using that t by (intro serve_write [of b' sv' _ _ "sv'\<lparr>sv_rx := hrxFinfo\<rparr>"]) (auto simp: serve_send_def)
  show ?thesis
  proof (cases "sv_rx sv")
    case hrxFinfo
    then have "\<not> sv_open sv" using sv(2) by (auto simp: serve_match_def)
    then have "post serve_ok (\<lambda>_. True) (batch_write E pktEOFACK [] b)"
      using sv hrxFinfo t by (intro serve_write [of b sv _ _ sv]) (simp_all add: serve_send_def)
    with hrxFinfo st show ?thesis by (simp add: rxEOF_def)
  next
    case hrxData
    show ?thesis
    proof (cases "parseOffset (pkt_payload pkt)")
      case (Inl e)
      with b0 hrxData st show ?thesis by (simp add: rxEOF_def)
    next
      case (Inr v)
      show ?thesis
      proof (cases "v < 0 \<or> v = b_rxPos b")
        case False
        with Inr hrxData st serve_badPosition [OF b0] show ?thesis by (simp add: rxEOF_def)
      next
        case True
        define e where "e = (if v < 0 then Some ErrSenderSkip else None)"
        have op: "0 \<le> v \<Longrightarrow> sv_open sv" using True rx st hrxData sv(2)
          by (auto simp: rx_at_def serve_match_def split: if_splits)
        have "v < 0 \<and> e \<noteq> None \<or> 0 \<le> v \<and> v = sv_pos sv \<and> e = None \<and> sv_open sv"
          using True op sv(2) hrxData by (auto simp: e_def serve_match_def)
        from serve_closed [OF sv t Inr hrxData this] obtain sv' where k: "serves (rxCloseFile e b) = Some sv'"
          "sv_last sv' = Some pkt" "\<not> sv_open sv'" "\<not> b_rxOpen (rxCloseFile e b)"
          "sv_rx sv' = hrxFinfo \<or> sv_rx sv' = hrxData \<and> v < 0" "b_lastRefusedFinfo (rxCloseFile e b) = b_lastRefusedFinfo b" by blast
        have "post serve_ok (\<lambda>_. True) (batch_write E pktEOFACK [] (feedBraindead E ((rxCloseFile e b)\<lparr>b_rxPos := n, b_rxState := hrxFinfo\<rparr>)))"
          "post serve_ok (\<lambda>_. True) (batch_write E pktEOFACK [] (feedBraindead E ((rxCloseFile e b)\<lparr>b_rxState := hrxFinfo\<rparr>)))" for n
          using k sv(2) Inr
          by (intro ack [of _ sv' v]; simp add: feedBraindead_def tick_def serves_def serve_match_def)+
        then show ?thesis using True Inr hrxData st by (auto simp: rxEOF_def e_def)
      qed
    qed
  qed (use b0 st in \<open>simp_all add: rxEOF_def\<close>)
qed

subsection \<open>All steps\<close>

lemma serve_packet:
  assumes g: "good_receiver E" and b: "serve_ok b" and rx: "rx_ok b"
  shows "post serve_ok (\<lambda>_. True) (handlePacket E pkt b)"
proof -
  have at: "serve_at (\<lambda>sv. sv_last sv = Some pkt) (emit (EvRecv pkt) b)" by (rule serve_received [OF b])
  then have r: "serve_ok (emit (EvRecv pkt) b)" by (rule serve_weaken)
  have ro: "rx_ok (emit (EvRecv pkt) b)" by (rule rx_at_weaken [OF rx_at_recv [OF rx]])
  have weak: "post serve_ok serve_ok q \<Longrightarrow> post serve_ok (\<lambda>_. True) q" for q
    by (erule post_mono) simp_all
  note tx = weak [OF serve.tx_finfoAck [OF r]] weak [OF serve.tx_rpos [OF r]] weak [OF serve.tx_end [OF r]]
    weak [OF serve.dev_receive [OF r]] serve.tx_dataAck [OF r] serve.tx_eofAck [OF r] serve.tx_idle [OF r] serve.dev_ack [OF r]
  have cond: "post serve_ok (\<lambda>_. True) (if g then fine x else fine y)" if "serve_ok x" "serve_ok y" for g x y
    using that by simp
  show ?thesis
    unfolding handlePacket_def Let_def
    by (simp only: if_split)
      (intro conjI impI cond; simp add: tx r serve_rxInit [OF at] serve_rxFinfo [OF g at] serve_rxData [OF at _ ro] serve_rxEOF [OF at _ ro])
qed

interpretation receiver: batch_invariant E "\<lambda>b. good_receiver E \<longrightarrow> rx_ok b \<and> serve_ok b" "\<lambda>_. True" for E
proof unfold_locales
  fix b pkt assume b: "good_receiver E \<longrightarrow> rx_ok b \<and> serve_ok b"
  show "post (\<lambda>b. good_receiver E \<longrightarrow> rx_ok b \<and> serve_ok b) (\<lambda>_. True) (handlePacket E pkt b)"
    by (rule post_both [OF rx_ok_packet serve_packet]) (use b in simp_all)
next
  fix b r assume b: "good_receiver E \<longrightarrow> rx_ok b \<and> serve_ok b" and r: "txAction E b = Some r"
  show "post (\<lambda>b. good_receiver E \<longrightarrow> rx_ok b \<and> serve_ok b) (\<lambda>_. True) r"
    by (rule post_both [OF rx_ok_txAction [OF _ r] serve.tx_act [OF _ r]]) (use b in simp_all)
next
  fix b assume b: "good_receiver E \<longrightarrow> rx_ok b \<and> serve_ok b"
  show "post (\<lambda>b. good_receiver E \<longrightarrow> rx_ok b \<and> serve_ok b) (\<lambda>_. True) (txTimeout E (b\<lparr>b_txTimer := None\<rparr>))"
    by (rule post_both [OF rx_ok_txTimeout serve.tx_timeout]) (use b in simp_all)
  show "post (\<lambda>b. good_receiver E \<longrightarrow> rx_ok b \<and> serve_ok b) (\<lambda>_. True) (devTimeout (b\<lparr>b_devTimer := None\<rparr>))"
    by (rule post_both [OF rx_ok_devices(1) serve.dev_timeout]) (use b in simp_all)
  show "post (\<lambda>b. good_receiver E \<longrightarrow> rx_ok b \<and> serve_ok b) (\<lambda>_. True) (devAction E b)"
    by (rule post_both [OF rx_ok_devAction serve.dev_action]) (use b in simp_all)
qed (simp_all add: rx_ok_absorb serve.outside rx_ok_tx_blocks(4) rx_ok_sync serve.tx_synced)

lemma serve_start_ok: "s_log s = [] \<Longrightarrow> serve_ok (batch_start E s)"
proof -
  assume "s_log s = []"
  then have "serve_ok (newBatch s)"
    by (simp add: serve_at_def serve_match_def serves_def newBatch_def session.defs serve_trace_def serve_start_def Let_def)
  then show ?thesis by (simp add: batch_start_def)
qed

end
