(* ===== verification/Hydra_Link.thy ===== *)
theory Hydra_Link
  imports Hydra_Flow Hydra_Serve
begin

section \<open>Two sessions and the channels between them\<close>

text \<open>
  What each application saw of the files, read off its log; the network of two event loops; and the
  five ways the current file can stand for both sides and the packets on their way, kept by
  every event of either automaton (\<open>Hydra_Flow\<close>, \<open>Hydra_Serve\<close>) and by every loss.
\<close>

subsection \<open>What the two applications saw\<close>

record sentFile =
  sf_offer :: FileOffer
  sf_result :: "err option option"

record rcvdFile =
  rf_info :: FileInfo
  rf_start :: int
  rf_data :: "byte list"
  rf_result :: "err option option"

definition change_last :: "('a \<Rightarrow> 'a) \<Rightarrow> 'a list \<Rightarrow> 'a list" where
  "change_last f xs = (if xs = [] then [] else butlast xs @ [f (last xs)])"

text \<open>
  The files \<open>NextFile\<close> offered and the program took, with the error \<open>FileCompleted\<close> was called
  with, once it was.
\<close>

definition sent_event :: "sentFile list \<Rightarrow> event \<Rightarrow> sentFile list" where
  "sent_event fs e =
     (case e of
        EvNextFile (Some ofr) \<Rightarrow> if usable ofr then fs @ [\<lparr>sf_offer = ofr, sf_result = None\<rparr>] else fs
      | EvSendCompleted i n r \<Rightarrow> change_last (\<lambda>f. if sf_result f = None then f\<lparr>sf_result := Some r\<rparr> else f) fs
      | _ \<Rightarrow> fs)"

definition sent_files :: "event list \<Rightarrow> sentFile list" where
  "sent_files es = foldl sent_event [] es"

text \<open>The files \<open>AcceptFile\<close> took, the offset it named, the bytes written since.\<close>

definition rcvd_event :: "rcvdFile list \<Rightarrow> event \<Rightarrow> rcvdFile list" where
  "rcvd_event fs e =
     (case e of
        EvAccept info w off herr \<Rightarrow>
          if w \<noteq> None \<and> herr = None then fs @ [\<lparr>rf_info = info, rf_start = off, rf_data = [], rf_result = None\<rparr>] else fs
      | EvWrite h data r \<Rightarrow> if r = None then change_last (\<lambda>f. f\<lparr>rf_data := rf_data f @ data\<rparr>) fs else fs
      | EvRecvCompleted i n r \<Rightarrow> change_last (\<lambda>f. if rf_result f = None then f\<lparr>rf_result := Some r\<rparr> else f) fs
      | _ \<Rightarrow> fs)"

definition rcvd_files :: "event list \<Rightarrow> rcvdFile list" where
  "rcvd_files es = foldl rcvd_event [] es"

lemma files_snoc [simp]:
  "sent_files (es @ [e]) = sent_event (sent_files es) e" "rcvd_files (es @ [e]) = rcvd_event (rcvd_files es) e"
  "sent_files [] = []" "rcvd_files [] = []"
  by (simp_all add: sent_files_def rcvd_files_def)

lemma change_last_simps [simp]:
  "change_last f [] = []" "change_last f (xs @ [x]) = xs @ [f x]"
  by (simp_all add: change_last_def)

lemma change_last_length [simp]: "length (change_last f xs) = length xs"
  by (simp add: change_last_def)

lemma change_last_Nil [simp]: "change_last f xs = [] \<longleftrightarrow> xs = []"
  by (simp add: change_last_def)

lemma change_last_last [simp]: "xs \<noteq> [] \<Longrightarrow> last (change_last f xs) = f (last xs)"
  by (simp add: change_last_def)

lemma change_last_nth:
  "i < length xs \<Longrightarrow> change_last f xs ! i = (if Suc i = length xs then f (xs ! i) else xs ! i)"
  by (cases xs rule: rev_cases) (auto simp: nth_append)

lemma change_last_id: "xs = [] \<or> f (last xs) = last xs \<Longrightarrow> change_last f xs = xs"
  by (cases xs rule: rev_cases) auto

subsection \<open>The network\<close>

definition taken :: "event list \<Rightarrow> packet list" where
  \<comment> \<open>the packets the event loop took from the channel\<close>
  "taken es = concat (map (\<lambda>e. case e of EvRecv p \<Rightarrow> [p] | _ \<Rightarrow> []) es)"

definition put :: "event list \<Rightarrow> packet list" where
  \<comment> \<open>the packets the transport took\<close>
  "put es = concat (map (\<lambda>e. case e of EvSend f None \<Rightarrow> [sn_packet f] | _ \<Rightarrow> []) es)"

definition new_events :: "batch \<Rightarrow> batch \<Rightarrow> event list" where
  "new_events b b' = drop (length (s_log b)) (s_log b')"

record net =
  nt_snd :: batch
  nt_rcv :: batch
  nt_down :: "packet list"
  nt_up :: "packet list"

inductive nstep :: "env \<Rightarrow> env \<Rightarrow> net \<Rightarrow> net \<Rightarrow> bool" for Es Er where
  nt_sender: "bstep Es (nt_snd n) a \<Longrightarrow> nt_up n = taken (new_events (nt_snd n) a) @ rest \<Longrightarrow>
    nstep Es Er n (n\<lparr>nt_snd := a, nt_up := rest, nt_down := nt_down n @ put (new_events (nt_snd n) a)\<rparr>)"
| nt_receiver: "bstep Er (nt_rcv n) b \<Longrightarrow> nt_down n = taken (new_events (nt_rcv n) b) @ rest \<Longrightarrow>
    nstep Es Er n (n\<lparr>nt_rcv := b, nt_down := rest, nt_up := nt_up n @ put (new_events (nt_rcv n) b)\<rparr>)"
| nt_lose_down: "nt_down n = ps @ p # qs \<Longrightarrow> nstep Es Er n (n\<lparr>nt_down := ps @ qs\<rparr>)"
| nt_lose_up: "nt_up n = ps @ p # qs \<Longrightarrow> nstep Es Er n (n\<lparr>nt_up := ps @ qs\<rparr>)"

definition nt_start :: "env \<Rightarrow> env \<Rightarrow> session \<Rightarrow> session \<Rightarrow> net" where
  "nt_start Es Er s r = \<lparr>nt_snd = batch_start Es s, nt_rcv = batch_start Er r, nt_down = [], nt_up = []\<rparr>"

lemma channel_simps [simp]:
  "taken [] = []" "put [] = []" "taken (es @ fs) = taken es @ taken fs" "put (es @ fs) = put es @ put fs"
  by (simp_all add: taken_def put_def)

subsection \<open>The log only grows\<close>

text \<open>
  Growth of the log looks at no field but the log and tolerates every event, so it is an
  invariant of either machine's side, and the two sides together cover every operation.
\<close>

definition extends :: "event list \<Rightarrow> batch \<Rightarrow> bool" where
  "extends l b \<longleftrightarrow> (\<exists>es. s_log b = l @ es)"

interpretation grow_rx: tx_side "extends l" for l
  by unfold_locales (auto simp: extends_def tx_fields_def emit_def)

interpretation grow_tx: rx_side "extends l" for l
  by unfold_locales (auto simp: extends_def rx_fields_def emit_def)

interpretation grow: batch_invariant E "extends l" "\<lambda>_. True" for E l
proof unfold_locales
  have weak: "post (extends l) (extends l) q \<Longrightarrow> post (extends l) (\<lambda>_. True) q" for q
    by (erule post_mono) simp_all
  fix b pkt r
  assume b: "extends l b"
  then have e: "extends l (emit (EvRecv pkt) b)" by (auto simp: extends_def emit_def)
  show "post (extends l) (\<lambda>_. True) (handlePacket E pkt b)"
    unfolding handlePacket_def Let_def
    by (simp only: if_split, intro conjI impI)
      (simp_all add: e weak [OF grow_rx.rx_init] weak [OF grow_rx.rx_announced] weak [OF grow_rx.rx_data] weak [OF grow_rx.rx_eof]
        weak [OF grow_tx.tx_finfoAck] weak [OF grow_tx.tx_rpos] weak [OF grow_tx.tx_end] weak [OF grow_rx.dev_receive]
        grow_tx.tx_dataAck grow_tx.tx_eofAck grow_tx.tx_idle grow_rx.dev_ack)
  show "txAction E b = Some r \<Longrightarrow> post (extends l) (\<lambda>_. True) r" by (rule weak [OF grow_tx.tx_act [OF b]])
  show "post (extends l) (\<lambda>_. True) (txTimeout E (b\<lparr>b_txTimer := None\<rparr>))"
    "post (extends l) (\<lambda>_. True) (devTimeout (b\<lparr>b_devTimer := None\<rparr>))" "post (extends l) (\<lambda>_. True) (devAction E b)"
    using b by (simp_all add: weak grow_tx.tx_timeout grow_rx.dev_timeout grow_rx.dev_action)
qed (simp_all add: grow_rx.outside grow_tx.tx_synced)

lemma bstep_log: "bstep E b b' \<Longrightarrow> s_log b' = s_log b @ new_events b b'"
  using grow.bstep_keeps [of E b b' "s_log b"] by (auto simp: extends_def new_events_def)

subsection \<open>The sender's log\<close>

definition pending :: "flow \<Rightarrow> bool" where
  "pending fw \<longleftrightarrow> fw_ph fw = Asking \<or> fw_ph fw = Sending"

definition offers_match :: "flow \<Rightarrow> sentFile list \<Rightarrow> bool" where
  "offers_match fw S \<longleftrightarrow> map sf_offer S = fw_offers fw \<and> (\<forall>ofr \<in> set (fw_offers fw). usable ofr \<and> 0 \<notin> set (fo_Path ofr))
     \<and> (if pending fw then S \<noteq> [] \<and> sf_result (last S) = None else S = [] \<or> sf_result (last S) \<noteq> None)"

lemma flow_send_keeps:
  "flow_send sp fw t p = Some fw' \<Longrightarrow> fw_ph fw' = fw_ph fw \<and> fw_offers fw' = fw_offers fw \<and> fw_up fw' = fw_up fw \<and> fw_last fw' = fw_last fw
     \<and> (fw_skip fw \<longrightarrow> fw_skip fw')"
  by (auto simp: flow_send_def split: if_splits sum.splits)

lemma flow_recv_keeps:
  "fw_offers (flow_recv p fw) = fw_offers fw" "pending (flow_recv p fw) = pending fw" "fw_skip (flow_recv p fw) = fw_skip fw"
  "fw_last (flow_recv p fw) = Some p"
  by (auto simp: flow_recv_def pending_def split: flow_phase.split sum.split)

lemma offers_match_step:
  assumes m: "offers_match fw S" and st: "flow_step c sp fw e = Some fw'"
  shows "offers_match fw' (sent_event S e)"
proof (cases e)
  case (EvRecv p)
  with m st show ?thesis by (auto simp: offers_match_def sent_event_def flow_recv_keeps)
next
  case (EvSend f r)
  with m st show ?thesis
    using flow_send_keeps [of sp fw "pkt_typ (sn_packet f)" "pkt_payload (sn_packet f)" fw']
    by (auto simp: offers_match_def sent_event_def flow_step_def pending_def)
next
  case (EvNextFile a)
  show ?thesis
  proof (cases a)
    case None
    with EvNextFile m st show ?thesis by (auto simp: offers_match_def sent_event_def flow_step_def pending_def split: if_splits)
  next
    case (Some ofr)
    with EvNextFile m st show ?thesis by (auto simp: offers_match_def sent_event_def flow_step_def pending_def split: if_splits)
  qed
next
  case (EvSendCompleted i n r)
  have offers: "map sf_offer (change_last (\<lambda>f. if sf_result f = None then f\<lparr>sf_result := Some r\<rparr> else f) S) = map sf_offer S"
    by (cases S rule: rev_cases) auto
  show ?thesis
  proof (cases "pending fw")
    case True
    with EvSendCompleted st have "fw_offers fw' = fw_offers fw" "\<not> pending fw'"
      by (auto simp: flow_step_def pending_def split: if_splits option.splits sum.splits)
    with True EvSendCompleted m offers show ?thesis by (simp add: offers_match_def sent_event_def)
  next
    case False
    with EvSendCompleted st have "fw' = fw" by (auto simp: flow_step_def pending_def split: flow_phase.splits)
    moreover have "sent_event S e = S"
      using False m EvSendCompleted by (auto simp: sent_event_def offers_match_def intro!: change_last_id)
    ultimately show ?thesis using m by simp
  qed
next
  case (EvRead h buf r)
  with m st show ?thesis by (auto simp: sent_event_def flow_step_def split: send_phase.splits option.splits if_splits)
qed (use m st in \<open>simp_all add: sent_event_def flow_step_def\<close>)

lemma offers_match_trace: "flow_trace c es = Some fw \<Longrightarrow> offers_match fw (sent_files es)"
proof (induction es arbitrary: fw rule: rev_induct)
  case Nil
  then show ?case by (auto simp: flow_start_def offers_match_def pending_def)
next
  case (snoc e es)
  then obtain sp fw0 where "flow_trace c es = Some fw0" "flow_step c sp fw0 e = Some fw"
    by (auto simp: flow_trace_snoc bind_eq_Some_conv)
  with snoc.IH show ?case by (simp add: offers_match_step)
qed

text \<open>What the sender last read is a piece of the file.\<close>

definition segment :: "byte list \<Rightarrow> int \<Rightarrow> byte list \<Rightarrow> bool" where
  "segment content p buf \<longleftrightarrow> 0 \<le> p \<and> buf = take (length buf) (drop (nat p) content)"

definition seg_ok :: "byte list \<Rightarrow> send_phase \<Rightarrow> bool" where
  "seg_ok content sp \<longleftrightarrow> (case sp of SIdle \<Rightarrow> True
     | SFile ofr h pos blk \<Rightarrow> (\<forall>p. pos = Some p \<longrightarrow> 0 \<le> p)
         \<and> (\<forall>p buf. blk = Some (p, buf) \<longrightarrow> segment content p buf \<and> (pos \<noteq> None \<and> buf = [] \<longrightarrow> drop (nat p) content = [])))"

lemma seg_ok_step:
  assumes sp: "send_step sp e = Some sp'" and fw: "flow_step c sp fw e = Some fw'"
    and ok: "seg_ok (c (length (fw_offers fw) - 1)) sp"
  shows "seg_ok (c (length (fw_offers fw') - 1)) sp'"
proof (cases e)
  case (EvNextFile a)
  with sp have "sp' = SIdle \<or> (\<exists>ofr h. sp' = SFile ofr h (Some 0) None)"
    by (cases sp; cases a) auto
  then show ?thesis by (auto simp: seg_ok_def)
next
  case (EvSendCompleted i n r)
  with sp have "sp' = SIdle" by (cases sp) (auto split: if_splits)
  then show ?thesis by (simp add: seg_ok_def)
next
  case (EvRecv p)
  with sp fw ok show ?thesis by (cases sp) (auto simp: flow_recv_keeps)
next
  case (EvSend f r)
  have "fw_offers fw' = fw_offers fw"
    using EvSend fw flow_send_keeps [of sp fw "pkt_typ (sn_packet f)" "pkt_payload (sn_packet f)" fw'] by (simp add: flow_step_def)
  moreover have "sp' = sp" using sp EvSend by (cases sp) (auto split: if_splits)
  ultimately show ?thesis using ok by simp
next
  case (EvRead h buf r)
  with sp obtain ofr hk p blk where s: "sp = SFile ofr hk (Some p) blk"
    "sp' = SFile ofr hk (if r = None \<or> r = Some IoEOF \<or> r = Some IoUnexpectedEOF then Some (p + int (length buf)) else None) (Some (p, buf))"
    by (cases sp) (auto split: option.splits if_splits)
  with fw EvRead have "fw' = fw" "reads_from (c (length (fw_offers fw) - 1)) p buf r"
    by (auto simp: flow_step_def split: if_splits)
  with ok s show ?thesis by (auto simp: seg_ok_def segment_def reads_from_def read_ok_def)
next
  case (EvSeek h off r)
  with sp fw ok show ?thesis by (cases sp) (auto simp: seg_ok_def flow_step_def split: if_splits)
next
  case (EvSendProgress i n)
  with sp fw ok show ?thesis by (cases sp) (auto simp: flow_step_def split: if_splits)
next
  case (EvOfferClose f)
  with sp fw ok show ?thesis by (cases sp) (auto simp: seg_ok_def flow_step_def split: if_splits)
qed (use sp fw ok in \<open>cases sp; auto simp: flow_step_def\<close>)+

lemma seg_ok_trace:
  "flow_trace c es = Some fw \<Longrightarrow> send_trace es = Some sp \<Longrightarrow> seg_ok (c (length (fw_offers fw) - 1)) sp"
proof (induction es arbitrary: fw sp rule: rev_induct)
  case Nil
  then show ?case by (simp add: send_trace_def seg_ok_def)
next
  case (snoc e es)
  then obtain sp0 fw0 where "send_trace es = Some sp0" "flow_trace c es = Some fw0" "flow_step c sp0 fw0 e = Some fw" "send_step sp0 e = Some sp"
    by (auto simp: flow_trace_snoc send_trace_snoc bind_eq_Some_conv)
  with snoc.IH show ?case by (blast intro: seg_ok_step)
qed

subsection \<open>How the two machines and the channels stand together\<close>

definition without :: "byte list \<Rightarrow> packet \<Rightarrow> bool" where
  "without ts p \<longleftrightarrow> pkt_typ p \<notin> set ts"

abbreviation no_finfo where "no_finfo \<equiv> without [pktFINFO]"
abbreviation no_data where "no_data \<equiv> without [pktDATA, pktEOF]"
abbreviation no_finfoAck where "no_finfoAck \<equiv> without [pktFINFOACK]"
abbreviation no_eofAck where "no_eofAck \<equiv> without [pktEOFACK]"

definition asks :: "FileOffer \<Rightarrow> packet \<Rightarrow> bool" where
  "asks ofr p \<longleftrightarrow> no_data p \<and> (pkt_typ p = pktFINFO \<longrightarrow> announces ofr (pkt_payload p))"

definition carries :: "byte list \<Rightarrow> bool \<Rightarrow> packet \<Rightarrow> bool" where
  \<comment> \<open>data of the file, and its end; \<open>skip\<close>: the sender gave the file up\<close>
  "carries content skip p \<longleftrightarrow> no_finfo p
     \<and> (pkt_typ p = pktDATA \<longrightarrow> (\<forall>off d. parseData (pkt_payload p) = Inr (off, d) \<longrightarrow> segment content off d))
     \<and> (pkt_typ p = pktEOF \<longrightarrow> (\<forall>v. parseOffset (pkt_payload p) = Inr v \<longrightarrow>
          (if v < 0 then skip else drop (nat v) content = [])))"

definition agrees :: "packet \<Rightarrow> bool" where
  "agrees p \<longleftrightarrow> no_eofAck p \<and> (pkt_typ p = pktFINFOACK \<longrightarrow> (\<exists>v. parseOffset (pkt_payload p) = Inr v \<and> 0 \<le> v))"

text \<open>
  The five ways the current file can stand, for the packets \<open>X\<close> on their way to the receiver and
  \<open>Y\<close> on their way to the sender, each with the last one taken.
\<close>

definition st_between :: "flow \<Rightarrow> serve \<Rightarrow> rcvdFile list \<Rightarrow> packet list \<Rightarrow> packet list \<Rightarrow> bool" where
  "st_between fw sv R X Y \<longleftrightarrow> length R = length (fw_offers fw) \<and> (sv_rx sv = hrxInit \<or> sv_rx sv = hrxFinfo)
     \<and> list_all no_finfo X \<and> list_all no_finfoAck Y"

definition st_asked :: "flow \<Rightarrow> serve \<Rightarrow> rcvdFile list \<Rightarrow> packet list \<Rightarrow> packet list \<Rightarrow> bool" where
  "st_asked fw sv R X Y \<longleftrightarrow> Suc (length R) = length (fw_offers fw) \<and> sv_rx sv = hrxFinfo
     \<and> phased no_finfo (asks (last (fw_offers fw))) X \<and> list_all no_finfoAck Y"

definition st_opened :: "flow \<Rightarrow> serve \<Rightarrow> rcvdFile list \<Rightarrow> packet list \<Rightarrow> packet list \<Rightarrow> bool" where
  "st_opened fw sv R X Y \<longleftrightarrow> length R = length (fw_offers fw) \<and> sv_rx sv = hrxData \<and> sv_open sv \<and> 0 \<le> sv_pos sv \<and> sv_pos sv \<le> SafeMaxOffset
     \<and> list_all (asks (last (fw_offers fw))) X \<and> phased no_finfoAck agrees Y"

definition st_moving :: "(nat \<Rightarrow> byte list) \<Rightarrow> flow \<Rightarrow> serve \<Rightarrow> rcvdFile list \<Rightarrow> packet list \<Rightarrow> packet list \<Rightarrow> bool" where
  "st_moving c fw sv R X Y \<longleftrightarrow> length R = length (fw_offers fw) \<and> sv_rx sv = hrxData
     \<and> phased no_data (carries (c (length R - 1)) (fw_skip fw)) X \<and> list_all no_eofAck Y"

definition st_closed :: "flow \<Rightarrow> serve \<Rightarrow> rcvdFile list \<Rightarrow> packet list \<Rightarrow> packet list \<Rightarrow> bool" where
  "st_closed fw sv R X Y \<longleftrightarrow> length R = length (fw_offers fw) \<and> sv_rx sv = hrxFinfo
     \<and> list_all no_finfo X \<and> phased no_eofAck no_finfoAck Y \<and> (rf_result (last R) = Some None \<or> fw_skip fw)"

definition st_over :: "flow \<Rightarrow> serve \<Rightarrow> rcvdFile list \<Rightarrow> packet list \<Rightarrow> bool" where
  "st_over fw sv R X \<longleftrightarrow> length R = length (fw_offers fw) \<and> (sv_rx sv = hrxFinfo \<or> sv_rx sv = hrxDone)
     \<and> list_all (\<lambda>p. pkt_typ p = pktFINFO \<longrightarrow> pkt_payload p = finfoEOB) X"

definition linked :: "(nat \<Rightarrow> byte list) \<Rightarrow> flow \<Rightarrow> serve \<Rightarrow> rcvdFile list \<Rightarrow> packet list \<Rightarrow> packet list \<Rightarrow> bool" where
  "linked c fw sv R X Y \<longleftrightarrow>
     list_all (\<lambda>p. pkt_typ p = pktINIT \<longrightarrow> ok (parseInit (pkt_payload p))) X
     \<and> (fw_up fw \<or> \<not> list_all (without [pktINITACK]) Y \<longrightarrow> sv_rx sv \<noteq> hrxInit)
     \<and> (sv_open sv \<longrightarrow> sv_rx sv = hrxData)
     \<and> (case fw_ph fw of
          Gap \<Rightarrow> st_between fw sv R X Y
        | Asking \<Rightarrow> st_asked fw sv R X Y \<or> st_opened fw sv R X Y
        | Sending \<Rightarrow> st_moving c fw sv R X Y \<or> st_closed fw sv R X Y
        | AskingEnd \<Rightarrow> st_over fw sv R X
        | Over \<Rightarrow> st_over fw sv R X)"

lemmas standing_defs = st_between_def st_asked_def st_opened_def st_moving_def st_closed_def st_over_def

text \<open>Losing a packet, on either way.\<close>

lemma standing_lose_down:
  "st_between fw sv R (xs @ x # ys) Y \<Longrightarrow> st_between fw sv R (xs @ ys) Y"
  "st_asked fw sv R (xs @ x # ys) Y \<Longrightarrow> st_asked fw sv R (xs @ ys) Y"
  "st_opened fw sv R (xs @ x # ys) Y \<Longrightarrow> st_opened fw sv R (xs @ ys) Y"
  "st_moving c fw sv R (xs @ x # ys) Y \<Longrightarrow> st_moving c fw sv R (xs @ ys) Y"
  "st_closed fw sv R (xs @ x # ys) Y \<Longrightarrow> st_closed fw sv R (xs @ ys) Y"
  "st_over fw sv R (xs @ x # ys) \<Longrightarrow> st_over fw sv R (xs @ ys)"
  by (auto simp: standing_defs dest: phased_lose)

lemma standing_lose_up:
  "st_between fw sv R X (xs @ y # ys) \<Longrightarrow> st_between fw sv R X (xs @ ys)"
  "st_asked fw sv R X (xs @ y # ys) \<Longrightarrow> st_asked fw sv R X (xs @ ys)"
  "st_opened fw sv R X (xs @ y # ys) \<Longrightarrow> st_opened fw sv R X (xs @ ys)"
  "st_moving c fw sv R X (xs @ y # ys) \<Longrightarrow> st_moving c fw sv R X (xs @ ys)"
  "st_closed fw sv R X (xs @ y # ys) \<Longrightarrow> st_closed fw sv R X (xs @ ys)"
  by (auto simp: standing_defs dest: phased_lose)

lemma linked_lose_down: "linked c fw sv R (xs @ x # ys) Y \<Longrightarrow> linked c fw sv R (xs @ ys) Y"
  by (cases "fw_ph fw") (simp_all add: linked_def, (blast intro: standing_lose_down)+)

lemma linked_lose_up: "linked c fw sv R X (xs @ y # ys) \<Longrightarrow> linked c fw sv R X (xs @ ys)"
  by (cases "fw_ph fw") (simp_all add: linked_def, (blast intro: standing_lose_up)+)

definition ahead :: "packet option \<Rightarrow> packet list \<Rightarrow> packet list" where
  "ahead l ps = (case l of None \<Rightarrow> ps | Some p \<Rightarrow> p # ps)"

lemma linked_next_down: "linked c fw sv R (ahead l ps) Y \<Longrightarrow> linked c fw sv R ps Y"
  using linked_lose_down [of c fw sv R "[]" _ ps Y] by (auto simp: ahead_def split: option.splits)

lemma linked_next_up: "linked c fw sv R X (ahead l ps) \<Longrightarrow> linked c fw sv R X ps"
  using linked_lose_up [of c fw sv R X "[]" _ ps] by (auto simp: ahead_def split: option.splits)

lemma phased_head: "phased P Q (x # xs) \<Longrightarrow> \<not> P x \<Longrightarrow> Q x \<and> list_all Q xs"
  using phased_Cons [of P Q x xs] by blast

lemma standing_last [simp]:
  "st_between fw (sv\<lparr>sv_last := l\<rparr>) R X Y = st_between fw sv R X Y" "st_asked fw (sv\<lparr>sv_last := l\<rparr>) R X Y = st_asked fw sv R X Y"
  "st_opened fw (sv\<lparr>sv_last := l\<rparr>) R X Y = st_opened fw sv R X Y" "st_moving c fw (sv\<lparr>sv_last := l\<rparr>) R X Y = st_moving c fw sv R X Y"
  "st_closed fw (sv\<lparr>sv_last := l\<rparr>) R X Y = st_closed fw sv R X Y" "st_over fw (sv\<lparr>sv_last := l\<rparr>) R X = st_over fw sv R X"
  by (simp_all add: standing_defs)

lemma linked_last [simp]: "linked c fw (sv\<lparr>sv_last := l\<rparr>) R X Y = linked c fw sv R X Y"
  by (cases "fw_ph fw") (simp_all add: linked_def)

subsection \<open>Events of the sender\<close>

lemma linked_recv:
  assumes l: "linked c fw sv R X (p # ba)"
  shows "linked c (flow_recv p fw) sv R X (p # ba)"
proof (cases "pkt_typ p = pktFINFOACK")
  case False
  then have r: "flow_recv p fw = fw\<lparr>fw_last := Some p, fw_up := (fw_up fw \<or> pkt_typ p = pktINITACK)\<rparr>" by (simp add: flow_recv_def)
  from l show ?thesis unfolding r linked_def standing_defs
    by (cases "fw_ph fw") (auto simp: without_def)
next
  case True
  show ?thesis
  proof (cases "fw_ph fw")
    case Gap
    with l True show ?thesis by (auto simp: linked_def st_between_def without_def)
  next
    case Asking
    with l True have o: "st_opened fw sv R X (p # ba)" by (auto simp: linked_def st_asked_def without_def)
    then have "agrees p \<and> list_all agrees ba"
      using True phased_head [of no_finfoAck agrees p ba] by (simp add: st_opened_def without_def)
    then obtain v where v: "parseOffset (pkt_payload p) = Inr v" "0 \<le> v" "list_all no_eofAck (p # ba)"
      using True by (auto simp: agrees_def without_def list_all_iff)
    with Asking True have r: "flow_recv p fw = fw\<lparr>fw_last := Some p, fw_up := fw_up fw, fw_ph := Sending\<rparr>" by (simp add: flow_recv_def)
    have "list_all no_data X" using o by (auto simp: st_opened_def asks_def elim: list.pred_mono_strong)
    then have "st_moving c (flow_recv p fw) sv R X (p # ba)"
      using o v by (simp add: r st_opened_def st_moving_def phased_all)
    with l True Asking show ?thesis by (simp add: linked_def r without_def)
  qed (use l True in \<open>auto simp: linked_def standing_defs flow_recv_def without_def\<close>)
qed

lemma carries_skip: "carries content s p \<Longrightarrow> (s \<longrightarrow> s') \<Longrightarrow> carries content s' p"
  by (auto simp: carries_def)

lemma phased_mono: "phased P Q xs \<Longrightarrow> (\<And>x. Q x \<Longrightarrow> Q' x) \<Longrightarrow> phased P Q' xs"
  unfolding phased_def by (blast intro: list.pred_mono_strong)

lemma linked_skip:
  assumes l: "linked c fw sv R X Y" and s: "fw_skip fw \<longrightarrow> fw_skip fw'" and k: "fw_ph fw' = fw_ph fw" "fw_offers fw' = fw_offers fw" "fw_up fw' = fw_up fw"
  shows "linked c fw' sv R X Y"
proof -
  have "phased no_data (carries (c (length R - 1)) (fw_skip fw)) X \<Longrightarrow> phased no_data (carries (c (length R - 1)) (fw_skip fw')) X"
    using s by (elim phased_mono) (rule carries_skip)
  with l s k show ?thesis unfolding linked_def standing_defs by (cases "fw_ph fw") auto
qed

text \<open>A packet joins the way down.\<close>

definition fits_down :: "(nat \<Rightarrow> byte list) \<Rightarrow> flow \<Rightarrow> packet \<Rightarrow> bool" where
  "fits_down c fw q \<longleftrightarrow> (pkt_typ q = pktINIT \<longrightarrow> ok (parseInit (pkt_payload q)))
     \<and> (pkt_typ q = pktFINFO \<longrightarrow> fw_ph fw = Asking \<and> announces (last (fw_offers fw)) (pkt_payload q)
          \<or> fw_ph fw = AskingEnd \<and> pkt_payload q = finfoEOB)
     \<and> (pkt_typ q = pktDATA \<or> pkt_typ q = pktEOF \<longrightarrow> fw_ph fw = Sending \<and> carries (c (length (fw_offers fw) - 1)) (fw_skip fw) q)"

lemma standing_send:
  "st_between fw sv R X Y \<Longrightarrow> no_finfo q \<Longrightarrow> st_between fw sv R (X @ [q]) Y"
  "st_asked fw sv R X Y \<Longrightarrow> asks (last (fw_offers fw)) q \<Longrightarrow> st_asked fw sv R (X @ [q]) Y"
  "st_opened fw sv R X Y \<Longrightarrow> asks (last (fw_offers fw)) q \<Longrightarrow> st_opened fw sv R (X @ [q]) Y"
  "st_moving c fw sv R X Y \<Longrightarrow> carries (c (length R - 1)) (fw_skip fw) q \<Longrightarrow> st_moving c fw sv R (X @ [q]) Y"
  "st_closed fw sv R X Y \<Longrightarrow> no_finfo q \<Longrightarrow> st_closed fw sv R (X @ [q]) Y"
  "st_over fw sv R X \<Longrightarrow> (pkt_typ q = pktFINFO \<longrightarrow> pkt_payload q = finfoEOB) \<Longrightarrow> st_over fw sv R (X @ [q])"
  by (auto simp: standing_defs phased_snoc)

lemma linked_send:
  assumes l: "linked c fw sv R X Y" and q: "fits_down c fw q"
  shows "linked c fw sv R (X @ [q]) Y"
proof (cases "fw_ph fw")
  case Gap
  with l q show ?thesis by (auto simp: linked_def fits_down_def without_def intro: standing_send)
next
  case Asking
  with q have "asks (last (fw_offers fw)) q" by (auto simp: fits_down_def asks_def without_def)
  with Asking l q show ?thesis by (auto simp: linked_def fits_down_def intro: standing_send)
next
  case Sending
  with q have c: "carries (c (length (fw_offers fw) - 1)) (fw_skip fw) q" by (auto simp: fits_down_def carries_def without_def)
  then have "no_finfo q" by (simp add: carries_def)
  moreover have "st_moving c fw sv R X Y \<Longrightarrow> carries (c (length R - 1)) (fw_skip fw) q" using c by (simp add: st_moving_def)
  moreover have "st_moving c fw sv R X Y \<or> st_closed fw sv R X Y" using Sending l by (simp add: linked_def)
  ultimately have "st_moving c fw sv R (X @ [q]) Y \<or> st_closed fw sv R (X @ [q]) Y"
    using standing_send(4,5) by blast
  with Sending l q show ?thesis by (simp add: linked_def fits_down_def)
next
  case AskingEnd
  with l q show ?thesis by (auto simp: linked_def fits_down_def intro: standing_send)
next
  case Over
  with l q show ?thesis by (auto simp: linked_def fits_down_def intro: standing_send)
qed

lemma list_all_impl: "list_all P xs \<Longrightarrow> (\<And>x. P x \<Longrightarrow> Q x) \<Longrightarrow> list_all Q xs"
  by (auto simp: list_all_iff)

lemma linked_next_file:
  assumes l: "linked c fw sv R X Y" and g: "fw_ph fw = Gap" "fw_up fw"
  shows "linked c (fw\<lparr>fw_ph := AskingEnd\<rparr>) sv R X Y"
    and "linked c (fw\<lparr>fw_ph := Asking, fw_skip := False, fw_offers := fw_offers fw @ [ofr]\<rparr>) sv R X Y"
proof -
  have b: "st_between fw sv R X Y" and rx: "sv_rx sv = hrxFinfo" using l g by (auto simp: linked_def st_between_def)
  have "list_all (\<lambda>p. pkt_typ p = pktFINFO \<longrightarrow> pkt_payload p = finfoEOB) X"
    using b by (auto simp: st_between_def without_def list_all_iff)
  with l g b rx show "linked c (fw\<lparr>fw_ph := AskingEnd\<rparr>) sv R X Y"
    by (simp add: linked_def st_between_def st_over_def)
  show "linked c (fw\<lparr>fw_ph := Asking, fw_skip := False, fw_offers := fw_offers fw @ [ofr]\<rparr>) sv R X Y"
    using l g b rx by (simp add: linked_def st_between_def st_asked_def phased_all)
qed

lemma linked_completed:
  assumes l: "linked c fw sv R X (ahead (fw_last fw) ba)" and st: "flow_step c sp fw (EvSendCompleted i n r) = Some fw'"
  shows "linked c fw' sv R X (ahead (fw_last fw') ba)"
    and "pending fw \<Longrightarrow> r = None \<Longrightarrow> length R = length (fw_offers fw) \<and> rf_result (last R) = Some None"
proof -
  have "linked c fw' sv R X (ahead (fw_last fw') ba) \<and>
      (pending fw \<longrightarrow> r = None \<longrightarrow> length R = length (fw_offers fw) \<and> rf_result (last R) = Some None)"
  proof (cases "fw_ph fw")
    case Gap
    with l st show ?thesis by (simp add: flow_step_def pending_def)
  next
    case Asking
    with st obtain p v where p: "fw_last fw = Some p" "pkt_typ p = pktFINFOACK" "parseOffset (pkt_payload p) = Inr v" "v < 0"
      by (auto simp: flow_step_def split: option.splits sum.splits if_splits)
    with Asking l have "st_opened fw sv R X (p # ba)" by (auto simp: linked_def st_asked_def without_def ahead_def)
    then have "agrees p" using p phased_head [of no_finfoAck agrees p ba] by (simp add: st_opened_def without_def)
    with p show ?thesis by (simp add: agrees_def)
  next
    case Sending
    with st obtain p where p: "fw_last fw = Some p" "pkt_typ p = pktEOFACK" "r = None \<longrightarrow> \<not> fw_skip fw"
      "fw' = fw\<lparr>fw_ph := Gap, fw_done := fw_done fw @ [r]\<rparr>"
      by (auto simp: flow_step_def split: if_splits)
    with Sending l have c: "st_closed fw sv R X (p # ba)" by (auto simp: linked_def st_moving_def without_def ahead_def)
    then have "list_all no_finfoAck (p # ba)"
      using p phased_head [of no_eofAck no_finfoAck p ba] by (simp add: st_closed_def without_def)
    with c Sending l p show ?thesis
      by (auto simp: linked_def st_closed_def st_between_def ahead_def)
  qed (use st in \<open>simp_all add: flow_step_def\<close>)
  then show "linked c fw' sv R X (ahead (fw_last fw') ba)"
    and "pending fw \<Longrightarrow> r = None \<Longrightarrow> length R = length (fw_offers fw) \<and> rf_result (last R) = Some None" by blast+
qed

subsection \<open>Events of the receiver\<close>

lemma acceptable_asks:
  assumes "usable ofr" and "0 \<notin> set (fo_Path ofr)" and "announces ofr p"
  shows "\<exists>m. acceptable p = Some m \<and> fm_name m = txWireName (fo_Name ofr) \<and> fm_size m = fo_Size ofr
    \<and> fm_mtime m = (case fo_ModTime ofr of None \<Rightarrow> 0 | Some t \<Rightarrow> t) mod 2 ^ 32" and "\<not> isFinfoEOB p"
proof -
  from assms(3) obtain v where p: "p = marshalFinfo (offer_meta ofr) v" by (auto simp: announces_def)
  then show eob: "\<not> isFinfoEOB p" by (simp add: marshalFinfo_not_EOB)
  have "parseFinfo p = Inr ((offer_meta ofr)\<lparr>fm_mtime := fm_mtime (offer_meta ofr) mod 2 ^ 32, fm_size := fm_size (offer_meta ofr) mod 2 ^ 32,
           fm_path := (if v \<and> fm_path (offer_meta ofr) \<noteq> fm_name (offer_meta ofr) then fm_path (offer_meta ofr) else [])\<rparr>)"
    unfolding p using assms(2) txWireName_ok [of "fo_Name ofr"] by (intro parseFinfo_marshal) (simp_all add: offer_meta_def)
  moreover have "fo_Size ofr mod 2 ^ 32 = fo_Size ofr" using assms(1) by (simp add: usable_def)
  ultimately show "\<exists>m. acceptable p = Some m \<and> fm_name m = txWireName (fo_Name ofr) \<and> fm_size m = fo_Size ofr
      \<and> fm_mtime m = (case fo_ModTime ofr of None \<Rightarrow> 0 | Some t \<Rightarrow> t) mod 2 ^ 32"
    using eob assms(1) by (simp add: acceptable_def offer_meta_def usable_def)
qed

definition same_file :: "FileOffer \<Rightarrow> FileInfo \<Rightarrow> bool" where
  "same_file ofr info \<longleftrightarrow> fi_Name info = txWireName (fo_Name ofr) \<and> fi_Size info = fo_Size ofr
     \<and> fi_ModTime info = (let t = (case fo_ModTime ofr of None \<Rightarrow> 0 | Some t \<Rightarrow> t) mod 2 ^ 32 in if t \<noteq> 0 then Some t else None)"

lemma linked_accept:
  assumes l: "linked c fw sv R (ahead (sv_last sv) ab) Y" and st: "serve_accept info w off herr sv = Some sv'"
    and ofr: "\<forall>ofr \<in> set (fw_offers fw). usable ofr \<and> 0 \<notin> set (fo_Path ofr)" and len: "length R' = Suc (length R)"
  shows "linked c fw sv' R' (ahead (sv_last sv') ab) Y \<and> Suc (length R) = length (fw_offers fw)
    \<and> same_file (last (fw_offers fw)) info \<and> w \<noteq> None \<and> herr = None \<and> resume_ok info off
    \<and> sv_open sv' \<and> sv_pos sv' = off \<and> \<not> sv_open sv"
proof -
  from st obtain p m where p: "sv_last sv = Some p" "acceptable (pkt_payload p) = Some m" "sv_rx sv = hrxFinfo" "pkt_typ p = pktFINFO"
    "describes m info" "w \<noteq> None" "herr = None" "resume_ok info off" "\<not> sv_open sv"
    "sv' = sv\<lparr>sv_rx := hrxData, sv_open := True, sv_pos := off\<rparr>"
    by (auto simp: serve_accept_def split: option.splits if_splits)
  have "st_asked fw sv R (p # ab) Y \<and> fw_ph fw = Asking"
  proof (cases "fw_ph fw")
    case Gap
    with l p show ?thesis by (simp add: linked_def st_between_def ahead_def without_def)
  next
    case Asking
    with l p show ?thesis by (auto simp: linked_def st_opened_def ahead_def)
  next
    case Sending
    with l p show ?thesis by (auto simp: linked_def st_moving_def st_closed_def ahead_def without_def)
  qed (use l p in \<open>auto simp: linked_def st_over_def ahead_def acceptable_def\<close>)
  then have a: "st_asked fw sv R (p # ab) Y" and ph: "fw_ph fw = Asking" by blast+
  then have q: "asks (last (fw_offers fw)) p" "list_all (asks (last (fw_offers fw))) ab"
    using p phased_head [of no_finfo "asks (last (fw_offers fw))" p ab] by (auto simp: st_asked_def without_def)
  have ne: "fw_offers fw \<noteq> []" using a by (auto simp: st_asked_def)
  then have u: "usable (last (fw_offers fw))" "0 \<notin> set (fo_Path (last (fw_offers fw)))" using ofr by auto
  have "announces (last (fw_offers fw)) (pkt_payload p)" using q p by (simp add: asks_def)
  from acceptable_asks(1) [OF u this] p(2)
  have "fm_name m = txWireName (fo_Name (last (fw_offers fw))) \<and> fm_size m = fo_Size (last (fw_offers fw))
      \<and> fm_mtime m = (case fo_ModTime (last (fw_offers fw)) of None \<Rightarrow> 0 | Some t \<Rightarrow> t) mod 2 ^ 32" by simp
  with p(5) have "same_file (last (fw_offers fw)) info" unfolding same_file_def describes_def Let_def by simp
  moreover have "st_opened fw sv' R' (p # ab) Y"
    using a p q len by (auto simp: st_asked_def st_opened_def resume_ok_def phased_all)
  moreover have "Suc (length R) = length (fw_offers fw)" using a by (simp add: st_asked_def)
  ultimately show ?thesis using l p ph by (simp add: linked_def ahead_def)
qed

lemma linked_write:
  assumes l: "linked c fw sv R (ahead (sv_last sv) ab) Y" and o: "sv_open sv" "is_data_at (sv_pos sv) data (sv_last sv)"
    and len: "length R' = length R" and last: "R \<noteq> [] \<longrightarrow> rf_result (last R') = rf_result (last R)"
  shows "segment (c (length R - 1)) (sv_pos sv) data \<and> fw_ph fw = Sending
    \<and> linked c fw (sv\<lparr>sv_pos := n\<rparr>) R' (ahead (sv_last sv) ab) Y \<and> linked c fw sv R' (ahead (sv_last sv) ab) Y"
proof -
  obtain p where p: "sv_last sv = Some p" "pkt_typ p = pktDATA" "parseData (pkt_payload p) = Inr (sv_pos sv, data)"
    using o(2) by (auto simp: is_data_at_def split: option.splits)
  have rx: "sv_rx sv = hrxData" using l o by (simp add: linked_def)
  have "st_moving c fw sv R (p # ab) Y \<and> fw_ph fw = Sending"
  proof (cases "fw_ph fw")
    case Asking
    with l p rx show ?thesis by (auto simp: linked_def st_asked_def st_opened_def ahead_def asks_def without_def)
  next
    case Sending
    with l p rx show ?thesis by (auto simp: linked_def st_closed_def ahead_def)
  qed (use l rx in \<open>auto simp: linked_def st_between_def st_over_def\<close>)
  then have m: "st_moving c fw sv R (p # ab) Y" and ph: "fw_ph fw = Sending" by blast+
  then have "carries (c (length R - 1)) (fw_skip fw) p"
    using p phased_head [of no_data "carries (c (length R - 1)) (fw_skip fw)" p ab] by (auto simp: st_moving_def without_def)
  then have "segment (c (length R - 1)) (sv_pos sv) data" using p by (simp add: carries_def)
  moreover have "st_moving c fw (sv\<lparr>sv_pos := n\<rparr>) R' (p # ab) Y" "st_moving c fw sv R' (p # ab) Y"
    using m len by (auto simp: st_moving_def)
  ultimately show ?thesis using l ph p rx by (simp add: linked_def ahead_def)
qed

lemma linked_report:
  assumes l: "linked c fw sv R (ahead (sv_last sv) ab) Y" and o: "sv_open sv" and st: "serve_report r sv = Some sv'"
    and len: "length R' = length R" and last: "rf_result (last R') = Some r"
  shows "linked c fw sv' R' (ahead (sv_last sv') ab) Y \<and> \<not> sv_open sv'
    \<and> (r = None \<longrightarrow> 0 \<le> sv_pos sv \<and> drop (nat (sv_pos sv)) (c (length R - 1)) = [])"
proof -
  obtain p where p: "sv_last sv = Some p" "pkt_typ p = pktDATA \<or> pkt_typ p = pktEOF"
    using st o by (auto simp: serve_report_def split: option.splits if_splits)
  have rx: "sv_rx sv = hrxData" using l o by (simp add: linked_def)
  have "st_moving c fw sv R (p # ab) Y \<and> fw_ph fw = Sending"
  proof (cases "fw_ph fw")
    case Asking
    with l p rx show ?thesis by (auto simp: linked_def st_asked_def st_opened_def ahead_def asks_def without_def)
  next
    case Sending
    with l p rx show ?thesis by (auto simp: linked_def st_closed_def ahead_def)
  qed (use l rx in \<open>auto simp: linked_def st_between_def st_over_def\<close>)
  then have m: "st_moving c fw sv R (p # ab) Y" and ph: "fw_ph fw = Sending" by blast+
  then have q: "carries (c (length R - 1)) (fw_skip fw) p" "list_all (carries (c (length R - 1)) (fw_skip fw)) ab"
    using p phased_head [of no_data "carries (c (length R - 1)) (fw_skip fw)" p ab] by (auto simp: st_moving_def without_def)
  show ?thesis
  proof (cases "pkt_typ p = pktDATA")
    case True
    with st o p have s: "sv' = sv\<lparr>sv_open := False, sv_pos := - 2\<rparr>" "r \<noteq> None"
      by (auto simp: serve_report_def split: if_splits)
    have "st_moving c fw sv' R' (p # ab) Y" using m len by (auto simp: st_moving_def s)
    then show ?thesis using l ph p rx s by (auto simp: linked_def ahead_def)
  next
    case False
    with st o p obtain v where v: "parseOffset (pkt_payload p) = Inr v" "sv' = sv\<lparr>sv_open := False, sv_rx := hrxFinfo\<rparr>"
      "v < 0 \<and> r \<noteq> None \<or> 0 \<le> v \<and> v = sv_pos sv \<and> r = None"
      by (auto simp: serve_report_def split: if_splits sum.splits)
    have nf: "list_all no_finfo (p # ab)" using q by (auto simp: carries_def list_all_iff)
    have "if v < 0 then fw_skip fw else drop (nat v) (c (length R - 1)) = []" using q v False p by (simp add: carries_def)
    with v have "rf_result (last R') = Some None \<or> fw_skip fw" "r = None \<longrightarrow> 0 \<le> sv_pos sv \<and> drop (nat (sv_pos sv)) (c (length R - 1)) = []"
      using last by (auto split: if_splits)
    moreover have "st_closed fw sv' R' (p # ab) Y"
      using m len nf v calculation(1) by (simp add: st_moving_def st_closed_def phased_all)
    ultimately show ?thesis using l ph p v by (simp add: linked_def ahead_def)
  qed
qed

text \<open>A packet joins the way up; it may be one whose write failed.\<close>

lemma agrees_pos: "0 \<le> v \<Longrightarrow> v \<le> SafeMaxOffset \<Longrightarrow> pkt_typ q = pktFINFOACK \<Longrightarrow> pkt_payload q = marshalOffset (to_int32 v) \<Longrightarrow> agrees q"
  by (simp add: agrees_def without_def to_int32_small fits_int32_def)

lemma linked_other_up:
  assumes l: "linked c fw sv R X Y" and q: "pkt_typ q \<noteq> pktINITACK" "pkt_typ q \<noteq> pktFINFOACK" "pkt_typ q \<noteq> pktEOFACK"
  shows "linked c fw sv R X (Y @ [q])"
proof -
  have k: "without [pktINITACK] q" "no_finfoAck q" "no_eofAck q" "agrees q" using q by (simp_all add: without_def agrees_def)
  show ?thesis
  proof (cases "fw_ph fw")
    case Asking
    with l k show ?thesis by (auto simp: linked_def st_asked_def st_opened_def phased_snoc)
  next
    case Sending
    with l k show ?thesis by (auto simp: linked_def st_moving_def st_closed_def phased_snoc)
  qed (use l k in \<open>auto simp: linked_def st_between_def\<close>)
qed

lemma finfoAck_not_asked:
  assumes st: "serve_send q sv = Some sv'" and f: "pkt_typ q = pktFINFOACK" and p: "sv_last sv = Some p" "pkt_typ p = pktFINFO"
    and a: "st_asked fw sv R (p # ab) Y"
    and ofr: "\<forall>ofr \<in> set (fw_offers fw). usable ofr \<and> 0 \<notin> set (fo_Path ofr)" and ne: "fw_offers fw \<noteq> []"
  shows False
proof -
  have "asks (last (fw_offers fw)) p"
    using a p phased_head [of no_finfo "asks (last (fw_offers fw))" p ab] by (simp add: st_asked_def without_def)
  then have an: "announces (last (fw_offers fw)) (pkt_payload p)" using p by (simp add: asks_def)
  have "usable (last (fw_offers fw))" "0 \<notin> set (fo_Path (last (fw_offers fw)))" using ofr ne by auto
  note acc = acceptable_asks [OF this an]
  from a have "sv_rx sv = hrxFinfo" by (simp add: st_asked_def)
  with st f p acc show ?thesis by (auto simp: serve_send_def)
qed

lemma linked_initAck:
  assumes l: "linked c fw sv R (ahead (sv_last sv) ab) Y" and st: "serve_send q sv = Some sv'" and i: "pkt_typ q = pktINITACK"
    and Y': "Y' = Y \<or> Y' = Y @ [q]"
  shows "linked c fw sv' R (ahead (sv_last sv') ab) Y' \<and> sv_open sv' = sv_open sv \<and> sv_pos sv' = sv_pos sv"
proof -
  from st i obtain p where p: "sv_last sv = Some p" "pkt_typ p = pktINIT"
    "sv' = (if sv_rx sv = hrxInit \<and> ok (parseInit (pkt_payload p)) then sv\<lparr>sv_rx := hrxFinfo\<rparr> else sv)"
    by (auto simp: serve_send_def split: option.splits if_splits)
  have "ok (parseInit (pkt_payload p))" using l p by (simp add: linked_def ahead_def)
  with p have p': "sv' = (if sv_rx sv = hrxInit then sv\<lparr>sv_rx := hrxFinfo\<rparr> else sv)" by simp
  have k: "no_finfoAck q" "no_eofAck q" "agrees q" using i by (simp_all add: without_def agrees_def)
  have rx: "sv_rx sv' \<noteq> hrxInit" using p' by simp
  have "linked c fw sv' R (ahead (sv_last sv) ab) Y'"
  proof (cases "fw_ph fw")
    case Gap
    with l k rx Y' p' show ?thesis by (auto simp: linked_def st_between_def)
  next
    case Asking
    with l k rx Y' p' show ?thesis by (auto simp: linked_def st_asked_def st_opened_def phased_snoc)
  next
    case Sending
    with l k rx Y' p' show ?thesis by (auto simp: linked_def st_moving_def st_closed_def phased_snoc)
  qed (use l k rx Y' p' in \<open>auto simp: linked_def st_over_def\<close>)
  then show ?thesis using p' by (auto split: if_splits)
qed

lemma linked_finfoAck:
  assumes l: "linked c fw sv R (ahead (sv_last sv) ab) Y" and st: "serve_send q sv = Some sv'" and f: "pkt_typ q = pktFINFOACK"
    and ofr: "\<forall>ofr \<in> set (fw_offers fw). usable ofr \<and> 0 \<notin> set (fo_Path ofr)" and ne: "fw_ph fw = Asking \<Longrightarrow> fw_offers fw \<noteq> []"
    and Y': "Y' = Y \<or> Y' = Y @ [q]"
  shows "linked c fw sv' R (ahead (sv_last sv') ab) Y' \<and> sv_open sv' = sv_open sv \<and> sv_pos sv' = sv_pos sv"
proof -
  from st f obtain p where p: "sv_last sv = Some p" "pkt_typ p = pktFINFO"
    by (auto simp: serve_send_def split: option.splits if_splits)
  have k: "no_eofAck q" "without [pktINITACK] q" using f by (simp_all add: without_def)
  show ?thesis
  proof (cases "fw_ph fw")
    case Gap
    with l p show ?thesis by (simp add: linked_def st_between_def ahead_def without_def)
  next
    case Asking
    have "\<not> st_asked fw sv R (p # ab) Y" using finfoAck_not_asked [OF st f p _ ofr ne [OF Asking]] by blast
    with l p Asking have o: "st_opened fw sv R (p # ab) Y" by (simp add: linked_def ahead_def)
    then have q: "sv' = sv" "pkt_payload q = marshalOffset (to_int32 (sv_pos sv))"
      using st f p by (auto simp: serve_send_def st_opened_def split: if_splits)
    have "agrees q" using o q f by (intro agrees_pos) (simp_all add: st_opened_def)
    then have "st_opened fw sv R (p # ab) Y'" using o Y' by (auto simp: st_opened_def phased_snoc)
    with l p Asking q k Y' show ?thesis by (auto simp: linked_def ahead_def)
  next
    case Sending
    with l p have m: "st_moving c fw sv R (p # ab) Y" by (simp add: linked_def ahead_def st_closed_def without_def)
    then have "sv' = sv" using st f p by (auto simp: serve_send_def st_moving_def split: if_splits)
    with m l p Sending k Y' show ?thesis by (auto simp: linked_def ahead_def st_moving_def)
  next
    case AskingEnd
    with l p have "pkt_payload p = finfoEOB" "sv_rx sv = hrxFinfo \<or> sv_rx sv = hrxDone" by (auto simp: linked_def ahead_def st_over_def)
    then have "sv' = sv\<lparr>sv_rx := hrxDone\<rparr>" using st f p by (auto simp: serve_send_def)
    with l p AskingEnd show ?thesis by (auto simp: linked_def ahead_def st_over_def)
  next
    case Over
    with l p have "pkt_payload p = finfoEOB" "sv_rx sv = hrxFinfo \<or> sv_rx sv = hrxDone" by (auto simp: linked_def ahead_def st_over_def)
    then have "sv' = sv\<lparr>sv_rx := hrxDone\<rparr>" using st f p by (auto simp: serve_send_def)
    with l p Over show ?thesis by (auto simp: linked_def ahead_def st_over_def)
  qed
qed

lemma linked_eofAck:
  assumes l: "linked c fw sv R (ahead (sv_last sv) ab) Y" and st: "serve_send q sv = Some sv'" and e: "pkt_typ q = pktEOFACK"
    and Y': "Y' = Y \<or> Y' = Y @ [q]"
  shows "linked c fw sv' R (ahead (sv_last sv') ab) Y' \<and> sv_open sv' = sv_open sv \<and> sv_pos sv' = sv_pos sv"
proof -
  from st e obtain p where p: "sv_last sv = Some p" "pkt_typ p = pktEOF" "\<not> sv_open sv"
    "sv_rx sv = hrxFinfo \<and> sv' = sv \<or> sv_rx sv = hrxData \<and> sv' = sv\<lparr>sv_rx := hrxFinfo\<rparr> \<and> (\<exists>v. parseOffset (pkt_payload p) = Inr v \<and> v < 0)"
    by (auto simp: serve_send_def split: option.splits if_splits rxState.splits sum.splits)
  have k: "no_finfoAck q" "without [pktINITACK] q" using e by (simp_all add: without_def)
  show ?thesis
  proof (cases "fw_ph fw")
    case Gap
    with l p k Y' show ?thesis by (auto simp: linked_def st_between_def ahead_def)
  next
    case Asking
    with l p have "st_asked fw sv R (p # ab) Y" by (auto simp: linked_def ahead_def st_opened_def)
    then have "st_asked fw sv R (p # ab) Y'" "sv' = sv" using k Y' p by (auto simp: st_asked_def)
    with l p Asking k Y' show ?thesis by (auto simp: linked_def ahead_def)
  next
    case Sending
    have "st_closed fw sv' R (p # ab) Y'"
    proof (cases "st_moving c fw sv R (p # ab) Y")
      case True
      with p have s: "sv' = sv\<lparr>sv_rx := hrxFinfo\<rparr>" and "\<exists>v. parseOffset (pkt_payload p) = Inr v \<and> v < 0" by (auto simp: st_moving_def)
      have c: "carries (c (length R - 1)) (fw_skip fw) p \<and> list_all (carries (c (length R - 1)) (fw_skip fw)) ab"
        using True p phased_head [of no_data "carries (c (length R - 1)) (fw_skip fw)" p ab] by (auto simp: st_moving_def without_def)
      then have "fw_skip fw" using \<open>\<exists>v. _ v\<close> p by (auto simp: carries_def)
      moreover have "list_all no_finfo (p # ab)" using c by (auto simp: carries_def list_all_iff)
      ultimately show ?thesis using True s k Y' by (auto simp: st_moving_def st_closed_def phased_all intro!: phased_snoc)
    next
      case False
      with l p Sending have "st_closed fw sv R (p # ab) Y" by (simp add: linked_def ahead_def)
      with p k Y' show ?thesis by (auto simp: st_closed_def phased_snoc)
    qed
    with l p Sending k Y' show ?thesis by (auto simp: linked_def ahead_def)
  next
    case AskingEnd
    with l p show ?thesis by (auto simp: linked_def ahead_def st_over_def)
  next
    case Over
    with l p show ?thesis by (auto simp: linked_def ahead_def st_over_def)
  qed
qed

lemma linked_answer:
  assumes l: "linked c fw sv R (ahead (sv_last sv) ab) Y" and st: "serve_send q sv = Some sv'"
    and ofr: "\<forall>ofr \<in> set (fw_offers fw). usable ofr \<and> 0 \<notin> set (fo_Path ofr)" and ne: "fw_ph fw = Asking \<Longrightarrow> fw_offers fw \<noteq> []"
    and Y': "Y' = Y \<or> Y' = Y @ [q]"
  shows "linked c fw sv' R (ahead (sv_last sv') ab) Y' \<and> sv_open sv' = sv_open sv \<and> sv_pos sv' = sv_pos sv"
proof -
  consider "pkt_typ q = pktINITACK" | "pkt_typ q = pktFINFOACK" | "pkt_typ q = pktEOFACK"
    | "pkt_typ q \<noteq> pktINITACK" "pkt_typ q \<noteq> pktFINFOACK" "pkt_typ q \<noteq> pktEOFACK" by blast
  then show ?thesis
  proof cases
    case 1 show ?thesis by (rule linked_initAck [OF l st 1 Y'])
  next
    case 2 show ?thesis by (rule linked_finfoAck [OF l st 2 ofr ne Y'])
  next
    case 3 show ?thesis by (rule linked_eofAck [OF l st 3 Y'])
  next
    case 4
    then have "sv' = sv" using st by (simp add: serve_send_def)
    with l Y' linked_other_up [OF l 4] show ?thesis by auto
  qed
qed

end
