(* ===== verification/Hydra_EndToEnd.thy ===== *)
theory Hydra_EndToEnd
  imports Hydra_Link
begin

section \<open>Files from one side to the other\<close>

text \<open>
  Two sessions, each running its whole event loop, joined by two channels that keep the order
  of what they carry and may lose any of it. What the receiving application is given is, file
  by file and in order, what the sending application offered.
\<close>

subsection \<open>The files themselves\<close>

definition rcvd_ok :: "byte list \<Rightarrow> FileOffer \<Rightarrow> rcvdFile \<Rightarrow> bool" where
  \<comment> \<open>the file is the offered one, what was written is its content from the start on, all of it at success\<close>
  "rcvd_ok content ofr f \<longleftrightarrow> same_file ofr (rf_info f) \<and> 0 \<le> rf_start f
     \<and> take (length (rf_data f)) (drop (nat (rf_start f)) content) = rf_data f
     \<and> (rf_result f = Some None \<longrightarrow> rf_data f = drop (nat (rf_start f)) content)"

definition current :: "rcvdFile list \<Rightarrow> serve \<Rightarrow> bool" where
  \<comment> \<open>the open file is the last one, and not reported yet\<close>
  "current R sv \<longleftrightarrow> (if sv_open sv then R \<noteq> [] \<and> rf_result (last R) = None \<and> sv_pos sv = rf_start (last R) + int (length (rf_data (last R)))
        else R = [] \<or> rf_result (last R) \<noteq> None)"

definition told :: "(nat \<Rightarrow> byte list) \<Rightarrow> sentFile list \<Rightarrow> rcvdFile list \<Rightarrow> serve \<Rightarrow> bool" where
  "told c S R sv \<longleftrightarrow> length R \<le> length S \<and> (\<forall>i < length R. rcvd_ok (c i) (sf_offer (S ! i)) (R ! i)) \<and> current R sv
     \<and> (\<forall>i < length S. sf_result (S ! i) = Some None \<longrightarrow> i < length R \<and> rf_result (R ! i) = Some None)"

lemma toldI:
  assumes "length R \<le> length S" and "\<And>i. i < length R \<Longrightarrow> rcvd_ok (c i) (sf_offer (S ! i)) (R ! i)" and "current R sv"
    and "\<And>i. i < length S \<Longrightarrow> sf_result (S ! i) = Some None \<Longrightarrow> i < length R \<and> rf_result (R ! i) = Some None"
  shows "told c S R sv"
  using assms by (simp add: told_def)

lemma toldD:
  assumes "told c S R sv"
  shows "length R \<le> length S" and "i < length R \<Longrightarrow> rcvd_ok (c i) (sf_offer (S ! i)) (R ! i)" and "current R sv"
    and "i < length S \<Longrightarrow> sf_result (S ! i) = Some None \<Longrightarrow> i < length R \<and> rf_result (R ! i) = Some None"
  using assms by (simp_all add: told_def)

lemma told_view: "told c S R sv \<Longrightarrow> sv_open sv' = sv_open sv \<Longrightarrow> sv_pos sv' = sv_pos sv \<Longrightarrow> told c S R sv'"
  by (auto simp: told_def current_def)

lemma told_offer:
  assumes t: "told c S R sv" and f: "sf_result f = None"
  shows "told c (S @ [f]) R sv"
proof (rule toldI)
  fix i assume "i < length (S @ [f])" "sf_result ((S @ [f]) ! i) = Some None"
  with f have "i < length S" "sf_result (S ! i) = Some None" by (auto simp: nth_append less_Suc_eq split: if_splits)
  with t show "i < length R \<and> rf_result (R ! i) = Some None" by (rule toldD)
qed (use toldD [OF t] in \<open>auto simp: nth_append\<close>)

lemma told_complete:
  assumes t: "told c S R sv" and S: "S \<noteq> []" "sf_result (last S) = None" and r: "r = None \<Longrightarrow> length R = length S \<and> rf_result (last R) = Some None"
  shows "told c (change_last (\<lambda>f. if sf_result f = None then f\<lparr>sf_result := Some r\<rparr> else f) S) R sv" (is "told c ?S R sv")
proof (rule toldI)
  show "rcvd_ok (c i) (sf_offer (?S ! i)) (R ! i)" if "i < length R" for i
    using toldD(1,2) [OF t] that by (simp add: change_last_nth)
  show "i < length R \<and> rf_result (R ! i) = Some None" if i: "i < length ?S" "sf_result (?S ! i) = Some None" for i
  proof (cases "Suc i = length S")
    case True
    then have "S ! i = last S" using S(1) by (simp add: last_conv_nth flip: True)
    then have "r = None" using i S(2) True by (simp add: change_last_nth)
    from r [OF this] True S(1) show ?thesis by (cases R rule: rev_cases) (auto simp: nth_append)
  next
    case False
    with i toldD(4) [OF t] show ?thesis by (simp add: change_last_nth)
  qed
qed (use toldD [OF t] in simp_all)

lemma told_accept:
  assumes t: "told c S R sv" and len: "Suc (length R) = length S" and f: "same_file (sf_offer (last S)) info" "0 \<le> off"
    and s: "sv_open sv'" "sv_pos sv' = off"
  shows "told c S (R @ [\<lparr>rf_info = info, rf_start = off, rf_data = [], rf_result = None\<rparr>]) sv'" (is "told c S (R @ [?f]) sv'")
proof (rule toldI)
  have "S ! length R = last S" using len by (cases S rule: rev_cases) (auto simp: nth_append)
  then have "rcvd_ok (c (length R)) (sf_offer (S ! length R)) ?f" using f by (simp add: rcvd_ok_def)
  then show "rcvd_ok (c i) (sf_offer (S ! i)) ((R @ [?f]) ! i)" if "i < length (R @ [?f])" for i
    using toldD(2) [OF t, of i] that by (cases "i = length R") (simp_all add: nth_append)
  show "i < length (R @ [?f]) \<and> rf_result ((R @ [?f]) ! i) = Some None" if "i < length S" "sf_result (S ! i) = Some None" for i
    using toldD(4) [OF t that] by (simp add: nth_append)
  show "current (R @ [?f]) sv'" using s by (simp add: current_def)
qed (use len in simp)

lemma segment_append:
  assumes "take (length d) (drop (nat s) content) = d" and "0 \<le> s" and "segment content (s + int (length d)) e"
  shows "take (length (d @ e)) (drop (nat s) content) = d @ e"
proof -
  have n: "nat (s + int (length d)) = length d + nat s" using assms(2) by simp
  have "e = take (length e) (drop (length d) (drop (nat s) content))" using assms(3) by (simp add: segment_def n)
  then show ?thesis using assms(1) by (simp add: take_add)
qed

lemma current_open:
  assumes "current R sv" and "sv_open sv"
  obtains xs f where "R = xs @ [f]" "rf_result f = None" "sv_pos sv = rf_start f + int (length (rf_data f))"
  using assms by (cases R rule: rev_cases) (auto simp: current_def)

text \<open>A change of the open file that keeps it right.\<close>

lemma told_change:
  assumes t: "told c S R sv" and R: "R = xs @ [f]" "rf_result f = None"
    and g: "rcvd_ok (c (length xs)) (sf_offer (S ! length xs)) (g f)" and cur: "current (change_last g R) sv'"
  shows "told c S (change_last g R) sv'"
proof (rule toldI)
  show "rcvd_ok (c i) (sf_offer (S ! i)) (change_last g R ! i)" if "i < length (change_last g R)" for i
    using toldD(2) [OF t, of i] that g R by (cases "i = length xs") (simp_all add: nth_append)
  show "i < length (change_last g R) \<and> rf_result (change_last g R ! i) = Some None" if "i < length S" "sf_result (S ! i) = Some None" for i
    using toldD(4) [OF t that] R by (cases "i < length xs") (auto simp: nth_append)
qed (use toldD(1) [OF t] cur in simp_all)

lemma told_write:
  assumes t: "told c S R sv" and o: "sv_open sv" and seg: "segment (c (length R - 1)) (sv_pos sv) d"
  shows "told c S (change_last (\<lambda>f. f\<lparr>rf_data := rf_data f @ d\<rparr>) R) (sv\<lparr>sv_pos := sv_pos sv + int (length d)\<rparr>)"
proof -
  obtain xs f where f: "R = xs @ [f]" "rf_result f = None" "sv_pos sv = rf_start f + int (length (rf_data f))"
    using current_open [OF toldD(3) [OF t] o] .
  have "rcvd_ok (c (length xs)) (sf_offer (S ! length xs)) f" using toldD(2) [OF t, of "length xs"] f by simp
  then have "rcvd_ok (c (length xs)) (sf_offer (S ! length xs)) (f\<lparr>rf_data := rf_data f @ d\<rparr>)"
    using f seg segment_append [of "rf_data f" "rf_start f" "c (length xs)" d] by (simp add: rcvd_ok_def)
  then show ?thesis using t f o by (intro told_change) (simp_all add: current_def)
qed

lemma told_report:
  assumes t: "told c S R sv" and o: "sv_open sv" "\<not> sv_open sv'"
    and fin: "r = None \<Longrightarrow> 0 \<le> sv_pos sv \<and> drop (nat (sv_pos sv)) (c (length R - 1)) = []"
  shows "told c S (change_last (\<lambda>f. if rf_result f = None then f\<lparr>rf_result := Some r\<rparr> else f) R) sv'"
proof -
  obtain xs f where f: "R = xs @ [f]" "rf_result f = None" "sv_pos sv = rf_start f + int (length (rf_data f))"
    using current_open [OF toldD(3) [OF t] o(1)] .
  have ok: "rcvd_ok (c (length xs)) (sf_offer (S ! length xs)) f" using toldD(2) [OF t, of "length xs"] f by simp
  have "rf_data f = drop (nat (rf_start f)) (c (length xs))" if "r = None"
  proof -
    have "length (c (length xs)) \<le> length (rf_data f) + nat (rf_start f)"
      using fin [OF that] f ok by (auto simp: rcvd_ok_def)
    with ok show ?thesis by (simp add: rcvd_ok_def)
  qed
  with ok f have "rcvd_ok (c (length xs)) (sf_offer (S ! length xs)) (if rf_result f = None then f\<lparr>rf_result := Some r\<rparr> else f)"
    by (simp add: rcvd_ok_def)
  then show ?thesis using f o by (intro told_change [OF t f(1,2)]) (simp_all add: current_def)
qed

subsection \<open>One event of either side\<close>

definition joint :: "(nat \<Rightarrow> byte list) \<Rightarrow> event list \<Rightarrow> event list \<Rightarrow> packet list \<Rightarrow> packet list \<Rightarrow> bool" where
  "joint c la lb ab ba \<longleftrightarrow> (\<exists>sp fw sv. send_trace la = Some sp \<and> flow_trace c la = Some fw \<and> serve_trace lb = Some sv
     \<and> linked c fw sv (rcvd_files lb) (ahead (sv_last sv) ab) (ahead (fw_last fw) ba)
     \<and> told c (sent_files la) (rcvd_files lb) sv)"

lemma ahead_snoc: "ahead l (ps @ qs) = ahead l ps @ qs"
  by (simp add: ahead_def split: option.split)

lemma ahead_lose: "\<exists>xs. ahead l (ps @ p # qs) = xs @ p # qs \<and> ahead l (ps @ qs) = xs @ qs"
  by (auto simp: ahead_def split: option.split intro: exI [of _ "_ # ps"])

lemma joint_lose_down: "joint c la lb (ps @ p # qs) ba \<Longrightarrow> joint c la lb (ps @ qs) ba"
  unfolding joint_def using ahead_lose linked_lose_down by metis

lemma joint_lose_up: "joint c la lb ab (ps @ p # qs) \<Longrightarrow> joint c la lb ab (ps @ qs)"
  unfolding joint_def using ahead_lose linked_lose_up by metis

text \<open>What the sender sends fits the channel.\<close>

lemma sent_fits:
  assumes sp: "send_step sp (EvSend f r) \<noteq> None" and fw: "flow_step c sp fw (EvSend f r) = Some fw'"
    and seg: "seg_ok (c (length (fw_offers fw) - 1)) sp"
  shows "fits_down c fw' (sn_packet f)"
proof -
  let ?t = "pkt_typ (sn_packet f)" and ?p = "pkt_payload (sn_packet f)"
  have s: "flow_send sp fw ?t ?p = Some fw'" using fw by (simp add: flow_step_def)
  note k = flow_send_keeps [OF s]
  consider "?t = pktDATA" | "?t = pktEOF" | "?t \<noteq> pktDATA" "?t \<noteq> pktEOF" by blast
  then show ?thesis
  proof cases
    case 1
    with sp obtain ofr h pos p buf where d: "sp = SFile ofr h pos (Some (p, buf))" "0 \<le> p" "p + int (length buf) \<le> SafeMaxOffset"
      "?p = marshalData p buf"
      by (cases sp) (auto split: if_splits)
    then have "segment (c (length (fw_offers fw) - 1)) p buf" "fits_int32 p" using seg by (simp_all add: seg_ok_def fits_int32_def)
    with d 1 have "carries (c (length (fw_offers fw) - 1)) (fw_skip fw') (sn_packet f)" by (simp add: carries_def without_def)
    moreover have "fw_ph fw = Sending" using 1 s by (simp add: flow_send_def split: if_splits)
    ultimately show ?thesis using 1 k by (simp add: fits_down_def)
  next
    case 2
    with s have ph: "fw_ph fw = Sending" by (auto simp: flow_send_def split: if_splits)
    show ?thesis
    proof (cases "?p = marshalOffset offsetSkip")
      case True
      then have "fw_skip fw'" using 2 s ph by (auto simp: flow_send_def)
      moreover have "parseOffset ?p = Inr offsetSkip" using True by (simp add: fits_int32_def)
      ultimately show ?thesis using 2 ph k by (auto simp: fits_down_def carries_def without_def)
    next
      case False
      with 2 s ph obtain v where v: "parseOffset ?p = Inr v" "0 \<le> v" "at_end sp v"
        by (auto simp: flow_send_def split: if_splits sum.splits)
      then have "drop (nat v) (c (length (fw_offers fw) - 1)) = []"
        using seg by (auto simp: at_end_def seg_ok_def split: send_phase.splits)
      with 2 ph k v show ?thesis by (auto simp: fits_down_def carries_def without_def)
    qed
  next
    case 3
    with s k show ?thesis by (auto simp: fits_down_def flow_send_def split: if_splits)
  qed
qed

lemma sender_reports:
  assumes l: "linked c fw sv (rcvd_files lb) (ahead (sv_last sv) ab) (ahead (fw_last fw) rest)" and t: "told c S (rcvd_files lb) sv"
    and s: "flow_step c sp fw (EvSendCompleted info n r) = Some fw'" and m: "offers_match fw S"
  shows "linked c fw' sv (rcvd_files lb) (ahead (sv_last sv) ab) (ahead (fw_last fw') rest)
    \<and> told c (sent_event S (EvSendCompleted info n r)) (rcvd_files lb) sv"
proof -
  note lc = linked_completed [OF l s]
  have "told c (sent_event S (EvSendCompleted info n r)) (rcvd_files lb) sv"
  proof (cases "pending fw")
    case True
    have len: "length (fw_offers fw) = length S" using m by (metis length_map offers_match_def)
    have S: "S \<noteq> []" "sf_result (last S) = None" using m True by (simp_all add: offers_match_def)
    have "told c (change_last (\<lambda>f. if sf_result f = None then f\<lparr>sf_result := Some r\<rparr> else f) S) (rcvd_files lb) sv"
      by (rule told_complete [OF t S]) (use lc(2) [OF True] len in simp)
    then show ?thesis by (simp add: sent_event_def)
  next
    case False
    then have "S = [] \<or> sf_result (last S) \<noteq> None" using m by (simp add: offers_match_def)
    then have "change_last (\<lambda>f. if sf_result f = None then f\<lparr>sf_result := Some r\<rparr> else f) S = S"
      by (intro change_last_id) auto
    with t show ?thesis by (simp add: sent_event_def)
  qed
  with lc(1) show ?thesis by blast
qed

lemma joint_sender:
  assumes j: "joint c la lb ab (taken [e] @ rest)" and acc: "send_trace (la @ [e]) \<noteq> None" "flow_trace c (la @ [e]) \<noteq> None"
  shows "joint c (la @ [e]) lb (ab @ put [e]) rest"
proof -
  obtain sp fw sv where i: "send_trace la = Some sp" "flow_trace c la = Some fw" "serve_trace lb = Some sv"
    "linked c fw sv (rcvd_files lb) (ahead (sv_last sv) ab) (ahead (fw_last fw) (taken [e] @ rest))"
    "told c (sent_files la) (rcvd_files lb) sv"
    using j by (auto simp: joint_def)
  obtain sp' fw' where s: "send_step sp e = Some sp'" "flow_step c sp fw e = Some fw'"
    "send_trace (la @ [e]) = Some sp'" "flow_trace c (la @ [e]) = Some fw'"
    using acc i(1,2) by (auto simp: send_trace_snoc flow_trace_snoc)
  note m = offers_match_trace [OF i(2)]
  have "linked c fw' sv (rcvd_files lb) (ahead (sv_last sv) (ab @ put [e])) (ahead (fw_last fw') rest)
      \<and> told c (sent_event (sent_files la) e) (rcvd_files lb) sv"
  proof (cases e)
    case (EvRecv p)
    then have "linked c fw sv (rcvd_files lb) (ahead (sv_last sv) ab) (p # rest)"
      using linked_next_up [OF i(4)] by (simp add: taken_def)
    from linked_recv [OF this] show ?thesis
      using EvRecv s(2) i(5) by (auto simp: flow_recv_keeps ahead_def put_def sent_event_def)
  next
    case (EvSend f r)
    have k: "fw_ph fw' = fw_ph fw" "fw_offers fw' = fw_offers fw" "fw_up fw' = fw_up fw" "fw_last fw' = fw_last fw" "fw_skip fw \<longrightarrow> fw_skip fw'"
      using flow_send_keeps [of sp fw "pkt_typ (sn_packet f)" "pkt_payload (sn_packet f)" fw'] s(2) EvSend by (auto simp: flow_step_def)
    have "linked c fw' sv (rcvd_files lb) (ahead (sv_last sv) ab) (ahead (fw_last fw') rest)"
      using i(4) EvSend k by (intro linked_skip [OF _ k(5,1,2,3)]) (simp add: taken_def)
    moreover from this have "linked c fw' sv (rcvd_files lb) (ahead (sv_last sv) ab @ [sn_packet f]) (ahead (fw_last fw') rest)"
      using sent_fits [of sp f r c fw fw'] s EvSend seg_ok_trace [OF i(2,1)] by (intro linked_send) simp_all
    ultimately show ?thesis using EvSend i(5) by (cases r) (simp_all add: put_def sent_event_def ahead_snoc)
  next
    case (EvNextFile a)
    have l: "linked c fw sv (rcvd_files lb) (ahead (sv_last sv) ab) (ahead (fw_last fw) rest)" using i(4) EvNextFile by (simp add: taken_def)
    show ?thesis
    proof (cases a)
      case None
      with EvNextFile s(2) have "fw_ph fw = Gap" "fw_up fw" "fw' = fw\<lparr>fw_ph := AskingEnd\<rparr>" by (auto simp: flow_step_def split: if_splits)
      with EvNextFile None i(5) linked_next_file(1) [OF l] show ?thesis by (simp add: put_def sent_event_def)
    next
      case (Some ofr)
      with EvNextFile s(2) have g: "fw_ph fw = Gap" "fw_up fw"
        "fw' = (if usable ofr then fw\<lparr>fw_ph := Asking, fw_skip := False, fw_offers := fw_offers fw @ [ofr]\<rparr> else fw)"
        by (auto simp: flow_step_def split: if_splits)
      with EvNextFile Some i(5) l linked_next_file(2) [OF l] told_offer show ?thesis by (simp add: put_def sent_event_def)
    qed
  next
    case (EvSendCompleted info n r)
    have l: "linked c fw sv (rcvd_files lb) (ahead (sv_last sv) ab) (ahead (fw_last fw) rest)" using i(4) EvSendCompleted by (simp add: taken_def)
    from sender_reports [OF l i(5) s(2) [unfolded EvSendCompleted] m] show ?thesis by (simp add: EvSendCompleted put_def)
  next
    case (EvRead h buf r)
    with s(2) have "fw' = fw" by (auto simp: flow_step_def split: send_phase.splits option.splits if_splits)
    with EvRead i show ?thesis by (simp add: taken_def put_def sent_event_def)
  qed (use i s(2) in \<open>simp_all add: taken_def put_def sent_event_def flow_step_def\<close>)
  with s i(3) show ?thesis by (auto simp: joint_def)
qed

lemma receiver_accepts:
  assumes l: "linked c fw sv (rcvd_files lb) (ahead (sv_last sv) rest) (ahead (fw_last fw) ba)"
    and t: "told c (sent_files la) (rcvd_files lb) sv" and s: "serve_step sv (EvAccept info w off herr) = Some sv'"
    and m: "map sf_offer (sent_files la) = fw_offers fw" "\<forall>ofr \<in> set (fw_offers fw). usable ofr \<and> 0 \<notin> set (fo_Path ofr)"
  shows "linked c fw sv' (rcvd_event (rcvd_files lb) (EvAccept info w off herr)) (ahead (sv_last sv') rest) (ahead (fw_last fw) ba)
    \<and> told c (sent_files la) (rcvd_event (rcvd_files lb) (EvAccept info w off herr)) sv'"
proof -
  have len: "length (fw_offers fw) = length (sent_files la)" by (simp flip: m(1))
  have st: "serve_accept info w off herr sv = Some sv'" using s by (simp add: serve_step_def)
  let ?R = "rcvd_files lb @ [\<lparr>rf_info = info, rf_start = off, rf_data = [], rf_result = None\<rparr>]"
  have k: "linked c fw sv' ?R (ahead (sv_last sv') rest) (ahead (fw_last fw) ba) \<and> Suc (length (rcvd_files lb)) = length (fw_offers fw)
      \<and> same_file (last (fw_offers fw)) info \<and> w \<noteq> None \<and> herr = None \<and> resume_ok info off
      \<and> sv_open sv' \<and> sv_pos sv' = off \<and> \<not> sv_open sv"
    by (rule linked_accept [OF l st m(2)]) simp
  moreover have "last (fw_offers fw) = sf_offer (last (sent_files la))"
  proof -
    have "sent_files la \<noteq> []" using k len by auto
    then show ?thesis unfolding m(1) [symmetric] by (rule last_map)
  qed
  ultimately have "told c (sent_files la) ?R sv'"
    using len by (intro told_accept [OF t]) (simp_all add: resume_ok_def)
  with k show ?thesis by (simp add: rcvd_event_def put_def)
qed

lemma receiver_writes:
  assumes l: "linked c fw sv (rcvd_files lb) (ahead (sv_last sv) rest) (ahead (fw_last fw) ba)"
    and t: "told c (sent_files la) (rcvd_files lb) sv" and s: "serve_step sv (EvWrite h data r) = Some sv'"
  shows "linked c fw sv' (rcvd_event (rcvd_files lb) (EvWrite h data r)) (ahead (sv_last sv') rest) (ahead (fw_last fw) ba)
    \<and> told c (sent_files la) (rcvd_event (rcvd_files lb) (EvWrite h data r)) sv'"
proof -
  from s have o: "sv_open sv" "is_data_at (sv_pos sv) data (sv_last sv)"
    "sv' = (if r = None then sv\<lparr>sv_pos := sv_pos sv + int (length data)\<rparr> else sv)"
    by (auto simp: serve_step_def split: if_splits)
  have w: "segment (c (length (rcvd_files lb) - 1)) (sv_pos sv) data \<and> fw_ph fw = Sending
      \<and> linked c fw (sv\<lparr>sv_pos := n\<rparr>) (change_last (\<lambda>f. f\<lparr>rf_data := rf_data f @ data\<rparr>) (rcvd_files lb)) (ahead (sv_last sv) rest) (ahead (fw_last fw) ba)
      \<and> linked c fw sv (change_last (\<lambda>f. f\<lparr>rf_data := rf_data f @ data\<rparr>) (rcvd_files lb)) (ahead (sv_last sv) rest) (ahead (fw_last fw) ba)" for n
    by (rule linked_write [OF l o(1,2)]) simp_all
  show ?thesis
  proof (cases r)
    case None
    with told_write [OF t o(1)] w o(3) show ?thesis by (simp add: rcvd_event_def put_def)
  next
    case (Some x)
    with l t o(3) show ?thesis by (simp add: rcvd_event_def put_def)
  qed
qed

lemma receiver_reports:
  assumes l: "linked c fw sv (rcvd_files lb) (ahead (sv_last sv) rest) (ahead (fw_last fw) ba)"
    and t: "told c (sent_files la) (rcvd_files lb) sv" and s: "serve_step sv (EvRecvCompleted info n r) = Some sv'"
  shows "linked c fw sv' (rcvd_event (rcvd_files lb) (EvRecvCompleted info n r)) (ahead (sv_last sv') rest) (ahead (fw_last fw) ba)
    \<and> told c (sent_files la) (rcvd_event (rcvd_files lb) (EvRecvCompleted info n r)) sv'"
proof -
  have st: "serve_report r sv = Some sv'" using s by (simp add: serve_step_def)
  let ?R = "change_last (\<lambda>f. if rf_result f = None then f\<lparr>rf_result := Some r\<rparr> else f) (rcvd_files lb)"
  have cur: "current (rcvd_files lb) sv" using t by (rule toldD)
  show ?thesis
  proof (cases "sv_open sv")
    case True
    then have ne: "rcvd_files lb \<noteq> []" "rf_result (last (rcvd_files lb)) = None" using cur by (simp_all add: current_def)
    have k: "linked c fw sv' ?R (ahead (sv_last sv') rest) (ahead (fw_last fw) ba) \<and> \<not> sv_open sv'
        \<and> (r = None \<longrightarrow> 0 \<le> sv_pos sv \<and> drop (nat (sv_pos sv)) (c (length (rcvd_files lb) - 1)) = [])"
      by (rule linked_report [OF l True st]) (use ne in simp_all)
    then have "told c (sent_files la) ?R sv'" by (intro told_report [OF t True]) simp_all
    with k show ?thesis by (simp add: rcvd_event_def put_def)
  next
    case False
    then have "?R = rcvd_files lb" using cur by (intro change_last_id) (auto simp: current_def)
    moreover have "sv' = sv" using st False by (simp add: serve_report_def)
    ultimately show ?thesis using l t by (simp add: rcvd_event_def put_def)
  qed
qed

lemma joint_receiver:
  assumes j: "joint c la lb (taken [e] @ rest) ba" and acc: "serve_trace (lb @ [e]) \<noteq> None"
  shows "joint c la (lb @ [e]) rest (ba @ put [e])"
proof -
  obtain sp fw sv where i: "send_trace la = Some sp" "flow_trace c la = Some fw" "serve_trace lb = Some sv"
    "linked c fw sv (rcvd_files lb) (ahead (sv_last sv) (taken [e] @ rest)) (ahead (fw_last fw) ba)"
    "told c (sent_files la) (rcvd_files lb) sv"
    using j by (auto simp: joint_def)
  obtain sv' where s: "serve_step sv e = Some sv'" "serve_trace (lb @ [e]) = Some sv'" using acc i(3) by auto
  have m: "map sf_offer (sent_files la) = fw_offers fw" "\<forall>ofr \<in> set (fw_offers fw). usable ofr \<and> 0 \<notin> set (fo_Path ofr)"
    "fw_ph fw = Asking \<Longrightarrow> fw_offers fw \<noteq> []"
    using offers_match_trace [OF i(2)] by (auto simp: offers_match_def pending_def)
  have len: "length (fw_offers fw) = length (sent_files la)" by (simp flip: m(1))
  have "linked c fw sv' (rcvd_event (rcvd_files lb) e) (ahead (sv_last sv') rest) (ahead (fw_last fw) (ba @ put [e]))
      \<and> told c (sent_files la) (rcvd_event (rcvd_files lb) e) sv'"
  proof (cases e)
    case (EvRecv p)
    then have "linked c fw sv (rcvd_files lb) (p # rest) (ahead (fw_last fw) ba)"
      using linked_next_down [OF i(4)] by (simp add: taken_def)
    moreover have "told c (sent_files la) (rcvd_files lb) (sv\<lparr>sv_last := Some p\<rparr>)" using i(5) by (rule told_view) simp_all
    ultimately show ?thesis using EvRecv s(1) by (auto simp: serve_step_def ahead_def put_def rcvd_event_def)
  next
    case (EvSend f r)
    have l: "linked c fw sv (rcvd_files lb) (ahead (sv_last sv) rest) (ahead (fw_last fw) ba)" using i(4) EvSend by (simp add: taken_def)
    have st: "serve_send (sn_packet f) sv = Some sv'" using s(1) EvSend by (simp add: serve_step_def)
    have "put [e] = [] \<or> put [e] = [sn_packet f]" by (cases r) (simp_all add: EvSend put_def)
    then have "ahead (fw_last fw) (ba @ put [e]) = ahead (fw_last fw) ba \<or> ahead (fw_last fw) (ba @ put [e]) = ahead (fw_last fw) ba @ [sn_packet f]"
      by (auto simp: ahead_snoc)
    with linked_answer [OF l st m(2,3)]
    have "linked c fw sv' (rcvd_files lb) (ahead (sv_last sv') rest) (ahead (fw_last fw) (ba @ put [e]))
        \<and> sv_open sv' = sv_open sv \<and> sv_pos sv' = sv_pos sv" by blast
    with told_view [OF i(5), of sv'] EvSend show ?thesis by (simp add: rcvd_event_def)
  next
    case (EvAccept info w off herr)
    have l: "linked c fw sv (rcvd_files lb) (ahead (sv_last sv) rest) (ahead (fw_last fw) ba)" using i(4) EvAccept by (simp add: taken_def)
    from receiver_accepts [OF l i(5) s(1) [unfolded EvAccept] m(1,2)] show ?thesis by (simp add: EvAccept put_def)
  next
    case (EvWrite h data r)
    have l: "linked c fw sv (rcvd_files lb) (ahead (sv_last sv) rest) (ahead (fw_last fw) ba)" using i(4) EvWrite by (simp add: taken_def)
    from receiver_writes [OF l i(5) s(1) [unfolded EvWrite]] show ?thesis by (simp add: EvWrite put_def)
  next
    case (EvRecvCompleted info n r)
    have l: "linked c fw sv (rcvd_files lb) (ahead (sv_last sv) rest) (ahead (fw_last fw) ba)" using i(4) EvRecvCompleted by (simp add: taken_def)
    from receiver_reports [OF l i(5) s(1) [unfolded EvRecvCompleted]] show ?thesis by (simp add: EvRecvCompleted put_def)
  qed (use i s(1) in \<open>simp_all add: taken_def put_def rcvd_event_def serve_step_def\<close>)
  with s i(1,2) show ?thesis by (auto simp: joint_def)
qed

subsection \<open>One step of the network\<close>

lemma joint_start: "joint c [] [] [] []"
  by (simp add: joint_def send_trace_def serve_trace_def flow_start_def serve_start_def linked_def ahead_def st_between_def told_def current_def)

lemma joint_senders:
  "joint c la lb ab (taken es @ rest) \<Longrightarrow> send_trace (la @ es) \<noteq> None \<Longrightarrow> flow_trace c (la @ es) \<noteq> None \<Longrightarrow>
    joint c (la @ es) lb (ab @ put es) rest"
proof (induction es arbitrary: rest rule: rev_induct)
  case (snoc e es)
  have acc: "send_trace ((la @ es) @ [e]) \<noteq> None" "flow_trace c ((la @ es) @ [e]) \<noteq> None"
    using snoc.prems by simp_all
  then have "send_trace (la @ es) \<noteq> None" "flow_trace c (la @ es) \<noteq> None"
    by (auto simp del: append_assoc simp: send_trace_snoc flow_trace_snoc bind_eq_Some_conv)
  with snoc.IH [of "taken [e] @ rest"] snoc.prems have "joint c (la @ es) lb (ab @ put es) (taken [e] @ rest)" by simp
  from joint_sender [OF this acc] show ?case by simp
qed simp

lemma joint_receivers:
  "joint c la lb (taken es @ rest) ba \<Longrightarrow> serve_trace (lb @ es) \<noteq> None \<Longrightarrow> joint c la (lb @ es) rest (ba @ put es)"
proof (induction es arbitrary: rest rule: rev_induct)
  case (snoc e es)
  have acc: "serve_trace ((lb @ es) @ [e]) \<noteq> None" using snoc.prems by simp
  then have "serve_trace (lb @ es) \<noteq> None" by (auto simp del: append_assoc simp: bind_eq_Some_conv)
  with snoc.IH [of "taken [e] @ rest"] snoc.prems have "joint c la (lb @ es) (taken [e] @ rest) (ba @ put es)" by simp
  from joint_receiver [OF this acc] show ?case by simp
qed simp

definition net_ok :: "(nat \<Rightarrow> byte list) \<Rightarrow> net \<Rightarrow> bool" where
  "net_ok c n \<longleftrightarrow> tx_ok (nt_snd n) \<and> flow_ok c (nt_snd n) \<and> rx_ok (nt_rcv n) \<and> serve_ok (nt_rcv n)
     \<and> joint c (s_log (nt_snd n)) (s_log (nt_rcv n)) (nt_down n) (nt_up n)"

lemma net_ok_step:
  assumes gs: "good_sender Es c" and gr: "good_receiver Er" and st: "nstep Es Er n n'" and ok: "net_ok c n"
  shows "net_ok c n'"
  using st
proof cases
  case (nt_sender a rest)
  have k: "tx_ok a" "flow_ok c a" using sender.bstep_keeps [OF nt_sender(2), of c] gs ok by (simp_all add: net_ok_def)
  then have "send_trace (s_log a) \<noteq> None" "flow_trace c (s_log a) \<noteq> None" by (auto simp: flow_unfold)
  with joint_senders [of c "s_log (nt_snd n)" _ _ "new_events (nt_snd n) a" rest] ok nt_sender bstep_log [OF nt_sender(2)] k
  show ?thesis by (simp add: net_ok_def)
next
  case (nt_receiver b rest)
  have k: "rx_ok b" "serve_ok b" using receiver.bstep_keeps [OF nt_receiver(2)] gr ok by (simp_all add: net_ok_def)
  then have "serve_trace (s_log b) \<noteq> None" by (auto simp: serve_at_def serves_def)
  with joint_receivers [of c _ "s_log (nt_rcv n)" "new_events (nt_rcv n) b" rest] ok nt_receiver bstep_log [OF nt_receiver(2)] k
  show ?thesis by (simp add: net_ok_def)
next
  case (nt_lose_down ps p qs)
  with ok show ?thesis by (auto simp: net_ok_def intro: joint_lose_down)
next
  case (nt_lose_up ps p qs)
  with ok show ?thesis by (auto simp: net_ok_def intro: joint_lose_up)
qed

lemma net_ok_reach:
  assumes "(nstep Es Er)\<^sup>*\<^sup>* n n'" and "good_sender Es c" and "good_receiver Er" and "net_ok c n"
  shows "net_ok c n'"
  using assms(1) by induction (use assms(2-) in \<open>auto intro: net_ok_step\<close>)

lemma net_ok_start:
  assumes "s_log s = []" and "s_log r = []" and "0 \<notin> set (cf_AppID (s_config s))"
  shows "net_ok c (nt_start Es Er s r)"
proof -
  have log: "s_log (batch_start E x) = s_log x" for E x
    by (simp add: batch_start_def feedBraindead_def tick_def newBatch_def session.defs Let_def)
  have "tx_ok (batch_start Es s)" using assms tx_ok_new [of s] by (simp add: batch_start_def send_trace_def)
  moreover have "rx_ok (batch_start Er r)" using assms rx_ok_new [of r] by (simp add: batch_start_def recv_trace_def)
  ultimately show ?thesis
    using assms by (simp add: net_ok_def nt_start_def flow_start_ok serve_start_ok log joint_start)
qed

lemma told_reach:
  assumes "(nstep Es Er)\<^sup>*\<^sup>* (nt_start Es Er s r) n" and "good_sender Es c" and "good_receiver Er"
    and "s_log s = []" and "s_log r = []" and "0 \<notin> set (cf_AppID (s_config s))"
  obtains sv where "told c (sent_files (s_log (nt_snd n))) (rcvd_files (s_log (nt_rcv n))) sv"
proof -
  have "net_ok c n" using assms by (intro net_ok_reach [OF assms(1)] net_ok_start)
  with that show thesis by (auto simp: net_ok_def joint_def)
qed

text \<open>The network is the same seen from the other end.\<close>

definition turned :: "net \<Rightarrow> net" where
  "turned n = \<lparr>nt_snd = nt_rcv n, nt_rcv = nt_snd n, nt_down = nt_up n, nt_up = nt_down n\<rparr>"

lemma turned_step: "nstep Es Er n n' \<Longrightarrow> nstep Er Es (turned n) (turned n')"
proof (induction rule: nstep.induct)
  case (nt_sender n a rest)
  then show ?case using nstep.nt_receiver [of Es "turned n" a rest Er] by (simp add: turned_def)
next
  case (nt_receiver n b rest)
  then show ?case using nstep.nt_sender [of Er "turned n" b rest Es] by (simp add: turned_def)
next
  case (nt_lose_down n ps p qs)
  then show ?case using nstep.nt_lose_up [of "turned n" ps p qs Er Es] by (simp add: turned_def)
next
  case (nt_lose_up n ps p qs)
  then show ?case using nstep.nt_lose_down [of "turned n" ps p qs Er Es] by (simp add: turned_def)
qed

lemma turned_reach: "(nstep Es Er)\<^sup>*\<^sup>* n n' \<Longrightarrow> (nstep Er Es)\<^sup>*\<^sup>* (turned n) (turned n')"
  by (induction rule: rtranclp_induct) (auto intro: rtranclp.rtrancl_into_rtrancl turned_step)

subsection \<open>The theorem\<close>


subsection \<open>Both ways at once\<close>

definition carried_over :: "(nat \<Rightarrow> byte list) \<Rightarrow> batch \<Rightarrow> batch \<Rightarrow> bool" where
  \<comment> \<open>the files the one application was given are those the other one offered\<close>
  "carried_over c a b \<longleftrightarrow> length (rcvd_files (s_log b)) \<le> length (sent_files (s_log a))
     \<and> (\<forall>i < length (rcvd_files (s_log b)). rcvd_ok (c i) (sf_offer (sent_files (s_log a) ! i)) (rcvd_files (s_log b) ! i))
     \<and> (\<forall>i < length (sent_files (s_log a)). sf_result (sent_files (s_log a) ! i) = Some None \<longrightarrow>
          i < length (rcvd_files (s_log b)) \<and> rf_result (rcvd_files (s_log b) ! i) = Some None)"

lemma told_carried: "told c (sent_files (s_log a)) (rcvd_files (s_log b)) sv \<Longrightarrow> carried_over c a b"
  by (auto simp: carried_over_def dest: toldD)

text \<open>
  Property C2. The protocol is bidirectional: when both applications offer files whose sources yield fixed
  contents and both accept every file, then at every moment of the two runs, whatever the
  channels have lost, each application has been given a beginning of what the other one
  offered, file by file, in order and unchanged, and each success one of them was told is
  one the other was told.
\<close>

theorem both_ways_end_to_end:
  assumes "good_sender Ea ca" and "good_receiver Ea" and "good_sender Eb cb" and "good_receiver Eb"
    and "s_log s = []" and "s_log r = []" and "0 \<notin> set (cf_AppID (s_config s))" and "0 \<notin> set (cf_AppID (s_config r))"
    and reach: "(nstep Ea Eb)\<^sup>*\<^sup>* (nt_start Ea Eb s r) n"
  shows "carried_over ca (nt_snd n) (nt_rcv n) \<and> carried_over cb (nt_rcv n) (nt_snd n)"
proof -
  have "turned (nt_start Ea Eb s r) = nt_start Eb Ea r s" by (simp add: turned_def nt_start_def)
  then have turn: "(nstep Eb Ea)\<^sup>*\<^sup>* (nt_start Eb Ea r s) (turned n)" using turned_reach [OF reach] by simp
  obtain sv where "told ca (sent_files (s_log (nt_snd n))) (rcvd_files (s_log (nt_rcv n))) sv"
    using told_reach [OF reach assms(1,4,5,6,7)] .
  moreover obtain sv' where "told cb (sent_files (s_log (nt_snd (turned n)))) (rcvd_files (s_log (nt_rcv (turned n)))) sv'"
    using told_reach [OF turn assms(3,2,6,5,8)] .
  ultimately show ?thesis by (auto intro: told_carried simp: turned_def)
qed

end
