(* ===== verification/Hydra_Arrival.thy ===== *)
theory Hydra_Arrival
  imports Hydra_EndToEnd Hydra_Demo
begin

section \<open>A file arrives\<close>

text \<open>
  The converse of \<open>Hydra_EndToEnd\<close>: when nothing is lost, two sessions can bring a file of any
  content from one application to the other. The run is followed move by move; the loop over the
  DATA blocks is an induction on what is left to send.
\<close>

subsection \<open>Moves\<close>

text \<open>
  \<open>moves E P ins outs Q\<close>: a session in a state \<open>P\<close> can take one step of its event loop that
  takes the packets \<open>ins\<close>, sends the packets \<open>outs\<close> and leaves it in a state \<open>Q\<close>.
\<close>

definition moves :: "env \<Rightarrow> (batch \<Rightarrow> bool) \<Rightarrow> packet list \<Rightarrow> packet list \<Rightarrow> (batch \<Rightarrow> bool) \<Rightarrow> bool" where
  "moves E P ins outs Q \<longleftrightarrow> (\<forall>a. P a \<and> tx_ok a \<longrightarrow>
     (\<exists>a' es. bstep E a a' \<and> s_log a' = s_log a @ es \<and> taken es = ins \<and> put es = outs \<and> Q a'))"

lemma moves_packet:
  assumes "\<And>a. P a \<Longrightarrow> tx_ok a \<Longrightarrow> \<exists>a' es. handlePacket E p a = (a', None) \<and> s_log a' = s_log a @ EvRecv p # es
     \<and> taken es = [] \<and> put es = outs \<and> Q a'"
  shows "moves E P [p] outs Q"
  unfolding moves_def
proof (intro allI impI)
  fix a assume "P a \<and> tx_ok a"
  with assms obtain a' es where a: "handlePacket E p a = (a', None)" "s_log a' = s_log a @ EvRecv p # es"
    "taken es = []" "put es = outs" "Q a'" by blast
  then have "taken (EvRecv p # es) = [p]" "put (EvRecv p # es) = outs" by (simp_all add: taken_def put_def)
  with a st_packet show "\<exists>a' es. bstep E a a' \<and> s_log a' = s_log a @ es \<and> taken es = [p] \<and> put es = outs \<and> Q a'" by blast
qed

lemma moves_action:
  assumes "\<And>a. P a \<Longrightarrow> tx_ok a \<Longrightarrow> \<exists>a' es. txAction E a = Some (a', None) \<and> s_log a' = s_log a @ es
     \<and> taken es = [] \<and> put es = outs \<and> Q a'"
  shows "moves E P [] outs Q"
  unfolding moves_def using assms st_txAction by meson

lemma moves_sync: "(\<And>a. P a \<Longrightarrow> s_log (batch_sync E a) = s_log a \<and> Q (batch_sync E a)) \<Longrightarrow> moves E P [] [] Q"
  unfolding moves_def using st_sync by (intro allI impI exI [of _ "batch_sync E _"] exI [of _ "[]"]) auto

text \<open>What a run from the start can lead to, with the packets that are on their way.\<close>

definition leads :: "env \<Rightarrow> env \<Rightarrow> (batch \<Rightarrow> bool) \<Rightarrow> (batch \<Rightarrow> bool) \<Rightarrow> packet list \<Rightarrow> packet list \<Rightarrow> bool" where
  "leads Es Er P Q d u \<longleftrightarrow> (\<exists>a b. (nstep Es Er)\<^sup>*\<^sup>* (nt_start Es Er demoSession demoSession)
       \<lparr>nt_snd = a, nt_rcv = b, nt_down = d, nt_up = u\<rparr> \<and> P a \<and> Q b \<and> tx_ok a \<and> tx_ok b)"

lemma leads_sender:
  assumes l: "leads Es Er P Q d (ins @ u)" and m: "moves Es P ins outs P'"
  shows "leads Es Er P' Q (d @ outs) u"
proof -
  obtain a b where ab: "(nstep Es Er)\<^sup>*\<^sup>* (nt_start Es Er demoSession demoSession)
       \<lparr>nt_snd = a, nt_rcv = b, nt_down = d, nt_up = ins @ u\<rparr>" "P a" "Q b" "tx_ok a" "tx_ok b"
    using l by (auto simp: leads_def)
  obtain a' es where a': "bstep Es a a'" "s_log a' = s_log a @ es" "taken es = ins" "put es = outs" "P' a'"
    using m ab(2,4) by (auto simp: moves_def)
  have "nstep Es Er \<lparr>nt_snd = a, nt_rcv = b, nt_down = d, nt_up = ins @ u\<rparr> \<lparr>nt_snd = a', nt_rcv = b, nt_down = d @ outs, nt_up = u\<rparr>"
    using nt_sender [of Es "\<lparr>nt_snd = a, nt_rcv = b, nt_down = d, nt_up = ins @ u\<rparr>" a' u Er] a' by (simp add: new_events_def)
  with ab a' tx.bstep_keeps [OF a'(1) ab(4)] show ?thesis by (auto simp: leads_def intro: rtranclp.rtrancl_into_rtrancl)
qed

lemma leads_receiver:
  assumes l: "leads Es Er P Q (ins @ d) u" and m: "moves Er Q ins outs Q'"
  shows "leads Es Er P Q' d (u @ outs)"
proof -
  obtain a b where ab: "(nstep Es Er)\<^sup>*\<^sup>* (nt_start Es Er demoSession demoSession)
       \<lparr>nt_snd = a, nt_rcv = b, nt_down = ins @ d, nt_up = u\<rparr>" "P a" "Q b" "tx_ok a" "tx_ok b"
    using l by (auto simp: leads_def)
  obtain b' es where b': "bstep Er b b'" "s_log b' = s_log b @ es" "taken es = ins" "put es = outs" "Q' b'"
    using m ab(3,5) by (auto simp: moves_def)
  have "nstep Es Er \<lparr>nt_snd = a, nt_rcv = b, nt_down = ins @ d, nt_up = u\<rparr> \<lparr>nt_snd = a, nt_rcv = b', nt_down = d, nt_up = u @ outs\<rparr>"
    using nt_receiver [of Er "\<lparr>nt_snd = a, nt_rcv = b, nt_down = ins @ d, nt_up = u\<rparr>" b' d Es] b' by (simp add: new_events_def)
  with ab b' tx.bstep_keeps [OF b'(1) ab(5)] show ?thesis by (auto simp: leads_def intro: rtranclp.rtrancl_into_rtrancl)
qed

lemmas leads_sends = leads_sender [where ins = "[]", unfolded append.simps(1)]
  and leads_takes = leads_sender [where ins = "[p]" for p, unfolded append.simps]
  and leads_answers = leads_receiver [where ins = "[]", unfolded append.simps(1)]
  and leads_receives = leads_receiver [where ins = "[p]" for p, unfolded append.simps]

subsection \<open>The handshake\<close>

definition fresh_at :: "txState \<Rightarrow> rxState \<Rightarrow> batch \<Rightarrow> bool" where
  \<comment> \<open>no file so far, and no windows\<close>
  "fresh_at t r b \<longleftrightarrow> b_txState b = t \<and> b_rxState b = r \<and> s_config b = defaults None \<and> b_lastFinfo b = None \<and> b_txOffer b = None
     \<and> \<not> b_batchEnded b \<and> b_lastRefusedFinfo b = None \<and> b_txWindow b = 0 \<and> b_rxWindow b = 0
     \<and> sent_files (s_log b) = [] \<and> rcvd_files (s_log b) = []"

definition writes_through :: "env \<Rightarrow> bool" where
  "writes_through E \<longleftrightarrow> (\<forall>es. en_write E es = None)"

abbreviation bare :: "byte \<Rightarrow> packet" where "bare t \<equiv> \<lparr>pkt_typ = t, pkt_payload = []\<rparr>"

lemma files_grow:
  "sent_files (es @ fs) = foldl sent_event (sent_files es) fs" "rcvd_files (es @ fs) = foldl rcvd_event (rcvd_files es) fs"
  by (simp_all add: sent_files_def rcvd_files_def)

lemmas move_simps = fresh_at_def writes_through_def emit_def fine_def tick_def set_txTimer_def armTx_def feedBraindead_def
  batch_write_def writer_write_def writeRaw_def Let_def files_grow sent_event_def rcvd_event_def taken_def put_def

lemma move_START: "writes_through E \<Longrightarrow> moves E (fresh_at htxStart r) [] [bare pktSTART] (fresh_at htxSwait r)"
  by (rule moves_action) (simp add: txAction_def move_simps)

lemma move_started: "moves E (fresh_at htxSwait r) [bare pktSTART] [] (fresh_at htxInit r)"
  by (rule moves_packet) (simp add: handlePacket_def move_simps)

lemma move_INIT: "writes_through E \<Longrightarrow> moves E (fresh_at htxInit r) [] [init_packet (defaults None)] (fresh_at htxInitAck r)"
  by (rule moves_action) (simp add: txAction_def sendInit_def init_packet_def move_simps)

lemma default_facts:
  "0 \<notin> set (cf_AppID (defaults None))" "cf_TxWindowBytes (defaults None) = 0" "cf_RxWindowBytes (defaults None) = 0"
  "localDesired (defaults None) AND capEscape = 0"
proof -
  show "0 \<notin> set (cf_AppID (defaults None))" "cf_TxWindowBytes (defaults None) = 0" "cf_RxWindowBytes (defaults None) = 0"
    by (simp_all add: defaults_def zeroConfig_def defaultAppID_text Let_def)
  have "localDesired (defaults None) = capFPT" by (simp add: localDesired_def defaults_def zeroConfig_def Let_def)
  then show "localDesired (defaults None) AND capEscape = 0" by (simp add: cap_defs)
qed

lemma move_greeted:
  assumes "writes_through E"
  shows "moves E (fresh_at t hrxInit) [init_packet (defaults None)] [bare pktINITACK] (fresh_at t hrxFinfo)"
proof (rule moves_packet)
  let ?p = "init_packet (defaults None)"
  have parse: "parseInit (marshalInit (local_init (defaults None))) = Inr (local_init (defaults None))"
    by (rule parse_local_init) (rule default_facts)
  fix a assume a: "fresh_at t hrxInit a"
  have s: "s_config (emit (EvRecv ?p) a) = defaults None" "b_rxState (emit (EvRecv ?p) a) = hrxInit"
    using a by (simp_all add: fresh_at_def emit_def)
  show "\<exists>a' es. handlePacket E ?p a = (a', None) \<and> s_log a' = s_log a @ EvRecv ?p # es
      \<and> taken es = [] \<and> put es = [bare pktINITACK] \<and> fresh_at t hrxFinfo a'"
    using a assms
    by (simp add: handlePacket_def init_packet_def rxInit_def parse negotiate_def default_facts s [unfolded init_packet_def] Let_def)
      (simp add: move_simps local_init_def default_facts peer_window_def mergeWindow_def)
qed

lemma move_joined: "moves E (fresh_at htxInitAck r) [bare pktINITACK] [] (fresh_at htxRinit r)"
  by (rule moves_packet) (simp add: handlePacket_def move_simps)

lemma move_ready: "moves E (fresh_at htxRinit hrxFinfo) [] [] (fresh_at htxFinfo hrxFinfo)"
  by (rule moves_sync) (simp add: batch_sync_def fresh_at_def)

lemma demo_log: "s_log demoSession = []" "0 \<notin> set (cf_AppID (s_config demoSession))"
  by (simp_all add: demoSession_def run_setup_def NewSession_def defaults_def defaultAppID_text zeroConfig_def Let_def)

lemma fresh_start: "fresh_at htxStart hrxInit (batch_start E demoSession)" "tx_ok (batch_start E demoSession)"
proof -
  show "fresh_at htxStart hrxInit (batch_start E demoSession)"
    by (simp add: fresh_at_def batch_start_def feedBraindead_def tick_def newBatch_def session.defs demoSession_def
        run_setup_def NewSession_def Let_def)
  show "tx_ok (batch_start E demoSession)" using tx_ok_new [of demoSession] by (simp add: batch_start_def demo_log send_trace_def)
qed

lemma handshake:
  assumes s: "writes_through Es" and r: "writes_through Er"
  shows "leads Es Er (fresh_at htxFinfo hrxFinfo) (fresh_at htxRinit hrxFinfo) [] []"
proof -
  have "leads Es Er (fresh_at htxStart hrxInit) (fresh_at htxStart hrxInit) [] []"
    using fresh_start by (auto simp: leads_def nt_start_def)
  from leads_sends [OF this move_START [OF s]]
  have "leads Es Er (fresh_at htxSwait hrxInit) (fresh_at htxStart hrxInit) [bare pktSTART] []" by simp
  from leads_answers [OF this move_START [OF r]]
  have "leads Es Er (fresh_at htxSwait hrxInit) (fresh_at htxSwait hrxInit) [bare pktSTART] [bare pktSTART]" by simp
  from leads_takes [OF this move_started]
  have "leads Es Er (fresh_at htxInit hrxInit) (fresh_at htxSwait hrxInit) [bare pktSTART] []" by simp
  from leads_receives [OF this move_started]
  have "leads Es Er (fresh_at htxInit hrxInit) (fresh_at htxInit hrxInit) [] []" by simp
  from leads_sends [OF this move_INIT [OF s]]
  have "leads Es Er (fresh_at htxInitAck hrxInit) (fresh_at htxInit hrxInit) [init_packet (defaults None)] []" by simp
  from leads_answers [OF this move_INIT [OF r]]
  have "leads Es Er (fresh_at htxInitAck hrxInit) (fresh_at htxInitAck hrxInit) [init_packet (defaults None)] [init_packet (defaults None)]" by simp
  from leads_takes [OF this move_greeted [OF s]]
  have "leads Es Er (fresh_at htxInitAck hrxFinfo) (fresh_at htxInitAck hrxInit) [init_packet (defaults None), bare pktINITACK] []" by simp
  from leads_receives [OF this move_greeted [OF r]]
  have "leads Es Er (fresh_at htxInitAck hrxFinfo) (fresh_at htxInitAck hrxFinfo) [bare pktINITACK] [bare pktINITACK]" by simp
  from leads_takes [OF this move_joined]
  have "leads Es Er (fresh_at htxRinit hrxFinfo) (fresh_at htxInitAck hrxFinfo) [bare pktINITACK] []" by simp
  from leads_receives [OF this move_joined]
  have "leads Es Er (fresh_at htxRinit hrxFinfo) (fresh_at htxRinit hrxFinfo) [] []" by simp
  from leads_sends [OF this move_ready] show ?thesis by simp
qed

subsection \<open>The file\<close>

definition plain_sender :: "env \<Rightarrow> FileOffer \<Rightarrow> byte list \<Rightarrow> bool" where
  \<comment> \<open>the application offers one file of this content first\<close>
  "plain_sender E ofr content \<longleftrightarrow> writes_through E \<and> good_sender E (\<lambda>_. content)
     \<and> (\<forall>es. sent_files es = [] \<longrightarrow> en_nextFile E es = Some ofr) \<and> usable ofr \<and> fo_Size ofr = int (length content)"

definition plain_receiver :: "env \<Rightarrow> bool" where
  \<comment> \<open>it takes every file from its beginning, and every write succeeds\<close>
  "plain_receiver E \<longleftrightarrow> writes_through E \<and> (\<forall>es info. \<exists>h. en_accept E es info = (Some h, 0, None))
     \<and> (\<forall>es h d. en_writeFile E es h d = None)"

definition carrying :: "FileOffer \<Rightarrow> txState \<Rightarrow> int \<Rightarrow> batch \<Rightarrow> bool" where
  "carrying ofr t p a \<longleftrightarrow> b_txState a = t \<and> b_txPos a = p \<and> b_txOffer a = Some ofr \<and> b_txInfo a = offerInfo ofr
     \<and> \<not> b_txSkip a \<and> b_txWindow a = 0 \<and> sent_files (s_log a) = [\<lparr>sf_offer = ofr, sf_result = None\<rparr>]
     \<and> (t = htxFinfoAck \<longrightarrow> b_finfoAckWait a \<and> \<not> b_txEOB a) \<and> (t = htxEOFAck \<longrightarrow> b_eofAckWait a)"

definition receiving :: "int \<Rightarrow> batch \<Rightarrow> bool" where
  "receiving p b \<longleftrightarrow> b_rxState b = hrxData \<and> b_rxPos b = p \<and> b_rxWindow b = 0 \<and> b_rxOpen b
     \<and> (\<exists>f. rcvd_files (s_log b) = [f] \<and> rf_start f = 0)"

definition received :: "batch \<Rightarrow> bool" where
  "received b \<longleftrightarrow> (\<exists>f. rcvd_files (s_log b) = [f] \<and> rf_start f = 0)"

definition reported_sent :: "FileOffer \<Rightarrow> batch \<Rightarrow> bool" where
  "reported_sent ofr a \<longleftrightarrow> sent_files (s_log a) = [\<lparr>sf_offer = ofr, sf_result = Some None\<rparr>]"

abbreviation told_finfo :: "FileOffer \<Rightarrow> bool \<Rightarrow> packet" where
  "told_finfo ofr v \<equiv> \<lparr>pkt_typ = pktFINFO, pkt_payload = marshalFinfo (offer_meta ofr) v\<rparr>"

lemma move_offer:
  assumes s: "plain_sender E ofr content"
  shows "moves E (\<lambda>a. fresh_at htxFinfo hrxFinfo a \<and> has (b_opts a) capFPT = v) [] [told_finfo ofr v] (carrying ofr htxFinfoAck 0)"
proof (rule moves_action)
  fix a assume a: "fresh_at htxFinfo hrxFinfo a \<and> has (b_opts a) capFPT = v"
  have u: "usable ofr" "en_nextFile E (s_log a) = Some ofr" using s a by (simp_all add: plain_sender_def fresh_at_def)
  then have "pullOffers E a = Some ((emit (EvNextFile (Some ofr)) a)\<lparr>b_txOffer := Some ofr\<rparr>)"
    using a by (subst pullOffers.simps) (auto simp: fresh_at_def usable_def Let_def)
  then have f: "sendFinfo E a = Some (batch_write E pktFINFO (case b_lastFinfo (prepareFinfo ((emit (EvNextFile (Some ofr)) a)\<lparr>b_txOffer := Some ofr\<rparr>)) of
      Some p \<Rightarrow> p | None \<Rightarrow> []) (prepareFinfo ((emit (EvNextFile (Some ofr)) a)\<lparr>b_txOffer := Some ofr\<rparr>)))"
    using a by (simp add: sendFinfo_def fresh_at_def)
  show "\<exists>a' es. txAction E a = Some (a', None) \<and> s_log a' = s_log a @ es \<and> taken es = [] \<and> put es = [told_finfo ofr v]
      \<and> carrying ofr htxFinfoAck 0 a'"
    using a u s by (simp add: txAction_def f prepareFinfo_def move_simps carrying_def offer_meta_def plain_sender_def)
qed

lemma move_accept:
  assumes r: "plain_receiver E" and s: "plain_sender Es ofr content"
  shows "moves E (fresh_at htxRinit hrxFinfo) [told_finfo ofr v] [\<lparr>pkt_typ = pktFINFOACK, pkt_payload = marshalOffset 0\<rparr>] (receiving 0)"
proof (rule moves_packet)
  fix b assume b: "fresh_at htxRinit hrxFinfo b"
  have u: "usable ofr" "0 \<notin> set (fo_Path ofr)"
    using s by (auto simp: plain_sender_def good_sender_def dest: spec [of _ "[]"])
  obtain m where m: "acceptable (marshalFinfo (offer_meta ofr) v) = Some m" "fm_size m = fo_Size ofr"
  proof -
    have "announces ofr (marshalFinfo (offer_meta ofr) v)" unfolding announces_def by (cases v) simp_all
    from acceptable_asks(1) [OF u this] that show thesis by blast
  qed
  then have p: "\<not> isFinfoEOB (marshalFinfo (offer_meta ofr) v)" "parseFinfo (marshalFinfo (offer_meta ofr) v) = Inr m"
    by (auto simp: acceptable_def split: if_splits sum.splits)
  obtain h where h: "en_accept E (s_log b @ [EvRecv (told_finfo ofr v)]) (finfo_info m (b_filesRcvd b)) = (Some h, 0, None)"
    using r unfolding plain_receiver_def by blast
  show "\<exists>b' es. handlePacket E (told_finfo ofr v) b = (b', None) \<and> s_log b' = s_log b @ EvRecv (told_finfo ofr v) # es
      \<and> taken es = [] \<and> put es = [\<lparr>pkt_typ = pktFINFOACK, pkt_payload = marshalOffset 0\<rparr>] \<and> receiving 0 b'"
    using b m(2) p h u(1) r
    by (simp add: handlePacket_def rxFinfo_def acceptFinfo_def move_simps receiving_def usable_def plain_receiver_def finfo_info_def to_int32_small)
qed

lemma move_agreed:
  assumes s: "plain_sender Es ofr content"
  shows "moves E (carrying ofr htxFinfoAck 0) [\<lparr>pkt_typ = pktFINFOACK, pkt_payload = marshalOffset 0\<rparr>] [] (carrying ofr htxXdata 0)"
  by (rule moves_packet)
    (use s in \<open>simp add: handlePacket_def txFinfoAck_def carrying_def move_simps fits_int32_def offerInfo_def plain_sender_def\<close>)

lemma source_left:
  assumes s: "plain_sender E ofr content" and a: "carrying ofr htxXdata p a" "tx_ok a"
  obtains h where "b_txReader a = Some h" "en_source E (s_log a) h n = (drop (nat p) content, IoEOF)"
proof -
  obtain k blk where f: "sends a = Some (SFile (unhooked ofr) k (Some p) blk)" "b_txReader a = fo_Reader ofr" "fo_Reader ofr \<noteq> None"
    using a by (auto simp: carrying_def tx_ok_def tx_file_def)
  then obtain h where h: "fo_Reader ofr = Some h" by auto
  then have "en_source E (s_log a) h n = (drop (nat p) content, IoEOF)"
  proof -
    have "\<forall>es ofr hk p blk h n. send_trace es = Some (SFile ofr hk (Some p) blk) \<and> fo_Reader ofr = Some h \<longrightarrow>
        en_source E es h n = (drop (nat p) content, IoEOF)" using s unfolding plain_sender_def good_sender_def by blast
    moreover have "send_trace (s_log a) = Some (SFile (unhooked ofr) k (Some p) blk) \<and> fo_Reader (unhooked ofr) = Some h"
      using f(1) h by (simp add: sends_def)
    ultimately show ?thesis by blast
  qed
  with that f h show ?thesis by simp
qed

lemma read_some: "fst (read_full d IoEOF n) = take n d" "snd (read_full d IoEOF n) \<in> {None, Some IoEOF, Some IoUnexpectedEOF}"
  by (auto simp: read_full_def)

lemma move_data:
  assumes s: "plain_sender E ofr content" and p: "0 \<le> p" "p < int (length content)" and k: "0 < k"
  shows "moves E (\<lambda>a. carrying ofr htxXdata p a \<and> nat (bs_size (b_blk a)) = k) []
    [\<lparr>pkt_typ = pktDATA, pkt_payload = marshalData p (take k (drop (nat p) content))\<rparr>]
    (carrying ofr htxXdata (p + int (length (take k (drop (nat p) content)))))"
proof (rule moves_action)
  let ?d = "take k (drop (nat p) content)"
  fix a assume a: "carrying ofr htxXdata p a \<and> nat (bs_size (b_blk a)) = k" and t: "tx_ok a"
  obtain h where h: "b_txReader a = Some h" "en_source E (s_log a) h k = (drop (nat p) content, IoEOF)"
    using source_left [OF s _ t] a by blast
  obtain r where r: "read_full (drop (nat p) content) IoEOF k = (?d, r)" "r = None \<or> r = Some IoEOF \<or> r = Some IoUnexpectedEOF"
    using read_some [of "drop (nat p) content" k] by (cases "read_full (drop (nat p) content) IoEOF k") auto
  have n: "?d \<noteq> []" "p + int (length ?d) \<le> SafeMaxOffset"
    using p k s by (auto simp: plain_sender_def usable_def)
  show "\<exists>a' es. txAction E a = Some (a', None) \<and> s_log a' = s_log a @ es \<and> taken es = []
      \<and> put es = [\<lparr>pkt_typ = pktDATA, pkt_payload = marshalData p ?d\<rparr>] \<and> carrying ofr htxXdata (p + int (length ?d)) a'"
    using a h r n s
    by (auto simp: txAction_def sendData_def sendData_sent_def carrying_def move_simps plain_sender_def simp del: length_take take_eq_Nil)
qed

lemma move_end:
  assumes s: "plain_sender E ofr content" and p: "p = int (length content)"
  shows "moves E (carrying ofr htxXdata p) [] [] (carrying ofr htxEOF p)"
proof (rule moves_action)
  fix a assume a: "carrying ofr htxXdata p a" and t: "tx_ok a"
  let ?k = "nat (bs_size (b_blk a))"
  have k: "0 < ?k" using t bs_size_bounds [of "b_blk a"] by (simp add: tx_ok_def)
  obtain h where h: "b_txReader a = Some h" "en_source E (s_log a) h ?k = (drop (nat p) content, IoEOF)"
    using source_left [OF s a t] by blast
  show "\<exists>a' es. txAction E a = Some (a', None) \<and> s_log a' = s_log a @ es \<and> taken es = [] \<and> put es = [] \<and> carrying ofr htxEOF p a'"
    using a h k p by (auto simp: txAction_def sendData_def carrying_def move_simps read_full_def)
qed

lemma move_EOF:
  assumes s: "plain_sender E ofr content"
  shows "moves E (carrying ofr htxEOF p) [] [\<lparr>pkt_typ = pktEOF, pkt_payload = marshalOffset p\<rparr>] (carrying ofr htxEOFAck p)"
  by (rule moves_action) (use s in \<open>simp add: txAction_def carrying_def move_simps plain_sender_def\<close>)

lemma move_sent: "moves E (carrying ofr htxEOFAck p) [bare pktEOFACK] [] (reported_sent ofr)"
  by (rule moves_packet)
    (simp add: handlePacket_def txEOFAck_def carrying_def reported_sent_def closeTxOffer_def closeOffer_def sendCompleted_def
      finishTxFile_def change_last_def move_simps)

lemma move_write:
  assumes r: "plain_receiver E" and p: "0 \<le> p" "p + int (length d) \<le> SafeMaxOffset"
  shows "moves E (receiving p) [\<lparr>pkt_typ = pktDATA, pkt_payload = marshalData p d\<rparr>] [] (receiving (p + int (length d)))"
proof (rule moves_packet)
  fix b assume b: "receiving p b"
  have f: "fits_int32 p" using p by (simp add: fits_int32_def)
  show "\<exists>b' es. handlePacket E \<lparr>pkt_typ = pktDATA, pkt_payload = marshalData p d\<rparr> b = (b', None)
      \<and> s_log b' = s_log b @ EvRecv \<lparr>pkt_typ = pktDATA, pkt_payload = marshalData p d\<rparr> # es
      \<and> taken es = [] \<and> put es = [] \<and> receiving (p + int (length d)) b'"
    using b p r
    by (cases "b_rxWriter b")
      (auto simp: handlePacket_def rxData_def rxWrite_def parseData_marshal [OF f] receiving_def move_simps plain_receiver_def change_last_def)
qed

lemma move_closed:
  assumes r: "plain_receiver E" and p: "0 \<le> p" "p \<le> SafeMaxOffset"
  shows "moves E (receiving p) [\<lparr>pkt_typ = pktEOF, pkt_payload = marshalOffset p\<rparr>] [bare pktEOFACK] received"
proof (rule moves_packet)
  fix b assume b: "receiving p b"
  have f: "fits_int32 p" using p by (simp add: fits_int32_def)
  show "\<exists>b' es. handlePacket E \<lparr>pkt_typ = pktEOF, pkt_payload = marshalOffset p\<rparr> b = (b', None)
      \<and> s_log b' = s_log b @ EvRecv \<lparr>pkt_typ = pktEOF, pkt_payload = marshalOffset p\<rparr> # es
      \<and> taken es = [] \<and> put es = [bare pktEOFACK] \<and> received b'"
    using b p r
    by (cases "b_rxWriter b")
      (auto simp: handlePacket_def rxEOF_def rxCloseFile_def closeWriter_def recvCompleted_def parseOffset_marshal [OF f] receiving_def
        received_def move_simps plain_receiver_def change_last_def)
qed

text \<open>The block size of the moment, which is at least one byte.\<close>

lemma leads_block:
  assumes "leads Es Er P Q d u"
  obtains k where "0 < k" "leads Es Er (\<lambda>a. P a \<and> nat (bs_size (b_blk a)) = k) Q d u"
proof -
  obtain a b where ab: "(nstep Es Er)\<^sup>*\<^sup>* (nt_start Es Er demoSession demoSession)
       \<lparr>nt_snd = a, nt_rcv = b, nt_down = d, nt_up = u\<rparr>" "P a" "Q b" "tx_ok a" "tx_ok b"
    using assms by (auto simp: leads_def)
  then have "0 < nat (bs_size (b_blk a))" using bs_size_bounds [of "b_blk a"] by (simp add: tx_ok_def)
  moreover have "leads Es Er (\<lambda>a'. P a' \<and> nat (bs_size (b_blk a')) = nat (bs_size (b_blk a))) Q d u"
    using ab by (auto simp: leads_def)
  ultimately show thesis by (rule that)
qed

lemma all_data:
  assumes s: "plain_sender Es ofr content" and r: "plain_receiver Er"
  shows "leads Es Er (carrying ofr htxXdata p) (receiving p) [] [] \<Longrightarrow> 0 \<le> p \<Longrightarrow> p \<le> int (length content) \<Longrightarrow>
    leads Es Er (carrying ofr htxXdata (int (length content))) (receiving (int (length content))) [] []"
proof (induction "nat (int (length content) - p)" arbitrary: p rule: less_induct)
  case less
  show ?case
  proof (cases "p = int (length content)")
    case True
    with less.prems show ?thesis by simp
  next
    case False
    obtain k where k: "0 < k" "leads Es Er (\<lambda>a. carrying ofr htxXdata p a \<and> nat (bs_size (b_blk a)) = k) (receiving p) [] []"
      using leads_block [OF less.prems(1)] .
    define d where "d = take k (drop (nat p) content)"
    have d: "d \<noteq> []" "p + int (length d) \<le> int (length content)" using False less.prems k(1) by (auto simp: d_def)
    have size: "int (length content) \<le> SafeMaxOffset" using s by (simp add: plain_sender_def usable_def)
    have "leads Es Er (carrying ofr htxXdata (p + int (length d))) (receiving p) [\<lparr>pkt_typ = pktDATA, pkt_payload = marshalData p d\<rparr>] []"
      using leads_sends [OF k(2) move_data [OF s _ _ k(1)]] False less.prems by (simp add: d_def)
    from leads_receives [OF this move_write [OF r]]
    have "leads Es Er (carrying ofr htxXdata (p + int (length d))) (receiving (p + int (length d))) [] []"
      using less.prems d size by simp
    then show ?thesis using d less.prems False by (intro less.hyps [of "p + int (length d)"]) (auto simp: length_greater_0_conv)
  qed
qed

lemma leads_opts:
  assumes "leads Es Er P Q d u"
  obtains v where "leads Es Er (\<lambda>a. P a \<and> has (b_opts a) capFPT = v) Q d u"
  using assms that by (auto simp: leads_def)

lemma delivered:
  assumes s: "plain_sender Es ofr content" and r: "plain_receiver Er"
  shows "leads Es Er (reported_sent ofr) received [] []"
proof -
  let ?n = "int (length content)"
  have w: "writes_through Es" "writes_through Er" and n: "?n \<le> SafeMaxOffset"
    using s r by (simp_all add: plain_sender_def plain_receiver_def usable_def)
  obtain v where "leads Es Er (\<lambda>a. fresh_at htxFinfo hrxFinfo a \<and> has (b_opts a) capFPT = v) (fresh_at htxRinit hrxFinfo) [] []"
    using leads_opts [OF handshake [OF w]] .
  from leads_sends [OF this move_offer [OF s]]
  have "leads Es Er (carrying ofr htxFinfoAck 0) (fresh_at htxRinit hrxFinfo) [told_finfo ofr v] []" by simp
  from leads_receives [OF this move_accept [OF r s]]
  have "leads Es Er (carrying ofr htxFinfoAck 0) (receiving 0) [] [\<lparr>pkt_typ = pktFINFOACK, pkt_payload = marshalOffset 0\<rparr>]" by simp
  from leads_takes [OF this move_agreed [OF s]]
  have "leads Es Er (carrying ofr htxXdata 0) (receiving 0) [] []" by simp
  then have "leads Es Er (carrying ofr htxXdata ?n) (receiving ?n) [] []" by (rule all_data [OF s r]) simp_all
  from leads_sends [OF this move_end [OF s refl]]
  have "leads Es Er (carrying ofr htxEOF ?n) (receiving ?n) [] []" by simp
  from leads_sends [OF this move_EOF [OF s]]
  have "leads Es Er (carrying ofr htxEOFAck ?n) (receiving ?n) [\<lparr>pkt_typ = pktEOF, pkt_payload = marshalOffset ?n\<rparr>] []" by simp
  from leads_receives [OF this move_closed [OF r _ n]]
  have "leads Es Er (carrying ofr htxEOFAck ?n) received [] [bare pktEOFACK]" by simp
  from leads_takes [OF this move_sent] show ?thesis by simp
qed

lemma plain_good: "plain_sender E ofr content \<Longrightarrow> good_sender E (\<lambda>_. content)" "plain_receiver E \<Longrightarrow> good_receiver E"
proof -
  show "good_sender E (\<lambda>_. content)" if "plain_sender E ofr content" using that by (simp add: plain_sender_def)
  assume r: "plain_receiver E"
  have "case en_accept E es info of (w, off, herr) \<Rightarrow> w \<noteq> None \<and> herr = None \<and> resume_ok info off" for es info
  proof -
    obtain h where "en_accept E es info = (Some h, 0, None)" using r unfolding plain_receiver_def by blast
    then show ?thesis by (simp add: resume_ok_def)
  qed
  then show "good_receiver E" by (simp add: good_receiver_def)
qed

subsection \<open>The property\<close>


subsection \<open>Two applications\<close>

text \<open>
  Applications of this kind. The source is a function of the log: its position is where the
  reads and seeks so far have left it.
\<close>

definition cursor :: "event list \<Rightarrow> int" where
  "cursor es = foldl (\<lambda>p e. case e of EvNextFile (Some f) \<Rightarrow> 0 | EvRead h buf r \<Rightarrow> p + int (length buf)
     | EvSeek h off None \<Rightarrow> off | _ \<Rightarrow> p) 0 es"

definition senderEnv :: "FileOffer \<Rightarrow> byte list \<Rightarrow> env" where
  "senderEnv ofr content = exEnv\<lparr>en_nextFile := \<lambda>es. if sent_files es = [] then Some ofr else None,
     en_source := \<lambda>es h n. (drop (nat (cursor es)) content, IoEOF)\<rparr>"

lemma cursor_pos: "send_trace es = Some (SFile ofr h (Some p) blk) \<Longrightarrow> cursor es = p"
proof (induction es arbitrary: ofr h p blk rule: rev_induct)
  case Nil
  then show ?case by (simp add: send_trace_def)
next
  case (snoc e es)
  then obtain ph where ph: "send_trace es = Some ph" "send_step ph e = Some (SFile ofr h (Some p) blk)"
    by (auto simp: send_trace_snoc bind_eq_Some_conv)
  have snoc_cursor: "cursor (es @ [e]) = (case e of EvNextFile (Some f) \<Rightarrow> 0 | EvRead h buf r \<Rightarrow> cursor es + int (length buf)
      | EvSeek h off None \<Rightarrow> off | _ \<Rightarrow> cursor es)"
    by (cases e) (simp_all add: cursor_def split: option.split)
  show ?case
  proof (cases ph)
    case SIdle
    with ph(2) show ?thesis unfolding snoc_cursor by (cases e) (auto split: option.splits if_splits)
  next
    case (SFile ofr0 h0 p0 blk0)
    with ph snoc.IH show ?thesis unfolding snoc_cursor
      by (cases e) (auto split: option.splits if_splits)
  qed
qed

lemma plain_senderEnv:
  "usable ofr \<Longrightarrow> fo_Size ofr = int (length content) \<Longrightarrow> 0 \<notin> set (fo_Path ofr) \<Longrightarrow> plain_sender (senderEnv ofr content) ofr content"
  by (auto simp: plain_sender_def good_sender_def writes_through_def senderEnv_def cursor_pos)

lemma plain_senderEnv_receiver: "plain_receiver (senderEnv ofr content)"
  by (simp add: plain_receiver_def writes_through_def senderEnv_def)

lemma plain_exEnv: "plain_receiver exEnv"
  by (simp add: plain_receiver_def writes_through_def)

lemma plain_offerA: "plain_sender (senderEnv offerA (str ''abc'')) offerA (str ''abc'')"
  "plain_sender (senderEnv (offerA\<lparr>fo_Size := 0\<rparr>) []) (offerA\<lparr>fo_Size := 0\<rparr>) []"
  by (rule plain_senderEnv; simp add: offerA_def usable_def)+



text \<open>Both applications offer a file here, and one of the two has arrived.\<close>

theorem both_ways_end_to_end_witness:
  "\<exists>n f. (nstep (senderEnv offerA (str ''abc'')) (senderEnv (offerA\<lparr>fo_Size := 0\<rparr>) []))\<^sup>*\<^sup>*
        (nt_start (senderEnv offerA (str ''abc'')) (senderEnv (offerA\<lparr>fo_Size := 0\<rparr>) []) demoSession demoSession) n
    \<and> rcvd_files (s_log (nt_rcv n)) = [f] \<and> rf_start f = 0
    \<and> carried_over (\<lambda>_. str ''abc'') (nt_snd n) (nt_rcv n) \<and> carried_over (\<lambda>_. []) (nt_rcv n) (nt_snd n)"
proof -
  let ?A = "senderEnv offerA (str ''abc'')" and ?B = "senderEnv (offerA\<lparr>fo_Size := 0\<rparr>) []"
  obtain a b f where n: "(nstep ?A ?B)\<^sup>*\<^sup>* (nt_start ?A ?B demoSession demoSession) \<lparr>nt_snd = a, nt_rcv = b, nt_down = [], nt_up = []\<rparr>"
    "rcvd_files (s_log b) = [f]" "rf_start f = 0"
    using delivered [OF plain_offerA(1) plain_senderEnv_receiver [of "offerA\<lparr>fo_Size := 0\<rparr>" "[]"]] by (auto simp: leads_def received_def)
  from both_ways_end_to_end [OF plain_good(1) [OF plain_offerA(1)] plain_good(2) [OF plain_senderEnv_receiver]
      plain_good(1) [OF plain_offerA(2)] plain_good(2) [OF plain_senderEnv_receiver] demo_log(1) demo_log(1) demo_log(2) demo_log(2) n(1)]
  show ?thesis using n by fastforce
qed

end
